(* ===== verification/Prelude.thy ===== *)
theory Prelude
  imports Main "HOL-Library.Signed_Division"
begin

text \<open>
  Shared vocabulary of the development: what can go wrong in a C program (null dereference,
  use after free, overflow of a fixed buffer, exit of the process), results of fallible code as
  sums, a typed object store with \<open>malloc\<close> and \<open>free\<close>, and the integer formats of
  \<open>printf\<close>.
\<close>

named_theorems result_simps \<open>inversion rules for results of fallible code\<close>
named_theorems store_simps \<open>behaviour of the object store\<close>

section \<open>Results of fallible code\<close>

datatype abort =
    NullDeref            \<comment> \<open>a null pointer is read or written\<close>
  | BadPointer           \<comment> \<open>a dangling pointer is read or written\<close>
  | BadFree              \<comment> \<open>\<open>free\<close> of something that is not allocated\<close>
  | DivByZero
  | BufferOverflow       \<comment> \<open>a fixed-size array is written beyond its end\<close>
  | Uninitialised        \<comment> \<open>an object is read before it was ever written\<close>
  | MutexMisuse          \<comment> \<open>a mutex is unlocked by a thread that does not own it\<close>
  | OutOfFuel            \<comment> \<open>a loop did not end within the bound it was given\<close>
  | Blocked              \<comment> \<open>a system call that never returns\<close>
  | Replaced string      \<comment> \<open>the process image was replaced by \<open>execve\<close>\<close>
  | Uncaught string      \<comment> \<open>a C++ exception of this kind leaves the program\<close>
  | Exited int string    \<comment> \<open>the process called \<open>exit\<close> with this status after this message\<close>

type_synonym 'a res = "abort + 'a"

definition rbind :: "'a res \<Rightarrow> ('a \<Rightarrow> 'b res) \<Rightarrow> 'b res" where
  "rbind m f = (case m of Inl e \<Rightarrow> Inl e | Inr x \<Rightarrow> f x)"

definition returns :: "'a res \<Rightarrow> bool" where
  "returns m \<longleftrightarrow> (case m of Inl _ \<Rightarrow> False | Inr _ \<Rightarrow> True)"

section \<open>Pointers and the typed object store\<close>

text \<open>
  A pointer is \<^term>\<open>None\<close> (the null pointer) or the address of an object. A store holds the
  objects of one C type. \<open>malloc\<close> hands out fresh addresses until \<open>limit\<close> is reached and
  then returns the null pointer; \<open>free\<close> removes the object, so that every later access
  through a stale pointer is a fault.
\<close>

type_synonym ptr = "nat option"

record 'v store =
  cells :: "nat \<rightharpoonup> 'v"
  fresh :: nat
  limit :: nat

definition empty_store :: "nat \<Rightarrow> 'v store" where
  "empty_store l = \<lparr>cells = Map.empty, fresh = 0, limit = l\<rparr>"

text \<open>
  Allocation followed at once by the initialisation of the whole object; none of the modelled
  code checks the result of \<open>malloc\<close>, so that a null result is a write through null.
\<close>

definition malloc_init :: "'v \<Rightarrow> 'v store \<Rightarrow> (nat \<times> 'v store) res" where
  "malloc_init v st =
     (if fresh st < limit st
      then Inr (fresh st, st\<lparr>cells := (cells st)(fresh st \<mapsto> v), fresh := Suc (fresh st)\<rparr>)
      else Inl NullDeref)"

definition deref :: "'v store \<Rightarrow> ptr \<Rightarrow> 'v res" where
  "deref st p =
     (case p of None \<Rightarrow> Inl NullDeref
      | Some a \<Rightarrow> (case cells st a of None \<Rightarrow> Inl BadPointer | Some v \<Rightarrow> Inr v))"

definition assign :: "'v store \<Rightarrow> ptr \<Rightarrow> ('v \<Rightarrow> 'v) \<Rightarrow> 'v store res" where
  "assign st p f =
     (case p of None \<Rightarrow> Inl NullDeref
      | Some a \<Rightarrow> (case cells st a of None \<Rightarrow> Inl BadPointer
                  | Some v \<Rightarrow> Inr (st\<lparr>cells := (cells st)(a \<mapsto> f v)\<rparr>)))"

definition free_ptr :: "'v store \<Rightarrow> ptr \<Rightarrow> 'v store res" where
  "free_ptr st p =
     (case p of None \<Rightarrow> Inr st
      | Some a \<Rightarrow> (case cells st a of None \<Rightarrow> Inl BadFree
                  | Some v \<Rightarrow> Inr (st\<lparr>cells := (cells st)(a := None)\<rparr>)))"

text \<open>Addresses that were never handed out are not allocated.\<close>

definition store_ok :: "'v store \<Rightarrow> bool" where
  "store_ok st \<longleftrightarrow> (\<forall>a. cells st a \<noteq> None \<longrightarrow> a < fresh st)"

section \<open>Basic facts\<close>

lemma rbind_Inl [simp]: "rbind (Inl e) f = Inl e"
  by (simp add: rbind_def)

lemma rbind_Inr [simp]: "rbind (Inr x) f = f x"
  by (simp add: rbind_def)

lemma rbind_assoc: "rbind (rbind m f) g = rbind m (\<lambda>x. rbind (f x) g)"
  by (cases m) simp_all

lemma rbind_eq_Inr [result_simps]: "rbind m f = Inr y \<longleftrightarrow> (\<exists>x. m = Inr x \<and> f x = Inr y)"
  by (cases m) auto

lemma rbind_eq_Inl [result_simps]:
  "rbind m f = Inl e \<longleftrightarrow> m = Inl e \<or> (\<exists>x. m = Inr x \<and> f x = Inl e)"
  by (cases m) auto

lemma rbind_cong [fundef_cong]:
  "m = m' \<Longrightarrow> (\<And>x. m' = Inr x \<Longrightarrow> f x = g x) \<Longrightarrow> rbind m f = rbind m' g"
  by (cases m') auto

lemma returns_Inl [simp]: "\<not> returns (Inl e)"
  by (simp add: returns_def)

lemma returns_Inr [simp]: "returns (Inr x)"
  by (simp add: returns_def)

lemma deref_None [simp]: "deref st None = Inl NullDeref"
  by (simp add: deref_def)

lemma deref_Some [store_simps]: "cells st a = Some v \<Longrightarrow> deref st (Some a) = Inr v"
  by (simp add: deref_def)

lemma assign_Some [store_simps]:
  "cells st a = Some v \<Longrightarrow> assign st (Some a) f = Inr (st\<lparr>cells := (cells st)(a \<mapsto> f v)\<rparr>)"
  by (simp add: assign_def)

lemma free_ptr_None [simp]: "free_ptr st None = Inr st"
  by (simp add: free_ptr_def)

lemma free_ptr_Some [store_simps]:
  "cells st a = Some v \<Longrightarrow> free_ptr st (Some a) = Inr (st\<lparr>cells := (cells st)(a := None)\<rparr>)"
  by (simp add: free_ptr_def)

lemma malloc_init_Inr [store_simps]:
  "fresh st < limit st \<Longrightarrow>
   malloc_init v st =
     Inr (fresh st, st\<lparr>cells := (cells st)(fresh st \<mapsto> v), fresh := Suc (fresh st)\<rparr>)"
  by (simp add: malloc_init_def)

lemma store_ok_empty [simp]: "store_ok (empty_store l)"
  by (simp add: store_ok_def empty_store_def)

lemma store_ok_fresh: "store_ok st \<Longrightarrow> cells st (fresh st) = None"
  by (force simp: store_ok_def)

lemma store_ok_malloc:
  "store_ok st \<Longrightarrow> store_ok (st\<lparr>cells := (cells st)(fresh st \<mapsto> v), fresh := Suc (fresh st)\<rparr>)"
  by (auto simp: store_ok_def less_Suc_eq)

lemma store_ok_assign:
  "store_ok st \<Longrightarrow> cells st a = Some w \<Longrightarrow> store_ok (st\<lparr>cells := (cells st)(a \<mapsto> v)\<rparr>)"
  by (auto simp: store_ok_def)

lemma store_ok_free: "store_ok st \<Longrightarrow> store_ok (st\<lparr>cells := (cells st)(a := None)\<rparr>)"
  by (auto simp: store_ok_def)

lemmas store_ok_intros = store_ok_malloc store_ok_assign store_ok_free

section \<open>Strings\<close>

text \<open>The C string in a buffer ends at the first null character.\<close>

definition cstr :: "string \<Rightarrow> string" where
  "cstr b = takeWhile (\<lambda>c. c \<noteq> CHR 0x00) b"

definition isspace :: "char \<Rightarrow> bool" where
  "isspace c \<longleftrightarrow> c = CHR '' '' \<or> (9 \<le> (of_char c :: nat) \<and> (of_char c :: nat) \<le> 13)"

definition isdigit :: "char \<Rightarrow> bool" where
  "isdigit c \<longleftrightarrow> 48 \<le> (of_char c :: nat) \<and> (of_char c :: nat) \<le> 57"

text \<open>The maximal runs of characters other than white space, as \<open>%s\<close> and \<open>>>\<close> read them.\<close>

fun split_words :: "string \<Rightarrow> string \<Rightarrow> string list" where
  "split_words w [] = (if w = [] then [] else [w])"
| "split_words w (c # cs) =
     (if isspace c then (if w = [] then split_words [] cs else w # split_words [] cs)
      else split_words (w @ [c]) cs)"

definition words :: "string \<Rightarrow> string list" where
  "words s = split_words [] s"

text \<open>\<open>strstr\<close>: does the needle occur in the haystack?\<close>

fun is_prefix :: "string \<Rightarrow> string \<Rightarrow> bool" where
  "is_prefix [] s = True"
| "is_prefix (c # cs) [] = False"
| "is_prefix (c # cs) (d # ds) = (c = d \<and> is_prefix cs ds)"

fun strstr :: "string \<Rightarrow> string \<Rightarrow> bool" where
  "strstr [] needle = (needle = [])"
| "strstr (c # cs) needle = (is_prefix needle (c # cs) \<or> strstr cs needle)"

definition tolower :: "char \<Rightarrow> char" where
  "tolower c = (let n = of_char c :: nat in
     if 65 \<le> n \<and> n \<le> 90 then char_of (n + 32) else c)"

definition strcasecmp_eq :: "string \<Rightarrow> string \<Rightarrow> bool" where
  "strcasecmp_eq s t \<longleftrightarrow> map tolower s = map tolower t"

text \<open>Storing a string with its terminator in an array of \<open>n\<close> characters.\<close>

definition put_str :: "nat \<Rightarrow> string \<Rightarrow> string res" where
  "put_str n s = (if length s < n then Inr s else Inl BufferOverflow)"

section \<open>Decimal numbers\<close>

definition digit :: "nat \<Rightarrow> char" where
  "digit d = char_of (48 + d)"

fun show_nat :: "nat \<Rightarrow> string" where
  "show_nat n = (if n < 10 then [digit n] else show_nat (n div 10) @ [digit (n mod 10)])"

declare show_nat.simps [simp del]

definition show_int :: "int \<Rightarrow> string" where    \<comment> \<open>\<open>%d\<close>\<close>
  "show_int i = (if i < 0 then CHR ''-'' # show_nat (nat (- i)) else show_nat (nat i))"

definition show_lu :: "int \<Rightarrow> string" where     \<comment> \<open>\<open>%lu\<close> of a 64-bit argument\<close>
  "show_lu i = show_nat (nat (i mod 2 ^ 64))"

definition show_06lu :: "int \<Rightarrow> string" where   \<comment> \<open>\<open>%06lu\<close>\<close>
  "show_06lu i = replicate (6 - length (show_lu i)) (CHR ''0'') @ show_lu i"

definition digit_val :: "char \<Rightarrow> nat" where
  "digit_val c = of_char c - 48"

definition read_nat :: "string \<Rightarrow> nat" where
  "read_nat s = foldl (\<lambda>a c. 10 * a + digit_val c) 0 s"

lemma digit_val_digit [simp]: "d < 10 \<Longrightarrow> digit_val (digit d) = d"
  by (simp add: digit_val_def digit_def)

lemma isdigit_digit [simp]: "d < 10 \<Longrightarrow> isdigit (digit d)"
  by (simp add: isdigit_def digit_def)

text \<open>\<open>atoi\<close>: leading white space, a sign, the digits that follow.\<close>

definition atoi :: "string \<Rightarrow> int" where
  "atoi s =
     (case dropWhile isspace s of
        [] \<Rightarrow> 0
      | c # r \<Rightarrow>
          if c = CHR ''-'' then - int (read_nat (takeWhile isdigit r))
          else if c = CHR ''+'' then int (read_nat (takeWhile isdigit r))
          else int (read_nat (takeWhile isdigit (c # r))))"

text \<open>The position of the first element that satisfies a test.\<close>

fun find_index :: "('a \<Rightarrow> bool) \<Rightarrow> 'a list \<Rightarrow> nat option" where
  "find_index P [] = None"
| "find_index P (x # xs) = (if P x then Some 0 else map_option Suc (find_index P xs))"

lemma find_index_Some:
  "find_index P xs = Some i \<longleftrightarrow> i < length xs \<and> P (xs ! i) \<and> (\<forall>j < i. \<not> P (xs ! j))"
proof (induction xs arbitrary: i)
  case (Cons x xs)
  show ?case
  proof (cases i)
    case 0
    then show ?thesis by auto
  next
    case (Suc k)
    then show ?thesis using Cons [of k] by (auto simp: less_Suc_eq_0_disj)
  qed
qed simp

lemma find_index_None: "find_index P xs = None \<longleftrightarrow> (\<forall>i < length xs. \<not> P (xs ! i))"
  by (induction xs) (auto simp: less_Suc_eq_0_disj)

lemma read_show_nat [simp]: "read_nat (show_nat n) = n"
proof (induction n rule: show_nat.induct)
  case (1 n)
  then show ?case
    by (subst show_nat.simps) (simp add: read_nat_def)
qed

lemma show_nat_digits: "\<forall>c \<in> set (show_nat n). isdigit c"
proof (induction n rule: show_nat.induct)
  case (1 n)
  then show ?case by (subst show_nat.simps) auto
qed

lemma show_nat_nonempty [simp]: "show_nat n \<noteq> []"
  by (subst show_nat.simps) simp

lemma put_str_eq_Inr [simp]: "put_str n s = Inr t \<longleftrightarrow> t = s \<and> length s < n"
  by (auto simp: put_str_def)

lemma is_prefix_iff: "is_prefix p s \<longleftrightarrow> (\<exists>t. s = p @ t)"
  by (induction p s rule: is_prefix.induct) auto

lemma strstr_iff: "strstr s p \<longleftrightarrow> (\<exists>a b. s = a @ p @ b)"
proof (induction s)
  case (Cons c cs)
  have "(\<exists>a b. c # cs = a @ p @ b) \<longleftrightarrow> (\<exists>b. c # cs = p @ b) \<or> (\<exists>a b. cs = a @ p @ b)"
    by (metis append_Cons append_Nil list.inject neq_Nil_conv)
  with Cons show ?case by (simp add: is_prefix_iff)
qed simp

lemma length_show_nat: "n < 10 ^ k \<Longrightarrow> 0 < k \<Longrightarrow> length (show_nat n) \<le> k"
proof (induction n arbitrary: k rule: show_nat.induct)
  case (1 n)
  show ?case
  proof (cases "n < 10")
    case True
    then show ?thesis using "1.prems" by (subst show_nat.simps) simp
  next
    case False
    then obtain j where k: "k = Suc j" "0 < j"
      using "1.prems" by (cases k; cases "k - 1") auto
    then have "n div 10 < 10 ^ j" using "1.prems" by (simp add: less_mult_imp_div_less mult.commute)
    with "1.IH" [OF False] k False show ?thesis by (subst show_nat.simps) simp
  qed
qed

lemma length_show_lu: "length (show_lu i) \<le> 20"
proof -
  have "i mod 2 ^ 64 < 10 ^ 20"
    by (rule order.strict_trans2 [OF pos_mod_bound]) simp_all
  then have "nat (i mod 2 ^ 64) < 10 ^ 20" by (simp add: nat_less_iff)
  then show ?thesis using length_show_nat [of "nat (i mod 2 ^ 64)" 20] by (simp add: show_lu_def)
qed

lemma length_show_06lu: "length (show_06lu i) \<le> 26"
  using length_show_lu [of i] by (simp add: show_06lu_def)

lemma length_show_int:
  assumes "\<bar>i\<bar> < 2 ^ 31"
  shows "length (show_int i) \<le> 11"
proof -
  have "nat \<bar>i\<bar> < 10 ^ 10" using assms by (simp add: nat_less_iff)
  then have "length (show_nat (nat \<bar>i\<bar>)) \<le> 10" by (rule length_show_nat) simp
  then show ?thesis by (auto simp: show_int_def split: if_splits)
qed

lemma split_words_run:
  "\<forall>c \<in> set u. \<not> isspace c \<Longrightarrow> split_words w (u @ v) = split_words (w @ u) v"
  by (induction u arbitrary: w) auto

lemma words_space:
  "u \<noteq> [] \<Longrightarrow> \<forall>c \<in> set u. \<not> isspace c \<Longrightarrow> isspace s \<Longrightarrow> words (u @ s # v) = u # words v"
  by (simp add: words_def split_words_run)

lemma words_blank: "isspace s \<Longrightarrow> words (s # v) = words v"
  by (simp add: words_def)

lemma words_Nil [simp]: "words [] = []"
  by (simp add: words_def)

lemma length_show_nat_ge: "10 ^ k \<le> n \<Longrightarrow> k < length (show_nat n)"
proof (induction n arbitrary: k rule: show_nat.induct)
  case (1 n)
  show ?case
  proof (cases k)
    case 0
    then show ?thesis by simp
  next
    case (Suc j)
    then have big: "\<not> n < 10" "10 ^ j \<le> n div 10"
      using "1.prems" by (auto simp: less_eq_div_iff_mult_less_eq)
        (metis "1.prems" Suc le_trans mult_le_mono2 nat_mult_1_right not_le one_le_numeral one_le_power power_Suc)
    from "1.IH" [OF big] Suc big show ?thesis by (subst show_nat.simps) simp
  qed
qed

end
