(* ===== verification/Unix_Wrappers.thy ===== *)
theory Unix_Wrappers
  imports Prelude
begin

text \<open>
  The error-handling functions and the wrappers of \<^verbatim>\<open>helper.c\<close>: every capitalised wrapper
  forwards its arguments to the system call of the same name and ends the process when the
  call reports an error. The system calls are arguments of the wrappers. The message that an
  error function prints is kept up to the text that \<open>strerror\<close> appends.
\<close>

section \<open>Error-handling functions\<close>

definition unix_error :: "string \<Rightarrow> 'a res" where
  "unix_error msg = Inl (Exited 0 msg)"

definition posix_error :: "int \<Rightarrow> string \<Rightarrow> 'a res" where
  "posix_error code msg = Inl (Exited 0 msg)"

definition dns_error :: "string \<Rightarrow> 'a res" where
  "dns_error msg = Inl (Exited 0 (msg @ '': DNS error''))"

definition app_error :: "string \<Rightarrow> 'a res" where
  "app_error msg = Inl (Exited 0 msg)"

section \<open>Environment and process control\<close>

definition Gethostname :: "(nat \<Rightarrow> int \<times> string) \<Rightarrow> nat \<Rightarrow> (int \<times> string) res" where
  "Gethostname gethostname len =
     (case gethostname len of (rc, name) \<Rightarrow>
        if rc < 0 then unix_error ''Setenv error'' else Inr (rc, name))"

definition Setenv :: "(string \<Rightarrow> string \<Rightarrow> int \<Rightarrow> int) \<Rightarrow> string \<Rightarrow> string \<Rightarrow> int \<Rightarrow> int res" where
  "Setenv setenv name v overwrite =
     (let rc = setenv name v overwrite
      in if rc < 0 then unix_error ''Setenv error'' else Inr rc)"

definition Fork :: "int \<Rightarrow> int res" where
  "Fork pid = (if pid < 0 then unix_error ''Fork error'' else Inr pid)"

definition Execve :: "(string \<Rightarrow> string list \<Rightarrow> string list \<Rightarrow> int) \<Rightarrow>
    string \<Rightarrow> string list \<Rightarrow> string list \<Rightarrow> 'a res" where
  "Execve execve filename argv envp =
     (if execve filename argv envp < 0 then unix_error ''Execve error''
      else Inl (Replaced filename))"

definition Wait :: "int \<times> int \<Rightarrow> (int \<times> int) res" where
  "Wait r = (case r of (pid, status) \<Rightarrow>
     if pid < 0 then unix_error ''Wait error'' else Inr (pid, status))"

section \<open>Files and memory mappings\<close>

definition Open :: "(string \<Rightarrow> int \<Rightarrow> int \<Rightarrow> int) \<Rightarrow> string \<Rightarrow> int \<Rightarrow> int \<Rightarrow> int res" where
  "Open opn pathname flags mode =
     (let rc = opn pathname flags mode
      in if rc < 0 then unix_error ''Open error'' else Inr rc)"

definition Read :: "(int \<Rightarrow> nat \<Rightarrow> int \<times> string) \<Rightarrow> int \<Rightarrow> nat \<Rightarrow> (int \<times> string) res" where
  "Read rd fd count =
     (case rd fd count of (rc, buf) \<Rightarrow>
        if rc < 0 then unix_error ''Read error'' else Inr (rc, buf))"

definition Write :: "(int \<Rightarrow> string \<Rightarrow> nat \<Rightarrow> int) \<Rightarrow> int \<Rightarrow> string \<Rightarrow> nat \<Rightarrow> int res" where
  "Write wr fd buf count =
     (let rc = wr fd buf count
      in if rc < 0 then unix_error ''Write error'' else Inr rc)"

definition Lseek :: "(int \<Rightarrow> int \<Rightarrow> int \<Rightarrow> int) \<Rightarrow> int \<Rightarrow> int \<Rightarrow> int \<Rightarrow> int res" where
  "Lseek lseek fildes offset whence =
     (let rc = lseek fildes offset whence
      in if rc < 0 then unix_error ''Lseek error'' else Inr rc)"

definition Close :: "(int \<Rightarrow> int) \<Rightarrow> int \<Rightarrow> unit res" where
  "Close cls fd = (if cls fd < 0 then unix_error ''Close error'' else Inr ())"

definition Select :: "(int \<Rightarrow> 'fds \<Rightarrow> 'fds \<Rightarrow> 'fds \<Rightarrow> 'tv \<Rightarrow> int) \<Rightarrow>
    int \<Rightarrow> 'fds \<Rightarrow> 'fds \<Rightarrow> 'fds \<Rightarrow> 'tv \<Rightarrow> int res" where
  "Select select n readfds writefds exceptfds timeout =
     (let rc = select n readfds writefds exceptfds timeout
      in if rc < 0 then unix_error ''Select error'' else Inr rc)"

definition Dup2 :: "(int \<Rightarrow> int \<Rightarrow> int) \<Rightarrow> int \<Rightarrow> int \<Rightarrow> int res" where
  "Dup2 dup2 fd1 fd2 =
     (let rc = dup2 fd1 fd2
      in if rc < 0 then unix_error ''Dup2 error'' else Inr rc)"

definition Stat :: "(string \<Rightarrow> int \<times> 'st) \<Rightarrow> string \<Rightarrow> 'st res" where
  "Stat stat filename =
     (case stat filename of (rc, buf) \<Rightarrow>
        if rc < 0 then unix_error ''Stat error'' else Inr buf)"

definition Fstat :: "(int \<Rightarrow> int \<times> 'st) \<Rightarrow> int \<Rightarrow> 'st res" where
  "Fstat fstat fd =
     (case fstat fd of (rc, buf) \<Rightarrow>
        if rc < 0 then unix_error ''Fstat error'' else Inr buf)"

definition Mmap :: "(int \<Rightarrow> nat \<Rightarrow> int \<Rightarrow> int \<Rightarrow> int \<Rightarrow> int \<Rightarrow> int) \<Rightarrow>
    int \<Rightarrow> nat \<Rightarrow> int \<Rightarrow> int \<Rightarrow> int \<Rightarrow> int \<Rightarrow> int res" where
  "Mmap mmap addr len prot flags fd offset =
     (let p = mmap addr len prot flags fd offset
      in if p = -1 then unix_error ''mmap error'' else Inr p)"

definition Munmap :: "(int \<Rightarrow> nat \<Rightarrow> int) \<Rightarrow> int \<Rightarrow> nat \<Rightarrow> unit res" where
  "Munmap munmap start len =
     (if munmap start len < 0 then unix_error ''munmap error'' else Inr ())"

section \<open>Sockets and names\<close>

record sockaddr_in =
  sin_family :: int
  sin_addr :: "nat list"    \<comment> \<open>four bytes in network order\<close>
  sin_port :: nat           \<comment> \<open>as stored: network byte order\<close>

record hostent =
  h_addr :: "nat list"
  h_length :: nat

definition Socket :: "(int \<Rightarrow> int \<Rightarrow> int \<Rightarrow> int) \<Rightarrow> int \<Rightarrow> int \<Rightarrow> int \<Rightarrow> int res" where
  "Socket socket family typ protocol =
     (let rc = socket family typ protocol
      in if rc < 0 then unix_error ''Socket error'' else Inr rc)"

definition Setsockopt :: "(int \<Rightarrow> int \<Rightarrow> int \<Rightarrow> int \<Rightarrow> int) \<Rightarrow> int \<Rightarrow> int \<Rightarrow> int \<Rightarrow> int \<Rightarrow> unit res" where
  "Setsockopt setsockopt s level optname optval =
     (if setsockopt s level optname optval < 0 then unix_error ''Setsockopt error'' else Inr ())"

definition Bind :: "(int \<Rightarrow> sockaddr_in \<Rightarrow> int) \<Rightarrow> int \<Rightarrow> sockaddr_in \<Rightarrow> unit res" where
  "Bind bnd sockfd my_addr =
     (if bnd sockfd my_addr < 0 then unix_error ''Bind error'' else Inr ())"

definition Listen :: "(int \<Rightarrow> int \<Rightarrow> int) \<Rightarrow> int \<Rightarrow> int \<Rightarrow> unit res" where
  "Listen listen s backlog =
     (if listen s backlog < 0 then unix_error ''Listen error'' else Inr ())"

definition Accept :: "(int \<Rightarrow> int \<times> sockaddr_in) \<Rightarrow> int \<Rightarrow> (int \<times> sockaddr_in) res" where
  "Accept accept s =
     (case accept s of (rc, addr) \<Rightarrow>
        if rc < 0 then unix_error ''Accept error'' else Inr (rc, addr))"

definition Connect :: "(int \<Rightarrow> sockaddr_in \<Rightarrow> int) \<Rightarrow> int \<Rightarrow> sockaddr_in \<Rightarrow> unit res" where
  "Connect connect sockfd serv_addr =
     (if connect sockfd serv_addr < 0 then unix_error ''Connect error'' else Inr ())"

definition Gethostbyname :: "(string \<Rightarrow> hostent option) \<Rightarrow> string \<Rightarrow> hostent res" where
  "Gethostbyname gethostbyname name =
     (case gethostbyname name of None \<Rightarrow> dns_error ''Gethostbyname error'' | Some p \<Rightarrow> Inr p)"

definition Gethostbyaddr :: "(string \<Rightarrow> int \<Rightarrow> int \<Rightarrow> hostent option) \<Rightarrow>
    string \<Rightarrow> int \<Rightarrow> int \<Rightarrow> hostent res" where
  "Gethostbyaddr gethostbyaddr addr len typ =
     (case gethostbyaddr addr len typ of
        None \<Rightarrow> dns_error ''Gethostbyaddr error'' | Some p \<Rightarrow> Inr p)"

section \<open>Opening client and server sockets\<close>

definition htons :: "nat \<Rightarrow> nat" where
  "htons p = (p mod 256) * 256 + p div 256 mod 256"

text \<open>Constants of the Linux headers.\<close>

definition AF_INET :: int where "AF_INET = 2"
definition SOCK_STREAM :: int where "SOCK_STREAM = 1"
definition SOL_SOCKET :: int where "SOL_SOCKET = 1"
definition SO_REUSEADDR :: int where "SO_REUSEADDR = 2"
definition LISTENQ :: int where "LISTENQ = 1024"

lemmas net_consts = AF_INET_def SOCK_STREAM_def SOL_SOCKET_def SO_REUSEADDR_def LISTENQ_def

text \<open>The calls a helper makes on descriptors, in order.\<close>

datatype net_call =
    CallSocket | CallSetsockopt int | CallBind int sockaddr_in | CallListen int int
  | CallGethostbyname string | CallConnect int sockaddr_in

record net =
  socket :: "int \<Rightarrow> int \<Rightarrow> int \<Rightarrow> int"
  setsockopt :: "int \<Rightarrow> int \<Rightarrow> int \<Rightarrow> int \<Rightarrow> int"
  bnd :: "int \<Rightarrow> sockaddr_in \<Rightarrow> int"
  listen :: "int \<Rightarrow> int \<Rightarrow> int"
  gethostbyname :: "string \<Rightarrow> hostent option"
  connect :: "int \<Rightarrow> sockaddr_in \<Rightarrow> int"

definition open_clientfd :: "net \<Rightarrow> string \<Rightarrow> nat \<Rightarrow> int \<times> net_call list" where
  "open_clientfd net hostname port =
     (let clientfd = socket net AF_INET SOCK_STREAM 0
      in if clientfd < 0 then (-1, [CallSocket])
      else
        (case gethostbyname net hostname of
           None \<Rightarrow> (-2, [CallSocket, CallGethostbyname hostname])
         | Some hp \<Rightarrow>
             (let serveraddr = \<lparr>sin_family = AF_INET,
                    sin_addr = take (h_length hp) (h_addr hp) @ drop (h_length hp) [0, 0, 0, 0],
                    sin_port = htons port\<rparr>;
                  calls = [CallSocket, CallGethostbyname hostname, CallConnect clientfd serveraddr]
              in if connect net clientfd serveraddr < 0 then (-1, calls)
                 else (clientfd, calls))))"

definition open_listenfd :: "net \<Rightarrow> nat \<Rightarrow> int \<times> net_call list" where
  "open_listenfd net port =
     (let listenfd = socket net AF_INET SOCK_STREAM 0
      in if listenfd < 0 then (-1, [CallSocket])
      else if setsockopt net listenfd SOL_SOCKET SO_REUSEADDR 1 < 0 then
        (-1, [CallSocket, CallSetsockopt listenfd])
      else
        (let serveraddr = \<lparr>sin_family = AF_INET, sin_addr = [0, 0, 0, 0],
               sin_port = htons (port mod 65536)\<rparr>;
             calls = [CallSocket, CallSetsockopt listenfd, CallBind listenfd serveraddr]
         in if bnd net listenfd serveraddr < 0 then (-1, calls)
         else if listen net listenfd LISTENQ < 0 then (-1, calls @ [CallListen listenfd LISTENQ])
         else (listenfd, calls @ [CallListen listenfd LISTENQ])))"

definition Open_clientfd :: "net \<Rightarrow> string \<Rightarrow> nat \<Rightarrow> int res" where
  "Open_clientfd net hostname port =
     (let rc = fst (open_clientfd net hostname port)
      in if rc < 0 then
           (if rc = -1 then unix_error ''Open_clientfd Unix error''
            else dns_error ''Open_clientfd DNS error'')
         else Inr rc)"

definition Open_listenfd :: "net \<Rightarrow> nat \<Rightarrow> int res" where
  "Open_listenfd net port =
     (let rc = fst (open_listenfd net port)
      in if rc < 0 then unix_error ''Open_listenfd error'' else Inr rc)"

section \<open>Properties\<close>

lemma unix_error_not_Inr [simp]: "unix_error msg \<noteq> Inr x"
  by (simp add: unix_error_def)

text \<open>
  \<open>Open_listenfd\<close> either ends the process or returns the descriptor of a socket
  that was bound to the requested port (modulo the width of a port) and is listening: the
  four system calls were made in this order and all succeeded.
\<close>

theorem Open_listenfd_listening:
  assumes "Open_listenfd net port = Inr fd"
  shows "fd = socket net AF_INET SOCK_STREAM 0 \<and> 0 \<le> fd \<and>
         0 \<le> listen net fd LISTENQ \<and>
         snd (open_listenfd net port) =
           [CallSocket, CallSetsockopt fd,
            CallBind fd \<lparr>sin_family = AF_INET, sin_addr = [0, 0, 0, 0],
                         sin_port = htons (port mod 65536)\<rparr>,
            CallListen fd LISTENQ]"
  using assms
  by (auto simp: Open_listenfd_def open_listenfd_def Let_def split: if_splits)

theorem Open_listenfd_listening_witness:
  "snd (open_listenfd
      \<lparr>socket = \<lambda>_ _ _. 3, setsockopt = \<lambda>_ _ _ _. 0, bnd = \<lambda>_ _. 0, listen = \<lambda>_ _. 0,
       gethostbyname = \<lambda>_. None, connect = \<lambda>_ _. 0\<rparr> 8080) =
     [CallSocket, CallSetsockopt 3,
      CallBind 3 \<lparr>sin_family = 2, sin_addr = [0, 0, 0, 0], sin_port = 36895\<rparr>, CallListen 3 1024]"
  using Open_listenfd_listening [of "\<lparr>socket = \<lambda>_ _ _. 3, setsockopt = \<lambda>_ _ _ _. 0,
      bnd = \<lambda>_ _. 0, listen = \<lambda>_ _. 0, gethostbyname = \<lambda>_. None, connect = \<lambda>_ _. 0\<rparr>" 8080 3]
  by (simp add: Open_listenfd_def open_listenfd_def htons_def net_consts)

end
