(* ===== verification/Rio.thy ===== *)
theory Rio
  imports Unix_Wrappers
begin

text \<open>
  The robust I/O package of \<^verbatim>\<open>helper.c\<close>. The kernel's side of a descriptor is the list of
  what its future \<open>read\<close> calls will see: an interruption by a signal, an error, or the
  arrival of data, in any chunking; after the last event every \<open>read\<close> reports the end of
  the file. Likewise for \<open>write\<close>.
\<close>

section \<open>System calls\<close>

datatype rd_event = RdIntr | RdErr | RdData string

text \<open>\<open>Failed b\<close> is a return value of -1, with \<open>b\<close> telling whether \<open>errno\<close> is \<open>EINTR\<close>.\<close>

datatype rd_result = Failed bool | Bytes string

fun sys_read :: "rd_event list \<Rightarrow> nat \<Rightarrow> rd_result \<times> rd_event list" where
  "sys_read [] n = (Bytes [], [])"
| "sys_read (RdIntr # es) n = (Failed True, es)"
| "sys_read (RdErr # es) n = (Failed False, es)"
| "sys_read (RdData [] # es) n = sys_read es n"
| "sys_read (RdData d # es) n =
     (Bytes (take n d), if length d \<le> n then es else RdData (drop n d) # es)"

datatype wr_event = WrIntr | WrErr | WrAccept nat

text \<open>The number of accepted bytes, or \<^term>\<open>None\<close> for -1, with the new \<open>errno = EINTR\<close>.\<close>

fun sys_write :: "wr_event list \<Rightarrow> nat \<Rightarrow> bool \<Rightarrow> nat option \<times> bool \<times> wr_event list" where
  "sys_write [] n ei = (Some n, ei, [])"
| "sys_write (WrIntr # es) n ei = (None, True, es)"
| "sys_write (WrErr # es) n ei = (None, False, es)"
| "sys_write (WrAccept k # es) n ei = (Some (min k n), ei, es)"

lemma sys_read_progress:
  "sys_read es n = (Failed b, es') \<Longrightarrow> length es' < length es"
  "sys_read es n = (Bytes d, es') \<Longrightarrow> length es' \<le> length es"
  by (induction es n rule: sys_read.induct) (auto split: if_splits)

lemma sys_read_bound: "sys_read es n = (Bytes d, es') \<Longrightarrow> length d \<le> n"
  by (induction es n rule: sys_read.induct) (auto split: if_splits)

section \<open>Unbuffered transfer\<close>

text \<open>
  The result of \<open>rio_readn\<close> is the returned count (-1 on error), the bytes stored in the
  user's buffer and the rest of the descriptor.
\<close>

function rio_readn_loop ::
    "nat \<Rightarrow> nat \<Rightarrow> string \<Rightarrow> rd_event list \<Rightarrow> int \<times> string \<times> rd_event list" where
  "rio_readn_loop n nleft bufp es =
     (if nleft > 0 then
        (case sys_read es nleft of
           (Failed intr, es') \<Rightarrow>
             if intr then rio_readn_loop n nleft bufp es' else (-1, bufp, es')
         | (Bytes d, es') \<Rightarrow>
             if d = [] then (int n - int nleft, bufp, es')
             else rio_readn_loop n (nleft - length d) (bufp @ d) es')
      else (int n - int nleft, bufp, es))"
  by pat_completeness auto
termination
  by (relation "measure (\<lambda>(n, nleft, bufp, es). nleft + length es)")
    (auto dest: sys_read_progress [OF sym] sys_read_bound [OF sym] simp: neq_Nil_conv)

declare rio_readn_loop.simps [simp del]

definition rio_readn :: "nat \<Rightarrow> rd_event list \<Rightarrow> int \<times> string \<times> rd_event list" where
  "rio_readn n es = rio_readn_loop n n [] es"

text \<open>
  \<open>rio_writen\<close> with the part of the buffer still to be written and the bytes already
  accepted by the kernel; \<open>ei\<close> is the current value of \<open>errno = EINTR\<close>, which a
  successful call leaves alone.
\<close>

function rio_writen_loop ::
    "nat \<Rightarrow> string \<Rightarrow> bool \<Rightarrow> string \<Rightarrow> wr_event list \<Rightarrow> int \<times> string \<times> bool \<times> wr_event list" where
  "rio_writen_loop n bufp ei sent es =
     (if bufp \<noteq> [] then
        (case sys_write es (length bufp) ei of
           (None, ei', es') \<Rightarrow>
             if ei' then rio_writen_loop n bufp ei' sent es' else (-1, sent, ei', es')
         | (Some k, ei', es') \<Rightarrow>
             if k = 0 then
               (if ei' then rio_writen_loop n bufp ei' sent es' else (-1, sent, ei', es'))
             else rio_writen_loop n (drop k bufp) ei' (sent @ take k bufp) es')
      else (int n, sent, ei, es))"
  by pat_completeness auto
termination
  by (relation "measure (\<lambda>(n, bufp, ei, sent, es). length bufp + length es)")
    (auto elim!: sys_write.elims [OF sym] split: if_splits)

declare rio_writen_loop.simps [simp del]

definition rio_writen :: "string \<Rightarrow> bool \<Rightarrow> wr_event list \<Rightarrow> int \<times> string \<times> bool \<times> wr_event list" where
  "rio_writen buf ei es = rio_writen_loop (length buf) buf ei [] es"

section \<open>Buffered reading\<close>

definition RIO_BUFSIZE :: nat where
  "RIO_BUFSIZE = 8192"

record rio_t =
  rio_fd :: int
  rio_cnt :: int
  rio_bufptr :: nat      \<comment> \<open>offset of the next unread byte in \<open>rio_buf\<close>\<close>
  rio_buf :: string

definition rio_readinitb :: "int \<Rightarrow> rio_t \<Rightarrow> rio_t" where
  "rio_readinitb fd rp = rp\<lparr>rio_fd := fd, rio_cnt := 0, rio_bufptr := 0\<rparr>"

type_synonym rio_state = "rio_t \<times> rd_event list"

function rio_read :: "rio_state \<Rightarrow> nat \<Rightarrow> rd_result \<times> rio_state" where
  "rio_read (rp, es) n =
     (if rio_cnt rp \<le> 0 then
        (case sys_read es RIO_BUFSIZE of
           (Failed intr, es') \<Rightarrow>
             if intr then rio_read (rp\<lparr>rio_cnt := -1\<rparr>, es') n
             else (Failed intr, rp\<lparr>rio_cnt := -1\<rparr>, es')
         | (Bytes d, es') \<Rightarrow>
             if d = [] then (Bytes [], rp\<lparr>rio_cnt := 0\<rparr>, es')
             else rio_read (rp\<lparr>rio_cnt := int (length d), rio_bufptr := 0,
                               rio_buf := d @ drop (length d) (rio_buf rp)\<rparr>, es') n)
      else
        (let cnt = (if rio_cnt rp < int n then nat (rio_cnt rp) else n)
         in (Bytes (take cnt (drop (rio_bufptr rp) (rio_buf rp))),
             rp\<lparr>rio_bufptr := rio_bufptr rp + cnt, rio_cnt := rio_cnt rp - int cnt\<rparr>, es)))"
  by pat_completeness auto
termination
  by (relation "measure (\<lambda>((rp, es), n). if rio_cnt rp \<le> 0 then Suc (length es) else 0)")
    (auto dest: sys_read_progress [OF sym])

declare rio_read.simps [simp del]

lemma rio_read_never_eintr: "fst (rio_read s n) \<noteq> Failed True"
proof (induction s n rule: rio_read.induct)
  case (1 rp es n)
  show ?case
    by (subst rio_read.simps)
      (auto simp: Let_def 1 split: if_splits prod.splits rd_result.splits)
qed

lemma rio_read_not_interrupted: "rio_read s n = (Failed b, s') \<Longrightarrow> \<not> b"
  using rio_read_never_eintr [of s n] by (cases b) auto

lemma rio_read_bound: "rio_read s n = (Bytes d, s') \<Longrightarrow> length d \<le> n"
proof (induction s n rule: rio_read.induct)
  case (1 rp es n)
  from 1(3) show ?case
    by (subst (asm) rio_read.simps)
      (auto simp: Let_def split: if_splits prod.splits rd_result.splits intro: 1(1,2))
qed

function rio_readnb_loop ::
    "nat \<Rightarrow> nat \<Rightarrow> string \<Rightarrow> rio_state \<Rightarrow> int \<times> string \<times> rio_state" where
  "rio_readnb_loop n nleft bufp s =
     (if nleft > 0 then
        (case rio_read s nleft of
           (Failed intr, s') \<Rightarrow>
             if intr then rio_readnb_loop n nleft bufp s' else (-1, bufp, s')
         | (Bytes d, s') \<Rightarrow>
             if d = [] then (int n - int nleft, bufp, s')
             else rio_readnb_loop n (nleft - length d) (bufp @ d) s')
      else (int n - int nleft, bufp, s))"
  by pat_completeness auto
termination
  by (relation "measure (\<lambda>(n, nleft, bufp, s). nleft)")
    (auto dest: rio_read_not_interrupted [OF sym] rio_read_bound [OF sym] simp: neq_Nil_conv)

declare rio_readnb_loop.simps [simp del]

definition rio_readnb :: "nat \<Rightarrow> rio_state \<Rightarrow> int \<times> string \<times> rio_state" where
  "rio_readnb n s = rio_readnb_loop n n [] s"

text \<open>
  \<open>rio_readlineb\<close>: the returned count, the null-terminated line left in the user's buffer
  (\<^term>\<open>None\<close> when nothing was stored and the buffer keeps its old content), the rest.
\<close>

function rio_readlineb_loop ::
    "nat \<Rightarrow> nat \<Rightarrow> string \<Rightarrow> rio_state \<Rightarrow> int \<times> string option \<times> rio_state" where
  "rio_readlineb_loop maxlen n bufp s =
     (if n < maxlen then
        (case rio_read s 1 of
           (Bytes (c # _), s') \<Rightarrow>
             if c = CHR 0x0A then (int n, Some (bufp @ [c]), s')
             else rio_readlineb_loop maxlen (Suc n) (bufp @ [c]) s'
         | (Bytes [], s') \<Rightarrow>
             if n = 1 then (0, None, s') else (int n, Some bufp, s')
         | (Failed _, s') \<Rightarrow> (-1, None, s'))
      else (int n, Some bufp, s))"
  by pat_completeness auto
termination
  by (relation "measure (\<lambda>(maxlen, n, bufp, s). maxlen - n)") auto

declare rio_readlineb_loop.simps [simp del]

definition rio_readlineb :: "nat \<Rightarrow> rio_state \<Rightarrow> int \<times> string option \<times> rio_state" where
  "rio_readlineb maxlen s = rio_readlineb_loop maxlen 1 [] s"

section \<open>Wrappers\<close>

text \<open>
  The capitalised wrappers end the process through \<open>unix_error\<close> when the wrapped function
  reports an error.
\<close>

definition Rio_readn :: "nat \<Rightarrow> rd_event list \<Rightarrow> (int \<times> string \<times> rd_event list) res" where
  "Rio_readn nbytes es =
     (case rio_readn nbytes es of (n, buf, es') \<Rightarrow>
        if n < 0 then unix_error ''Rio_readn error'' else Inr (n, buf, es'))"

definition Rio_writen :: "string \<Rightarrow> bool \<Rightarrow> wr_event list \<Rightarrow> (string \<times> bool \<times> wr_event list) res" where
  "Rio_writen usrbuf ei es =
     (case rio_writen usrbuf ei es of (r, sent, ei', es') \<Rightarrow>
        if r \<noteq> int (length usrbuf) then unix_error ''Rio_writen error''
        else Inr (sent, ei', es'))"

definition Rio_readinitb :: "int \<Rightarrow> rio_t \<Rightarrow> rio_t" where
  "Rio_readinitb fd rp = rio_readinitb fd rp"

definition Rio_readnb :: "nat \<Rightarrow> rio_state \<Rightarrow> (int \<times> string \<times> rio_state) res" where
  "Rio_readnb n s =
     (case rio_readnb n s of (rc, buf, s') \<Rightarrow>
        if rc < 0 then unix_error ''Rio_readnb error'' else Inr (rc, buf, s'))"

definition Rio_readlineb :: "nat \<Rightarrow> rio_state \<Rightarrow> (int \<times> string option \<times> rio_state) res" where
  "Rio_readlineb maxlen s =
     (case rio_readlineb maxlen s of (rc, buf, s') \<Rightarrow>
        if rc < 0 then unix_error ''Rio_readlineb error'' else Inr (rc, buf, s'))"

section \<open>The byte stream behind a descriptor\<close>

text \<open>The bytes that arrive before the first error, and whether there is an error at all.\<close>

fun avail :: "rd_event list \<Rightarrow> string" where
  "avail [] = []"
| "avail (RdIntr # es) = avail es"
| "avail (RdErr # es) = []"
| "avail (RdData d # es) = d @ avail es"

fun broken :: "rd_event list \<Rightarrow> bool" where
  "broken [] = False"
| "broken (RdIntr # es) = broken es"
| "broken (RdErr # es) = True"
| "broken (RdData d # es) = broken es"

text \<open>The bytes of the internal buffer that were not handed out yet.\<close>

definition unread :: "rio_t \<Rightarrow> string" where
  "unread rp = take (nat (rio_cnt rp)) (drop (rio_bufptr rp) (rio_buf rp))"

definition rio_ok :: "rio_state \<Rightarrow> bool" where
  "rio_ok s \<longleftrightarrow> length (rio_buf (fst s)) = RIO_BUFSIZE \<and>
     (0 < rio_cnt (fst s) \<longrightarrow> rio_bufptr (fst s) + nat (rio_cnt (fst s)) \<le> RIO_BUFSIZE)"

definition rio_stream :: "rio_state \<Rightarrow> string" where
  "rio_stream s = unread (fst s) @ avail (snd s)"

definition rio_broken :: "rio_state \<Rightarrow> bool" where
  "rio_broken s = broken (snd s)"

section \<open>The reader contract\<close>

text \<open>
  What the robust readers rely on: a reader hands out a non-empty prefix of its stream, or
  reports the end when the stream is empty, or fails for good when it is empty and broken,
  or is interrupted without losing anything. \<open>budget\<close> bounds the interruptions.
\<close>

locale short_reader =
  fixes rd :: "'s \<Rightarrow> nat \<Rightarrow> rd_result \<times> 's"
    and good :: "'s \<Rightarrow> bool"
    and stream :: "'s \<Rightarrow> string"
    and fails :: "'s \<Rightarrow> bool"
    and budget :: "'s \<Rightarrow> nat"
  assumes rd_bytes: "good s \<Longrightarrow> 0 < n \<Longrightarrow> rd s n = (Bytes d, s') \<Longrightarrow>
      good s' \<and> stream s = d @ stream s' \<and> fails s' = fails s \<and> length d \<le> n \<and>
      budget s' \<le> budget s \<and> (d = [] \<longrightarrow> stream s = [] \<and> \<not> fails s)"
    and rd_failed: "good s \<Longrightarrow> 0 < n \<Longrightarrow> rd s n = (Failed False, s') \<Longrightarrow>
      stream s = [] \<and> fails s"
    and rd_interrupted: "good s \<Longrightarrow> 0 < n \<Longrightarrow> rd s n = (Failed True, s') \<Longrightarrow>
      good s' \<and> stream s' = stream s \<and> fails s' = fails s \<and> budget s' < budget s"

text \<open>A robust reader repeats short reads until it has \<open>n\<close> bytes or the stream ends.\<close>

locale robust_reader = short_reader rd good stream fails budget
  for rd :: "'s \<Rightarrow> nat \<Rightarrow> rd_result \<times> 's"
    and good :: "'s \<Rightarrow> bool"
    and stream :: "'s \<Rightarrow> string"
    and fails :: "'s \<Rightarrow> bool"
    and budget :: "'s \<Rightarrow> nat" +
  fixes loop :: "nat \<Rightarrow> nat \<Rightarrow> string \<Rightarrow> 's \<Rightarrow> int \<times> string \<times> 's"
  assumes loop_done: "loop n 0 bufp s = (int n, bufp, s)"
    and loop_bytes: "0 < k \<Longrightarrow> rd s k = (Bytes d, s') \<Longrightarrow> loop n k bufp s =
      (if d = [] then (int n - int k, bufp, s') else loop n (k - length d) (bufp @ d) s')"
    and loop_failed: "0 < k \<Longrightarrow> rd s k = (Failed False, s') \<Longrightarrow> loop n k bufp s = (-1, bufp, s')"
    and loop_interrupted: "0 < k \<Longrightarrow> rd s k = (Failed True, s') \<Longrightarrow>
      loop n k bufp s = loop n k bufp s'"
begin

lemma loop_reads:
  assumes "good s" and "k \<le> length (stream s) \<or> \<not> fails s" and "k \<le> n"
  shows "\<exists>s'. loop n k bufp s =
             (int (n - k + min k (length (stream s))), bufp @ take k (stream s), s') \<and>
           good s' \<and> stream s' = drop k (stream s) \<and> fails s' = fails s"
  using assms
proof (induction "k + budget s" arbitrary: k bufp s rule: less_induct)
  case less
  show ?case
  proof (cases "k = 0")
    case True
    then show ?thesis using less.prems by (simp add: loop_done)
  next
    case False
    obtain r s1 where rd: "rd s k = (r, s1)" by (cases "rd s k")
    show ?thesis
    proof (cases r)
      case (Bytes d)
      note facts = rd_bytes [OF less.prems(1) _ rd [unfolded Bytes]] and run = loop_bytes [OF _ rd [unfolded Bytes]]
      show ?thesis
      proof (cases "d = []")
        case True
        then show ?thesis using facts run False less.prems by auto
      next
        case nonempty: False
        have *: "k - length d + budget s1 < k + budget s" "good s1"
          "k - length d \<le> length (stream s1) \<or> \<not> fails s1" "k - length d \<le> n"
          using facts False nonempty less.prems by (auto simp: neq_Nil_conv)
        show ?thesis
          using less.hyps [OF *, of "bufp @ d"] facts run False nonempty less.prems by auto
      qed
    next
      case (Failed b)
      show ?thesis
      proof (cases b)
        case True
        with Failed rd have rd': "rd s k = (Failed True, s1)" by simp
        with False less.prems have *: "k + budget s1 < k + budget s" "good s1"
          "k \<le> length (stream s1) \<or> \<not> fails s1" "k \<le> n" "stream s1 = stream s" "fails s1 = fails s"
          using rd_interrupted [of s k s1] by auto
        show ?thesis
          using less.hyps [OF *(1-4), of bufp] loop_interrupted [OF _ rd', of n bufp] False * by auto
      next
        case notb: False
        with Failed rd False less.prems show ?thesis using rd_failed [of s k s1] by auto
      qed
    qed
  qed
qed

lemma loop_fails:
  assumes "good s" and "length (stream s) < k" and "fails s"
  shows "\<exists>b s'. loop n k bufp s = (-1, b, s')"
  using assms
proof (induction "k + budget s" arbitrary: k bufp s rule: less_induct)
  case less
  obtain r s1 where rd: "rd s k = (r, s1)" by (cases "rd s k")
  have k: "0 < k" using less.prems by auto
  show ?case
  proof (cases r)
    case (Bytes d)
    note facts = rd_bytes [OF less.prems(1) k rd [unfolded Bytes]]
    then have "d \<noteq> []" using less.prems by auto
    then have *: "k - length d + budget s1 < k + budget s" "good s1"
        "length (stream s1) < k - length d" "fails s1"
      using facts k less.prems by (auto simp: neq_Nil_conv)
    show ?thesis
      using less.hyps [OF *] loop_bytes [OF k rd [unfolded Bytes]] \<open>d \<noteq> []\<close> by simp
  next
    case (Failed b)
    show ?thesis
    proof (cases b)
      case True
      with Failed rd have rd': "rd s k = (Failed True, s1)" by simp
      note facts = rd_interrupted [OF less.prems(1) k rd']
      have "k + budget s1 < k + budget s" using facts by simp
      from less.hyps [OF this] facts less.prems loop_interrupted [OF k rd'] show ?thesis by simp
    next
      case False
      with Failed rd loop_failed [OF k, of s s1] show ?thesis by simp
    qed
  qed
qed

end

section \<open>The kernel and the internal buffer satisfy the contract\<close>

lemma sys_read_bytes:
  "0 < n \<Longrightarrow> sys_read es n = (Bytes d, es') \<Longrightarrow>
   avail es = d @ avail es' \<and> broken es' = broken es \<and>
   (d = [] \<longrightarrow> avail es = [] \<and> \<not> broken es)"
  by (induction es n rule: sys_read.induct) (auto split: if_splits)

lemma sys_read_failed:
  "sys_read es n = (Failed b, es') \<Longrightarrow>
   (b \<longrightarrow> avail es' = avail es \<and> broken es' = broken es) \<and>
   (\<not> b \<longrightarrow> avail es = [] \<and> broken es)"
  by (induction es n rule: sys_read.induct) auto

interpretation kernel_reader: robust_reader sys_read "\<lambda>_. True" avail broken length rio_readn_loop
  by unfold_locales
    (auto dest: sys_read_bytes sys_read_failed sys_read_progress sys_read_bound
      simp: rio_readn_loop.simps)

lemma rio_read_buffered:
  assumes "0 < rio_cnt rp" and "rio_ok (rp, es)"
  shows "\<exists>rp'. rio_read (rp, es) n = (Bytes (take n (unread rp)), rp', es) \<and>
           unread rp' = drop n (unread rp) \<and> rio_ok (rp', es) \<and> unread rp \<noteq> []"
proof -
  let ?c = "min (nat (rio_cnt rp)) n"
  let ?rp = "rp\<lparr>rio_bufptr := rio_bufptr rp + ?c, rio_cnt := rio_cnt rp - int ?c\<rparr>"
  have "take ?c (drop (rio_bufptr rp) (rio_buf rp)) = take n (unread rp)"
    by (simp add: unread_def min.commute)
  moreover have "(if rio_cnt rp < int n then nat (rio_cnt rp) else n) = ?c" by auto
  ultimately have "rio_read (rp, es) n = (Bytes (take n (unread rp)), ?rp, es)"
    using assms(1) by (simp add: rio_read.simps [of rp] Let_def)
  moreover have "nat (rio_cnt rp - int ?c) = nat (rio_cnt rp) - ?c" by simp
  then have "unread ?rp = drop n (unread rp)"
    by (simp add: unread_def drop_take add.commute min_def)
  moreover have "rio_ok (?rp, es)" "unread rp \<noteq> []"
    using assms by (auto simp: rio_ok_def unread_def)
  ultimately show ?thesis by blast
qed

lemma rio_refill_bytes:
  assumes "rio_ok (rp, es)" and "rio_cnt rp \<le> 0" and rd: "sys_read es RIO_BUFSIZE = (Bytes b, es')"
    and rp': "rp' = rp\<lparr>rio_cnt := int (length b), rio_bufptr := 0,
                      rio_buf := b @ drop (length b) (rio_buf rp)\<rparr>"
  shows "rio_ok (rp', es') \<and> rio_stream (rp', es') = rio_stream (rp, es) \<and>
         rio_broken (rp', es') = rio_broken (rp, es) \<and>
         (b = [] \<longrightarrow> rio_stream (rp, es) = [] \<and> \<not> rio_broken (rp, es))"
proof -
  have pos: "0 < RIO_BUFSIZE" by (simp add: RIO_BUFSIZE_def)
  have nil: "unread rp = []" using assms(2) by (simp add: unread_def)
  from assms(1) nil sys_read_bytes [OF pos rd] sys_read_bound [OF rd] show ?thesis
    by (auto simp: rp' rio_ok_def rio_stream_def rio_broken_def unread_def)
qed

lemma rio_refill_interrupted:
  assumes "rio_ok (rp, es)" and "rio_cnt rp \<le> 0" and rd: "sys_read es RIO_BUFSIZE = (Failed True, es')"
  shows "rio_ok (rp\<lparr>rio_cnt := -1\<rparr>, es') \<and> rio_stream (rp\<lparr>rio_cnt := -1\<rparr>, es') = rio_stream (rp, es) \<and>
         rio_broken (rp\<lparr>rio_cnt := -1\<rparr>, es') = rio_broken (rp, es)"
  using assms(1,2) sys_read_failed [OF rd]
  by (auto simp: rio_ok_def rio_stream_def rio_broken_def unread_def)

lemma rio_read_bytes:
  "rio_ok s \<Longrightarrow> 0 < n \<Longrightarrow> rio_read s n = (Bytes d, s') \<Longrightarrow>
   rio_ok s' \<and> rio_stream s = d @ rio_stream s' \<and> rio_broken s' = rio_broken s \<and>
   (d = [] \<longrightarrow> rio_stream s = [] \<and> \<not> rio_broken s)"
proof (induction s n rule: rio_read.induct)
  case (1 rp es n)
  show ?case
  proof (cases "rio_cnt rp \<le> 0")
    case False
    then show ?thesis
      using rio_read_buffered [of rp es n] "1.prems"
      by (auto simp: rio_stream_def rio_broken_def)
  next
    case True
    obtain r es' where rd: "sys_read es RIO_BUFSIZE = (r, es')" by fastforce
    show ?thesis
    proof (cases r)
      case (Bytes b)
      let ?rp = "rp\<lparr>rio_cnt := int (length b), rio_bufptr := 0,
                    rio_buf := b @ drop (length b) (rio_buf rp)\<rparr>"
      note facts = rio_refill_bytes [OF "1.prems"(1) True rd [unfolded Bytes] refl]
      show ?thesis
      proof (cases "b = []")
        case empty: True
        then show ?thesis
          using "1.prems" True rd Bytes facts
          by (auto simp: rio_read.simps [of rp] rio_ok_def rio_stream_def rio_broken_def unread_def)
      next
        case nonempty: False
        have "rio_read (?rp, es') n = (Bytes d, s')"
          using "1.prems"(3) True rd Bytes nonempty by (simp add: rio_read.simps [of rp])
        with facts show ?thesis
          using "1.IH"(2) [OF True rd [symmetric] Bytes nonempty] "1.prems"(2) by metis
      qed
    next
      case (Failed b)
      show ?thesis
      proof (cases b)
        case b: True
        have "rio_read (rp\<lparr>rio_cnt := -1\<rparr>, es') n = (Bytes d, s')"
          using "1.prems"(3) True rd Failed b by (simp add: rio_read.simps [of rp])
        with rio_refill_interrupted [OF "1.prems"(1) True] rd Failed b show ?thesis
          using "1.IH"(1) [OF True rd [symmetric] Failed b] "1.prems"(2) by metis
      next
        case b: False
        then show ?thesis
          using "1.prems"(3) True rd Failed by (simp add: rio_read.simps [of rp])
      qed
    qed
  qed
qed

lemma rio_read_failed:
  "rio_ok s \<Longrightarrow> rio_read s n = (Failed b, s') \<Longrightarrow> rio_stream s = [] \<and> rio_broken s"
proof (induction s n rule: rio_read.induct)
  case (1 rp es n)
  have cnt: "rio_cnt rp \<le> 0"
    using rio_read_buffered [of rp es n] "1.prems" by (rule_tac ccontr) auto
  then have nil: "unread rp = []" by (simp add: unread_def)
  have pos: "0 < RIO_BUFSIZE" by (simp add: RIO_BUFSIZE_def)
  obtain r es' where rd: "sys_read es RIO_BUFSIZE = (r, es')" by fastforce
  show ?case
  proof (cases r)
    case (Failed i)
    note facts = sys_read_failed [OF rd [unfolded Failed]]
    show ?thesis
    proof (cases i)
      case True
      have "rio_ok (rp\<lparr>rio_cnt := -1\<rparr>, es')" using "1.prems"(1) by (auto simp: rio_ok_def)
      with "1.IH"(1) [OF cnt rd [symmetric] Failed True] "1.prems"(2) show ?thesis
        using rd Failed True cnt facts nil
        by (auto simp: rio_read.simps [of rp] rio_stream_def rio_broken_def)
    next
      case False
      then show ?thesis using facts nil by (simp add: rio_stream_def rio_broken_def)
    qed
  next
    case (Bytes d)
    let ?rp = "rp\<lparr>rio_cnt := int (length d), rio_bufptr := 0,
                  rio_buf := d @ drop (length d) (rio_buf rp)\<rparr>"
    have ok: "rio_ok (?rp, es')"
      using "1.prems"(1) sys_read_bound [OF rd [unfolded Bytes]] by (auto simp: rio_ok_def)
    show ?thesis
    proof (cases "d = []")
      case True
      then show ?thesis using "1.prems"(2) rd Bytes cnt by (simp add: rio_read.simps [of rp])
    next
      case False
      then have "0 < rio_cnt ?rp" by simp
      from rio_read_buffered [OF this ok, of n] "1.prems"(2) rd Bytes cnt False show ?thesis
        by (auto simp: rio_read.simps [of rp])
    qed
  qed
qed

interpretation buffered_reader: robust_reader rio_read rio_ok rio_stream rio_broken "\<lambda>_. 0"
    rio_readnb_loop
  by unfold_locales
    (auto dest: rio_read_bytes rio_read_failed rio_read_bound rio_read_not_interrupted
      simp: rio_readnb_loop.simps)

section \<open>Robust reads and writes\<close>

text \<open>
  \<open>rio_readn\<close> hides short reads and interruptions: whatever the chunking, unless the
  descriptor breaks first, it stores exactly the first \<open>n\<close> bytes of the stream (all of it,
  if it is shorter), returns their number and leaves the rest of the stream unread.
\<close>

theorem rio_readn_exact:
  assumes "n \<le> length (avail es) \<or> \<not> broken es"
  shows "\<exists>es'. rio_readn n es = (int (min n (length (avail es))), take n (avail es), es') \<and>
           avail es' = drop n (avail es)"
  using kernel_reader.loop_reads [of n es n "[]"] assms by (auto simp: rio_readn_def)

theorem rio_readn_exact_witness:
  "\<exists>es'. rio_readn 4 [RdData ''ab'', RdIntr, RdData ''cde''] = (4, ''abcd'', es') \<and>
     avail es' = ''e''"
  using rio_readn_exact [of 4 "[RdData ''ab'', RdIntr, RdData ''cde'']"] by simp

text \<open>
  \<open>rio_readn\<close> reports -1 exactly when an error arrives before \<open>n\<close> bytes did.
\<close>

theorem rio_readn_error:
  "fst (rio_readn n es) = -1 \<longleftrightarrow> length (avail es) < n \<and> broken es"
proof (cases "length (avail es) < n \<and> broken es")
  case True
  then show ?thesis
    using kernel_reader.loop_fails [of es n n "[]"] by (auto simp: rio_readn_def)
next
  case False
  then show ?thesis
    using kernel_reader.loop_reads [of n es n "[]"] by (auto simp: rio_readn_def)
qed

text \<open>
  The buffered \<open>rio_readnb\<close> delivers the same bytes as an unbuffered reader of the
  stream formed by the unread part of the internal buffer and the descriptor, and keeps the
  buffer well formed.
\<close>

theorem rio_readnb_exact:
  assumes "rio_ok s" and "n \<le> length (rio_stream s) \<or> \<not> rio_broken s"
  shows "\<exists>s'. rio_readnb n s = (int (min n (length (rio_stream s))), take n (rio_stream s), s') \<and>
           rio_stream s' = drop n (rio_stream s) \<and> rio_ok s'"
  using buffered_reader.loop_reads [of s n n "[]"] assms by (auto simp: rio_readnb_def)

theorem rio_readnb_exact_witness:
  "\<exists>s'. rio_readnb 3
      (rio_readinitb 5 \<lparr>rio_fd = 0, rio_cnt = 7, rio_bufptr = 9, rio_buf = replicate 8192 CHR ''x''\<rparr>,
       [RdData ''ab'', RdData ''cd'']) = (3, ''abc'', s') \<and>
     rio_stream s' = ''d'' \<and> rio_ok s'"
  using rio_readnb_exact [of "(rio_readinitb 5 \<lparr>rio_fd = 0, rio_cnt = 7, rio_bufptr = 9,
      rio_buf = replicate 8192 CHR ''x''\<rparr>, [RdData ''ab'', RdData ''cd''])" 3]
  by (simp add: rio_ok_def rio_readinitb_def RIO_BUFSIZE_def rio_stream_def unread_def
      rio_broken_def)

text \<open>Everything the kernel accepts is a prefix of the buffer, in order and without gaps.\<close>

lemma sys_write_rest: "sys_write es n ei = (r, ei', es') \<Longrightarrow> set es' \<subseteq> set es"
  by (auto elim!: sys_write.elims)

lemma rio_writen_loop_prefix:
  "rio_writen_loop n bufp ei sent es = (r, out, ei', es') \<Longrightarrow>
   set es' \<subseteq> set es \<and>
   (\<exists>k. out = sent @ take k bufp \<and> (r = int n \<and> take k bufp = bufp \<or> r = -1))"
proof (induction n bufp ei sent es rule: rio_writen_loop.induct)
  case (1 n bufp ei sent es)
  show ?case
  proof (cases "bufp = []")
    case True
    then show ?thesis using "1.prems" by (simp add: rio_writen_loop.simps)
  next
    case False
    obtain a ei1 es1 where w: "sys_write es (length bufp) ei = (a, ei1, es1)"
      by (metis prod_cases3)
    note sub = sys_write_rest [OF w]
    consider (stop) "r = -1" "out = sent" "es' = es1"
      | (again) "a = None" ei1 "rio_writen_loop n bufp ei1 sent es1 = (r, out, ei', es')"
      | (stalled) "a = Some 0" ei1 "rio_writen_loop n bufp ei1 sent es1 = (r, out, ei', es')"
      | (more) k where "a = Some k" "k \<noteq> 0"
          "rio_writen_loop n (drop k bufp) ei1 (sent @ take k bufp) es1 = (r, out, ei', es')"
      using "1.prems" False w
      by (subst (asm) rio_writen_loop.simps) (auto split: option.splits if_splits)
    then show ?thesis
    proof cases
      case stop
      then show ?thesis using sub by (auto intro: exI [of _ 0])
    next
      case again
      then show ?thesis
        using "1.IH"(1) [OF False w [symmetric] again(1) refl again(2,3)] sub by blast
    next
      case stalled
      then show ?thesis
        using "1.IH"(2) [OF False w [symmetric] stalled(1) refl refl stalled(2,3)] sub by blast
    next
      case (more k)
      from "1.IH"(3) [OF False w [symmetric] more(1) refl more(2) more(3)] obtain j where
        j: "set es' \<subseteq> set es1" "out = (sent @ take k bufp) @ take j (drop k bufp)"
        "r = int n \<and> take j (drop k bufp) = drop k bufp \<or> r = -1" by blast
      then have "out = sent @ take (k + j) bufp \<and> (r = int n \<and> take (k + j) bufp = bufp \<or> r = -1)"
        by (auto simp: take_add)
      then show ?thesis using j(1) sub by blast
    qed
  qed
qed

lemma rio_writen_loop_complete:
  "\<forall>e \<in> set es. e \<noteq> WrErr \<and> e \<noteq> WrAccept 0 \<Longrightarrow>
   \<exists>ei' es'. rio_writen_loop n bufp ei sent es = (int n, sent @ bufp, ei', es')"
proof (induction n bufp ei sent es rule: rio_writen_loop.induct)
  case (1 n bufp ei sent es)
  show ?case
  proof (cases "bufp = []")
    case True
    then show ?thesis by (simp add: rio_writen_loop.simps)
  next
    case False
    show ?thesis
    proof (cases es)
      case Nil
      then show ?thesis
        using False by (simp add: rio_writen_loop.simps [of n bufp] rio_writen_loop.simps [of n "[]"])
    next
      case (Cons e es1)
      have rest: "\<forall>e \<in> set es1. e \<noteq> WrErr \<and> e \<noteq> WrAccept 0" using "1.prems" Cons by simp
      show ?thesis
      proof (cases e)
        case WrIntr
        then show ?thesis
          using "1.IH"(1) [of None "(True, es1)" True es1] rest False Cons
          by (simp add: rio_writen_loop.simps [of n bufp])
      next
        case WrErr
        then show ?thesis using "1.prems" Cons by simp
      next
        case (WrAccept k)
        then have "min k (length bufp) \<noteq> 0" using "1.prems" Cons False by auto
        then show ?thesis
          using "1.IH"(3) [of "Some (min k (length bufp))" "(ei, es1)" "min k (length bufp)" ei es1]
            rest False Cons WrAccept
          by (auto simp: rio_writen_loop.simps [of n bufp] min_def split: if_splits)
      qed
    qed
  qed
qed

text \<open>
  C30. \<open>rio_writen\<close> is all or an error: if it does not return -1 it returns the length of
  the buffer and the kernel has accepted the whole buffer, in order; and when no write fails
  or stalls, it does so despite any short writes and interruptions.
\<close>

theorem rio_writen_all:
  "(fst (rio_writen buf ei es) \<noteq> -1 \<longrightarrow>
      fst (rio_writen buf ei es) = int (length buf) \<and> fst (snd (rio_writen buf ei es)) = buf) \<and>
   (list_all (\<lambda>e. e \<noteq> WrErr \<and> e \<noteq> WrAccept 0) es \<longrightarrow>
      fst (rio_writen buf ei es) = int (length buf))"
proof -
  obtain r out ei' es' where run: "rio_writen buf ei es = (r, out, ei', es')"
    by (metis prod_cases4)
  then have "\<exists>k. out = [] @ take k buf \<and> (r = int (length buf) \<and> take k buf = buf \<or> r = -1)"
    using rio_writen_loop_prefix [of "length buf" buf ei "[]" es] by (simp add: rio_writen_def)
  moreover have "list_all (\<lambda>e. e \<noteq> WrErr \<and> e \<noteq> WrAccept 0) es \<Longrightarrow> r = int (length buf)"
    using rio_writen_loop_complete [of es "length buf" buf ei "[]"] run
    by (auto simp: rio_writen_def list_all_iff)
  ultimately show ?thesis using run by auto
qed

theorem rio_writen_all_witness:
  "fst (rio_writen ''hello'' False [WrAccept 2, WrIntr, WrAccept 1]) = 5 \<and>
   fst (snd (rio_writen ''hello'' False [WrAccept 2, WrIntr, WrAccept 1])) = ''hello''"
  using rio_writen_all [of "''hello''" False "[WrAccept 2, WrIntr, WrAccept 1]"]
  by (auto simp only: list.pred_inject wr_event.distinct wr_event.inject list.size)

text \<open>A peer that accepts at least one byte per call and never breaks the connection.\<close>

definition patient :: "wr_event list \<Rightarrow> bool" where
  "patient es \<longleftrightarrow> list_all (\<lambda>e. e \<noteq> WrErr \<and> e \<noteq> WrAccept 0) es"

lemma Rio_writen_patient:
  assumes "patient es"
  shows "\<exists>ei' es'. Rio_writen buf ei es = Inr (buf, ei', es') \<and> patient es'"
proof -
  obtain ei' es' where run: "rio_writen buf ei es = (int (length buf), buf, ei', es')"
    using rio_writen_loop_complete [of es "length buf" buf ei "[]"] assms
    by (auto simp: rio_writen_def patient_def list_all_iff)
  then have "patient es'"
    using rio_writen_loop_prefix [of "length buf" buf ei "[]" es] assms
    by (force simp: rio_writen_def patient_def list_all_iff)
  with run show ?thesis by (simp add: Rio_writen_def)
qed

lemma Rio_writen_sent:
  "Rio_writen buf ei es = Inr (out, ei', es') \<Longrightarrow> out = buf"
  using rio_writen_loop_prefix [of "length buf" buf ei "[]" es]
  by (auto simp: Rio_writen_def rio_writen_def split: prod.splits if_splits)

section \<open>Reading lines\<close>

text \<open>The next line of a stream: up to and including a newline, at most \<open>k\<close> bytes.\<close>

fun takeline :: "nat \<Rightarrow> string \<Rightarrow> string" where
  "takeline 0 cs = []"
| "takeline (Suc k) [] = []"
| "takeline (Suc k) (c # cs) = c # (if c = CHR 0x0A then [] else takeline k cs)"

lemma takeline_numeral [simp]:
  "takeline (numeral k) [] = []"
  "takeline (numeral k) (c # cs) =
     c # (if c = CHR 0x0A then [] else takeline (pred_numeral k) cs)"
  by (simp_all add: numeral_eq_Suc)

definition line_count :: "string \<Rightarrow> nat" where
  "line_count l = length l + (if l \<noteq> [] \<and> last l = CHR 0x0A then 0 else 1)"

lemma rio_read_one:
  assumes "rio_ok s" and "\<not> rio_broken s"
  shows "rio_stream s = [] \<Longrightarrow> \<exists>s'. rio_read s 1 = (Bytes [], s') \<and> rio_ok s' \<and>
           rio_stream s' = [] \<and> \<not> rio_broken s'"
    and "rio_stream s = c # cs \<Longrightarrow> \<exists>s'. rio_read s 1 = (Bytes [c], s') \<and> rio_ok s' \<and>
           rio_stream s' = cs \<and> \<not> rio_broken s'"
proof -
  obtain r s' where r: "rio_read s 1 = (r, s')" by (cases "rio_read s 1")
  obtain d where "r = Bytes d"
    using r assms rio_read_failed [of s 1] by (cases r) auto
  with r assms have d: "rio_read s 1 = (Bytes d, s')" "rio_ok s'" "rio_stream s = d @ rio_stream s'"
      "\<not> rio_broken s'" "d = [] \<longrightarrow> rio_stream s = []" "length d \<le> 1"
    using rio_read_bytes [of s 1 d s'] rio_read_bound [of s 1 d s'] by auto
  show "rio_stream s = [] \<Longrightarrow> \<exists>s'. rio_read s 1 = (Bytes [], s') \<and> rio_ok s' \<and>
           rio_stream s' = [] \<and> \<not> rio_broken s'"
    using d by auto
  show "rio_stream s = c # cs \<Longrightarrow> \<exists>s'. rio_read s 1 = (Bytes [c], s') \<and> rio_ok s' \<and>
           rio_stream s' = cs \<and> \<not> rio_broken s'"
    using d by (cases d) auto
qed

lemma rio_readlineb_loop_line:
  assumes "rio_ok s" and "\<not> rio_broken s" and "1 \<le> n" and "n \<le> maxlen"
    and "1 < n \<or> rio_stream s \<noteq> [] \<or> n = maxlen"
  shows "\<exists>s'. rio_readlineb_loop maxlen n bufp s =
             (int (n - 1 + line_count (takeline (maxlen - n) (rio_stream s))),
              Some (bufp @ takeline (maxlen - n) (rio_stream s)), s') \<and>
           rio_ok s' \<and> \<not> rio_broken s' \<and>
           rio_stream s' = drop (length (takeline (maxlen - n) (rio_stream s))) (rio_stream s)"
  using assms
proof (induction "maxlen - n" arbitrary: n bufp s)
  case 0
  then show ?case by (simp add: rio_readlineb_loop.simps line_count_def)
next
  case (Suc k)
  have lt: "n < maxlen" using Suc.hyps(2) by simp
  show ?case
  proof (cases "rio_stream s")
    case Nil
    then have "n \<noteq> 1" using Suc.prems lt by auto
    with Nil lt show ?thesis
      using rio_read_one(1) [OF Suc.prems(1,2) Nil] Suc.prems(3) Suc.hyps(2) [symmetric]
      by (auto simp: rio_readlineb_loop.simps [of maxlen n] line_count_def)
  next
    case (Cons c cs)
    obtain s1 where rd: "rio_read s 1 = (Bytes [c], s1)" "rio_ok s1" "rio_stream s1 = cs"
        "\<not> rio_broken s1"
      using rio_read_one(2) [OF Suc.prems(1,2) Cons] by blast
    show ?thesis
    proof (cases "c = CHR 0x0A")
      case True
      then show ?thesis
        using rd lt Cons Suc.prems(3) Suc.hyps(2) [symmetric]
        by (auto simp: rio_readlineb_loop.simps [of maxlen n] line_count_def)
    next
      case False
      have hyp: "k = maxlen - Suc n" "1 \<le> Suc n" "Suc n \<le> maxlen"
          "1 < Suc n \<or> rio_stream s1 \<noteq> [] \<or> Suc n = maxlen"
        using Suc.hyps(2) lt Suc.prems(3) by auto
      have "line_count (c # takeline (maxlen - Suc n) cs) = Suc (line_count (takeline (maxlen - Suc n) cs))"
        using False by (auto simp: line_count_def)
      then show ?thesis
        using Suc.hyps(1) [OF hyp(1) rd(2,4) hyp(2-4), of "bufp @ [c]"] rd lt Cons False
          Suc.prems(3) hyp(1) Suc.hyps(2) [symmetric]
        by (auto simp: rio_readlineb_loop.simps [of maxlen n])
    qed
  qed
qed

lemma rio_readlineb_next:
  assumes "rio_ok s" and "\<not> rio_broken s" and "1 < maxlen" and "rio_stream s \<noteq> []"
  shows "\<exists>s'. rio_readlineb maxlen s =
             (int (line_count (takeline (maxlen - 1) (rio_stream s))),
              Some (takeline (maxlen - 1) (rio_stream s)), s') \<and>
           rio_ok s' \<and> \<not> rio_broken s' \<and>
           rio_stream s' = drop (length (takeline (maxlen - 1) (rio_stream s))) (rio_stream s)"
  using rio_readlineb_loop_line [OF assms(1,2), of 1 maxlen "[]"] assms(3,4)
  by (auto simp: rio_readlineb_def)

lemma rio_readlineb_eof:
  assumes "rio_ok s" and "\<not> rio_broken s" and "1 < maxlen" and "rio_stream s = []"
  shows "\<exists>s'. rio_readlineb maxlen s = (0, None, s') \<and> rio_ok s' \<and> \<not> rio_broken s' \<and>
           rio_stream s' = []"
  using rio_read_one(1) [OF assms(1,2,4)] assms(3)
  by (auto simp: rio_readlineb_def rio_readlineb_loop.simps)

lemma takeline_newline:
  "CHR 0x0A \<notin> set b \<Longrightarrow> length b < k \<Longrightarrow>
   takeline k (b @ CHR 0x0A # rest) = b @ [CHR 0x0A]"
  by (induction b arbitrary: k) (auto simp: gr0_conv_Suc Suc_less_eq2)

text \<open>
  C14. On a healthy descriptor \<open>rio_readlineb\<close> stores the next line of the stream, cut at
  \<open>maxlen - 1\<close> bytes, and consumes exactly that line. The count it returns is the length of
  the line when the line ends in a newline, and one more when it was cut short by the end of
  the file or by \<open>maxlen\<close>. At the end of the file it returns 0 and stores nothing.
\<close>

theorem rio_readlineb_line:
  assumes "rio_ok s" and "\<not> rio_broken s" and "1 < maxlen"
  shows "let l = takeline (maxlen - 1) (rio_stream s) in
         \<exists>s'. rio_readlineb maxlen s =
                (if rio_stream s = [] then (0, None, s') else (int (line_count l), Some l, s')) \<and>
              rio_ok s' \<and> \<not> rio_broken s' \<and> rio_stream s' = drop (length l) (rio_stream s)"
  using rio_readlineb_eof [OF assms] rio_readlineb_next [OF assms]
  by (cases "rio_stream s = []") (auto simp: Let_def)

theorem rio_readlineb_line_witness:
  "\<exists>s'. rio_readlineb 100
      (\<lparr>rio_fd = 4, rio_cnt = 0, rio_bufptr = 0, rio_buf = replicate 8192 CHR ''x''\<rparr>,
       [RdData ''ab'', RdIntr, RdData (''c'' @ [CHR 0x0A] @ ''d'')]) =
       (4, Some (''abc'' @ [CHR 0x0A]), s') \<and> rio_stream s' = ''d''"
  using rio_readlineb_line [of "(\<lparr>rio_fd = 4, rio_cnt = 0, rio_bufptr = 0,
      rio_buf = replicate 8192 CHR ''x''\<rparr>,
       [RdData ''ab'', RdIntr, RdData (''c'' @ [CHR 0x0A] @ ''d'')])" 100]
  by (simp add: rio_ok_def RIO_BUFSIZE_def rio_stream_def unread_def rio_broken_def
      line_count_def Let_def) blast

end
