(* ===== verification/FIFO_Queue.thy ===== *)
theory FIFO_Queue
  imports Prelude "HOL-Library.Sublist"
begin

text \<open>
  The request queue of the web server, \<^verbatim>\<open>FIFO_queue.c\<close>: a singly linked list of
  \<open>node_t\<close> objects between the globals \<open>head\<close> and \<open>tail\<close>.
\<close>

section \<open>State\<close>

record timeval =
  tv_sec :: int
  tv_usec :: int

record node_t =
  nxt :: ptr              \<comment> \<open>the field \<open>next\<close>\<close>
  fd :: ptr               \<comment> \<open>an \<open>int*\<close>\<close>
  arival_toto :: timeval

text \<open>
  \<open>closed\<close> logs the calls of \<open>close()\<close>, the only other effect of this file. The argument
  is a descriptor, or, in \<open>random_drop\<close>, the pointer \<open>tmp->fd\<close> itself: the \<open>int*\<close> is
  handed to the \<open>int\<close> parameter without being dereferenced.
\<close>

datatype close_arg = CloseFd int | ClosePtr ptr

record fifo =
  node_st :: "node_t store"
  int_st :: "int store"
  head :: ptr
  tail :: ptr
  closed :: "close_arg list"

definition init_fifo :: "nat \<Rightarrow> fifo" where
  "init_fifo l = \<lparr>node_st = empty_store l, int_st = empty_store l,
                  head = None, tail = None, closed = []\<rparr>"

section \<open>Operations\<close>

definition get_head_time :: "fifo \<Rightarrow> timeval res" where
  "get_head_time q = rbind (deref (node_st q) (head q)) (\<lambda>n. Inr (arival_toto n))"

definition enqueue :: "ptr \<Rightarrow> timeval \<Rightarrow> fifo \<Rightarrow> fifo res" where
  "enqueue request_fd arival_time q =
     rbind (malloc_init \<lparr>nxt = None, fd = request_fd, arival_toto = arival_time\<rparr> (node_st q))
       (\<lambda>(newnode, st).
         if head q = None then
           Inr (q\<lparr>node_st := st, head := Some newnode, tail := Some newnode\<rparr>)
         else if tail q = head q \<and> tail q \<noteq> None then
           rbind (assign st (head q) (\<lambda>n. n\<lparr>nxt := Some newnode\<rparr>))
             (\<lambda>st'. Inr (q\<lparr>node_st := st', tail := Some newnode\<rparr>))
         else
           rbind (assign st (tail q) (\<lambda>n. n\<lparr>nxt := Some newnode\<rparr>))
             (\<lambda>st'. Inr (q\<lparr>node_st := st', tail := Some newnode\<rparr>)))"

text \<open>
  The out-parameter \<open>time\<close> is the object the caller points to, \<^term>\<open>None\<close> for a null
  pointer; the result holds its new content.
\<close>

definition dequeue :: "timeval option \<Rightarrow> fifo \<Rightarrow> (ptr \<times> timeval option \<times> fifo) res" where
  "dequeue time q =
     (if head q = None then Inr (None, time, q)
      else
        rbind (deref (node_st q) (head q)) (\<lambda>h.
        rbind (deref (int_st q) (fd h)) (\<lambda>v.
        rbind (malloc_init v (int_st q)) (\<lambda>(result, ist).
        rbind (free_ptr (node_st q) (head q)) (\<lambda>nst.
          Inr (Some result, map_option (\<lambda>_. arival_toto h) time,
               q\<lparr>node_st := nst, int_st := ist, head := nxt h,
                 tail := (if nxt h = None then None else tail q)\<rparr>))))))"

definition drop_head :: "fifo \<Rightarrow> fifo res" where
  "drop_head q =
     rbind (deref (node_st q) (head q)) (\<lambda>h.
     rbind (free_ptr (int_st q) (fd h)) (\<lambda>ist.
     rbind (free_ptr (node_st q) (head q)) (\<lambda>nst.
       Inr (q\<lparr>node_st := nst, int_st := ist, head := nxt h\<rparr>))))"

text \<open>\<open>Randoms\<close> with the value of \<open>rand()\<close> as its first argument; \<open>%\<close> truncates.\<close>

definition Randoms :: "int \<Rightarrow> int \<Rightarrow> int \<Rightarrow> int res" where
  "Randoms r lower upper =
     (if upper - lower + 1 = 0 then Inl DivByZero
      else Inr (r smod (upper - lower + 1) + lower))"

text \<open>
  \<open>random_drop\<close>: the inner \<open>while\<close> (one unit of fuel per node visited), the body of the
  \<open>for\<close> loop (\<^term>\<open>None\<close> is its \<open>return 0\<close>), the loop over \<open>to_be_deleted\<close>
  iterations, and the function. The values of successive \<open>rand()\<close> calls are the
  sequence \<open>rnd\<close>.
\<close>

fun random_walk :: "nat \<Rightarrow> node_t store \<Rightarrow> int \<Rightarrow> ptr \<Rightarrow> ptr \<Rightarrow> (ptr \<times> ptr) res" where
  "random_walk 0 st node_to_delete tmp_preior tmp = Inl OutOfFuel"
| "random_walk (Suc fuel) st node_to_delete tmp_preior tmp =
     (if node_to_delete = 0 then Inr (tmp_preior, tmp)
      else
        rbind (deref st tmp) (\<lambda>t.
          if nxt t = None then Inr (tmp_preior, tmp)
          else
            rbind (deref st tmp_preior) (\<lambda>p.
              random_walk fuel st (node_to_delete - 1) (nxt p) (nxt t))))"

definition random_drop_step :: "int \<Rightarrow> int \<Rightarrow> fifo \<Rightarrow> fifo option res" where
  "random_drop_step r higher q =
     rbind (Randoms r 0 higher) (\<lambda>n.
     rbind (deref (node_st q) (head q)) (\<lambda>h.
       if nxt h = None then Inr None
       else
         rbind (random_walk (Suc (fresh (node_st q))) (node_st q) (n - 1) (head q) (nxt h))
           (\<lambda>(tmp_preior, tmp).
         rbind (deref (node_st q) tmp) (\<lambda>t.
         rbind (assign (node_st q) tmp_preior (\<lambda>p. p\<lparr>nxt := nxt t\<rparr>)) (\<lambda>st.
         rbind (free_ptr (int_st q) (fd t)) (\<lambda>ist.
         rbind (free_ptr st tmp) (\<lambda>st'.
           Inr (Some (q\<lparr>node_st := st', int_st := ist,
                        closed := closed q @ [ClosePtr (fd t)],
                        tail := (if tmp = tail q then tmp_preior else tail q)\<rparr>)))))))))"

fun random_drop_loop :: "(nat \<Rightarrow> int) \<Rightarrow> nat \<Rightarrow> nat \<Rightarrow> int \<Rightarrow> fifo \<Rightarrow> (int \<times> fifo) res" where
  "random_drop_loop rnd i 0 higher q = Inr (1, q)"
| "random_drop_loop rnd i (Suc k) higher q =
     rbind (random_drop_step (rnd i) higher q) (\<lambda>r.
       case r of None \<Rightarrow> Inr (0, q)
       | Some q' \<Rightarrow> random_drop_loop rnd (Suc i) k (higher - 1) q')"

definition to_be_deleted :: "int \<Rightarrow> int" where
  "to_be_deleted qmaxSize =
     (if qmaxSize smod 4 = 0 then qmaxSize sdiv 4 else 1 + qmaxSize sdiv 4)"

definition random_drop :: "(nat \<Rightarrow> int) \<Rightarrow> int \<Rightarrow> fifo \<Rightarrow> (int \<times> fifo) res" where
  "random_drop rnd qmaxSize q =
     (if head q = None then Inr (0, q)
      else random_drop_loop rnd 0 (nat (to_be_deleted qmaxSize)) qmaxSize q)"

section \<open>Representation of a queue in the heap\<close>

text \<open>
  A ghost entry is the address of a node, the address of its descriptor cell, the descriptor
  and the arrival time. \<open>qseg\<close> says that the entries are linked from \<open>p\<close> to \<open>r\<close>.
\<close>

type_synonym entry = "nat \<times> nat \<times> int \<times> timeval"

abbreviation nodes_of :: "entry list \<Rightarrow> nat list" where
  "nodes_of es \<equiv> map fst es"

abbreviation fds_of :: "entry list \<Rightarrow> nat list" where
  "fds_of es \<equiv> map (\<lambda>e. fst (snd e)) es"

abbreviation requests_of :: "entry list \<Rightarrow> (int \<times> timeval) list" where
  "requests_of es \<equiv> map (\<lambda>e. snd (snd e)) es"

fun qseg :: "node_t store \<Rightarrow> int store \<Rightarrow> ptr \<Rightarrow> entry list \<Rightarrow> ptr \<Rightarrow> bool" where
  "qseg nst ist p [] r = (p = r)"
| "qseg nst ist p ((a, f, v, t) # es) r =
     (p = Some a \<and> cells ist f = Some v \<and>
      (\<exists>p'. cells nst a = Some \<lparr>nxt = p', fd = Some f, arival_toto = t\<rparr> \<and>
            qseg nst ist p' es r))"

definition fifo_inv :: "fifo \<Rightarrow> entry list \<Rightarrow> bool" where
  "fifo_inv q es \<longleftrightarrow>
     qseg (node_st q) (int_st q) (head q) es None \<and>
     distinct (nodes_of es) \<and> distinct (fds_of es) \<and>
     (es \<noteq> [] \<longrightarrow> tail q = Some (fst (last es))) \<and>
     store_ok (node_st q) \<and> store_ok (int_st q)"

text \<open>The abstract queue: pairs of a descriptor and its arrival time, oldest first.\<close>

definition queue_rep :: "fifo \<Rightarrow> (int \<times> timeval) list \<Rightarrow> bool" where
  "queue_rep q xs \<longleftrightarrow> (\<exists>es. fifo_inv q es \<and> requests_of es = xs)"

text \<open>Room for \<open>n\<close> more allocations of either kind.\<close>

definition room :: "fifo \<Rightarrow> nat \<Rightarrow> bool" where
  "room q n \<longleftrightarrow> fresh (node_st q) + n \<le> limit (node_st q) \<and>
                fresh (int_st q) + n \<le> limit (int_st q)"

section \<open>The queue as its client uses it\<close>

text \<open>
  \<^verbatim>\<open>server.c\<close> stores the descriptor in a fresh \<open>int\<close> cell before it enqueues the cell, and
  reads the descriptor back through the cell that \<open>dequeue\<close> returns.
\<close>

definition submit :: "int \<times> timeval \<Rightarrow> fifo \<Rightarrow> fifo res" where
  "submit x q =
     rbind (malloc_init (fst x) (int_st q)) (\<lambda>(p, ist).
       enqueue (Some p) (snd x) (q\<lparr>int_st := ist\<rparr>))"

definition fetch :: "fifo \<Rightarrow> ((int \<times> timeval) option \<times> fifo) res" where
  "fetch q =
     rbind (dequeue (Some \<lparr>tv_sec = 0, tv_usec = 0\<rparr>) q) (\<lambda>(p, t, q').
       case p of None \<Rightarrow> Inr (None, q')
       | Some a \<Rightarrow> rbind (deref (int_st q') (Some a)) (\<lambda>v. Inr (map_option (Pair v) t, q')))"

text \<open>
  A batch of insertions, and an arbitrary sequence of calls, over any queue operations. The
  run of a sequence collects the answers of its \<open>Deq\<close> calls; \<open>Drop\<close> is \<open>drop_head\<close>.
\<close>

fun enq_all :: "('a \<Rightarrow> 'q \<Rightarrow> 'q res) \<Rightarrow> 'a list \<Rightarrow> 'q \<Rightarrow> 'q res" where
  "enq_all enq [] q = Inr q"
| "enq_all enq (x # xs) q = rbind (enq x q) (enq_all enq xs)"

datatype 'a queue_call = Enq 'a | Deq | Drop

fun run_calls :: "('a \<Rightarrow> 'q \<Rightarrow> 'q res) \<Rightarrow> ('q \<Rightarrow> ('a option \<times> 'q) res) \<Rightarrow> ('q \<Rightarrow> 'q res) \<Rightarrow>
    'a queue_call list \<Rightarrow> 'q \<Rightarrow> ('a option list \<times> 'q) res" where
  "run_calls enq deq drp [] q = Inr ([], q)"
| "run_calls enq deq drp (Enq x # cs) q = rbind (enq x q) (run_calls enq deq drp cs)"
| "run_calls enq deq drp (Deq # cs) q =
     rbind (deq q) (\<lambda>(r, q').
     rbind (run_calls enq deq drp cs q') (\<lambda>(rs, q''). Inr (r # rs, q'')))"
| "run_calls enq deq drp (Drop # cs) q = rbind (drp q) (run_calls enq deq drp cs)"

text \<open>
  The abstract queue is a list. A \<open>Deq\<close> of the empty list answers \<^term>\<open>None\<close>, a \<open>Drop\<close> of
  the empty list is the null dereference of \<open>drop_head\<close>.
\<close>

definition spec_enq :: "'a \<Rightarrow> 'a list \<Rightarrow> 'a list res" where
  "spec_enq x xs = Inr (xs @ [x])"

definition spec_deq :: "'a list \<Rightarrow> ('a option \<times> 'a list) res" where
  "spec_deq xs = Inr (case xs of [] \<Rightarrow> (None, []) | x # ys \<Rightarrow> (Some x, ys))"

definition spec_drop :: "'a list \<Rightarrow> 'a list res" where
  "spec_drop xs = (case xs of [] \<Rightarrow> Inl NullDeref | x # ys \<Rightarrow> Inr ys)"

lemma spec_enq_apply: "spec_enq x xs = Inr (xs @ [x])"
  and spec_drop_apply: "spec_drop [] = Inl NullDeref" "spec_drop (x # xs) = Inr xs"
  and spec_deq_apply: "spec_deq [] = Inr (None, [])" "spec_deq (x # xs) = Inr (Some x, xs)"
  by (simp_all add: spec_enq_def spec_drop_def spec_deq_def)

lemmas spec_queue_apply = spec_enq_apply spec_drop_apply spec_deq_apply

section \<open>Segments\<close>

lemma qseg_append [simp]:
  "qseg nst ist p (es @ es') r \<longleftrightarrow> (\<exists>m. qseg nst ist p es m \<and> qseg nst ist m es' r)"
  by (induction nst ist p es r rule: qseg.induct) auto

lemma qseg_nodes_allocated:
  "qseg nst ist p es r \<Longrightarrow> a \<in> set (nodes_of es) \<Longrightarrow> cells nst a \<noteq> None"
  by (induction nst ist p es r rule: qseg.induct) auto

lemma qseg_fds_allocated:
  "qseg nst ist p es r \<Longrightarrow> f \<in> set (fds_of es) \<Longrightarrow> cells ist f \<noteq> None"
  by (induction nst ist p es r rule: qseg.induct) auto

lemma qseg_node_frame [simp]:
  "a \<notin> set (nodes_of es) \<Longrightarrow>
   qseg (nst\<lparr>cells := m(a := x)\<rparr>) ist p es r \<longleftrightarrow> qseg (nst\<lparr>cells := m\<rparr>) ist p es r"
  by (induction nst ist p es r rule: qseg.induct) auto

lemma qseg_fd_frame [simp]:
  "f \<notin> set (fds_of es) \<Longrightarrow>
   qseg nst (ist\<lparr>cells := m(f := x)\<rparr>) p es r \<longleftrightarrow> qseg nst (ist\<lparr>cells := m\<rparr>) p es r"
  by (induction nst ist p es r rule: qseg.induct) auto

lemma qseg_cells_id [simp]:
  "qseg (nst\<lparr>cells := cells nst\<rparr>) ist p es r = qseg nst ist p es r"
  "qseg nst (ist\<lparr>cells := cells ist\<rparr>) p es r = qseg nst ist p es r"
  by simp_all

lemma qseg_fresh [simp]:
  "qseg (nst\<lparr>fresh := n\<rparr>) ist p es r \<longleftrightarrow> qseg nst ist p es r"
  "qseg nst (ist\<lparr>fresh := n\<rparr>) p es r \<longleftrightarrow> qseg nst ist p es r"
  by (induction nst ist p es r rule: qseg.induct) auto

section \<open>The operations on the representation\<close>

lemma fifo_inv_init: "fifo_inv (init_fifo l) []"
  by (simp add: fifo_inv_def init_fifo_def)

lemma fifo_inv_head_None: "fifo_inv q es \<Longrightarrow> head q = None \<longleftrightarrow> es = []"
  by (cases es) (auto simp: fifo_inv_def)

lemma enqueue_fifo_inv:
  assumes inv: "fifo_inv q es"
    and cell: "cells (int_st q) f = Some v" "f \<notin> set (fds_of es)"
    and mem: "fresh (node_st q) < limit (node_st q)"
  shows "\<exists>q' a. enqueue (Some f) t q = Inr q' \<and> fifo_inv q' (es @ [(a, f, v, t)]) \<and>
            int_st q' = int_st q \<and> closed q' = closed q \<and>
            fresh (node_st q') = Suc (fresh (node_st q)) \<and>
            limit (node_st q') = limit (node_st q)"
proof (cases es rule: rev_cases)
  case Nil
  with inv have "head q = None" by (simp add: fifo_inv_head_None)
  with inv Nil cell mem show ?thesis
    by (auto simp: enqueue_def store_simps fifo_inv_def intro: store_ok_intros)
next
  case (snoc es' e)
  obtain a' f' v' t' where e: "e = (a', f', v', t')" by (cases e)
  let ?n = "fresh (node_st q)"
  have ne: "head q \<noteq> None" using inv snoc by (simp add: fifo_inv_head_None)
  have tl: "tail q = Some a'" and node: "cells (node_st q) a' =
      Some \<lparr>nxt = None, fd = Some f', arival_toto = t'\<rparr>"
    and seg: "qseg (node_st q) (int_st q) (head q) es' (Some a')"
    using inv snoc e by (auto simp: fifo_inv_def)
  have new: "?n \<notin> set (nodes_of es)"
    using inv qseg_nodes_allocated [of "node_st q" "int_st q" "head q" es None ?n]
    by (auto simp: fifo_inv_def store_ok_fresh)
  then have "a' \<noteq> ?n" using snoc e by simp
  have hd: "tail q = head q \<Longrightarrow> head q = Some a'" using tl by simp
  define q' where "q' = q\<lparr>node_st := (node_st q)\<lparr>cells := (cells (node_st q))
      (?n \<mapsto> \<lparr>nxt = None, fd = Some f, arival_toto = t\<rparr>,
       a' \<mapsto> \<lparr>nxt = Some ?n, fd = Some f', arival_toto = t'\<rparr>), fresh := Suc ?n\<rparr>,
      tail := Some ?n\<rparr>"
  have run: "enqueue (Some f) t q = Inr q'"
    using ne tl node mem \<open>a' \<noteq> ?n\<close>
    by (auto simp: enqueue_def store_simps assign_def q'_def dest!: hd)
  have "fifo_inv q' (es @ [(?n, f, v, t)])"
    using inv snoc e new seg cell \<open>a' \<noteq> ?n\<close> node
    by (auto simp: fifo_inv_def q'_def store_ok_def less_Suc_eq)
  with run show ?thesis by (auto simp: q'_def)
qed

lemma dequeue_fifo_inv:
  assumes inv: "fifo_inv q ((a, f, v, t) # es)"
    and mem: "fresh (int_st q) < limit (int_st q)"
  shows "\<exists>q'. dequeue time q = Inr (Some (fresh (int_st q)), map_option (\<lambda>_. t) time, q') \<and>
            fifo_inv q' es \<and> closed q' = closed q \<and>
            node_st q' = (node_st q)\<lparr>cells := (cells (node_st q))(a := None)\<rparr> \<and>
            int_st q' = (int_st q)\<lparr>cells := (cells (int_st q))(fresh (int_st q) \<mapsto> v),
                                    fresh := Suc (fresh (int_st q))\<rparr>"
proof -
  let ?m = "fresh (int_st q)"
  obtain p' where node: "head q = Some a"
      "cells (node_st q) a = Some \<lparr>nxt = p', fd = Some f, arival_toto = t\<rparr>"
      "cells (int_st q) f = Some v"
      and seg: "qseg (node_st q) (int_st q) p' es None"
    using inv by (auto simp: fifo_inv_def)
  have new: "?m \<notin> set (fds_of es)"
    using seg inv qseg_fds_allocated [OF seg, of ?m] by (auto simp: fifo_inv_def store_ok_fresh)
  have "p' = None \<longleftrightarrow> es = []" using seg by (cases es) auto
  with inv node seg mem new show ?thesis
    by (auto simp: dequeue_def store_simps fifo_inv_def intro: store_ok_intros)
qed

lemma dequeue_empty: "fifo_inv q [] \<Longrightarrow> dequeue time q = Inr (None, time, q)"
  by (auto simp: dequeue_def fifo_inv_def)

lemma drop_head_fifo_inv:
  assumes inv: "fifo_inv q ((a, f, v, t) # es)"
  shows "\<exists>q'. drop_head q = Inr q' \<and> fifo_inv q' es \<and> closed q' = closed q \<and>
            fresh (node_st q') = fresh (node_st q) \<and> limit (node_st q') = limit (node_st q) \<and>
            fresh (int_st q') = fresh (int_st q) \<and> limit (int_st q') = limit (int_st q)"
  using inv by (auto simp: drop_head_def store_simps fifo_inv_def intro: store_ok_intros)

section \<open>The queue contract\<close>

text \<open>
  What a client may rely on: insertion at the back, removal at the front, an empty queue
  answers with nothing; no operation spends more than one unit of memory. The behaviour of
  every sequence of calls follows from it.
\<close>

locale fifo_contract =
  fixes rep :: "'q \<Rightarrow> 'a list \<Rightarrow> bool"
    and space :: "'q \<Rightarrow> nat \<Rightarrow> bool"
    and enq :: "'a \<Rightarrow> 'q \<Rightarrow> 'q res"
    and deq :: "'q \<Rightarrow> ('a option \<times> 'q) res"
    and drp :: "'q \<Rightarrow> 'q res"
  assumes enq_back: "rep q xs \<Longrightarrow> space q (Suc n) \<Longrightarrow>
            \<exists>q'. enq x q = Inr q' \<and> rep q' (xs @ [x]) \<and> space q' n"
    and deq_front: "rep q (x # xs) \<Longrightarrow> space q (Suc n) \<Longrightarrow>
            \<exists>q'. deq q = Inr (Some x, q') \<and> rep q' xs \<and> space q' n"
    and deq_nothing: "rep q [] \<Longrightarrow> deq q = Inr (None, q)"
    and drop_front: "rep q (x # xs) \<Longrightarrow> space q (Suc n) \<Longrightarrow>
            \<exists>q'. drp q = Inr q' \<and> rep q' xs \<and> space q' n"
    and drop_nothing: "rep q [] \<Longrightarrow> drp q = Inl NullDeref"
    and space_less: "space q (Suc n) \<Longrightarrow> space q n"
begin

lemma enq_all_appends:
  "rep q xs \<Longrightarrow> space q (length ys + n) \<Longrightarrow>
   \<exists>q'. enq_all enq ys q = Inr q' \<and> rep q' (xs @ ys) \<and> space q' n"
proof (induction ys arbitrary: q xs)
  case (Cons y ys)
  then obtain q1 where "enq y q = Inr q1" "rep q1 (xs @ [y])" "space q1 (length ys + n)"
    using enq_back [of q xs "length ys + n" y] by auto
  with Cons.IH [of q1 "xs @ [y]"] show ?case by simp
qed simp

lemma deq_any:
  assumes "rep q xs" and "space q (Suc n)"
  shows "\<exists>r ys q'. spec_deq xs = Inr (r, ys) \<and> deq q = Inr (r, q') \<and> rep q' ys \<and> space q' n"
  using assms deq_nothing [of q] deq_front [of q "hd xs" "tl xs" n] space_less [of q n]
  by (cases xs) (auto simp: spec_deq_apply)

lemma calls_refine:
  "rep q xs \<Longrightarrow> space q (length cs) \<Longrightarrow>
   (case run_calls spec_enq spec_deq spec_drop cs xs of
      Inl e \<Rightarrow> run_calls enq deq drp cs q = Inl e
    | Inr (rs, ys) \<Rightarrow> \<exists>q'. run_calls enq deq drp cs q = Inr (rs, q') \<and> rep q' ys)"
proof (induction cs arbitrary: q xs)
  case (Cons c cs)
  show ?case
  proof (cases c)
    case (Enq x)
    obtain q1 where "enq x q = Inr q1" "rep q1 (xs @ [x])" "space q1 (length cs)"
      using enq_back [of q xs "length cs" x] Cons.prems by auto
    with Cons.IH [of q1 "xs @ [x]"] show ?thesis
      by (auto simp: Enq spec_enq_apply split: sum.splits)
  next
    case Deq
    obtain r ys q1 where "spec_deq xs = Inr (r, ys)" "deq q = Inr (r, q1)" "rep q1 ys"
        "space q1 (length cs)"
      using deq_any [of q xs "length cs"] Cons.prems by auto
    with Cons.IH [of q1 ys] show ?thesis
      by (auto simp: Deq split: sum.splits prod.splits)
  next
    case Drop
    show ?thesis
    proof (cases xs)
      case Nil
      with drop_nothing [of q] Cons.prems show ?thesis by (simp add: Drop spec_drop_apply)
    next
      case (Cons x ys)
      obtain q1 where "drp q = Inr q1" "rep q1 ys" "space q1 (length cs)"
        using drop_front [of q x ys "length cs"] Cons.prems \<open>xs = x # ys\<close> by auto
      with Cons.IH [of q1 ys] show ?thesis
        by (auto simp: Drop Cons spec_drop_apply split: sum.splits)
    qed
  qed
qed simp

end

lemma submit_rep:
  assumes "queue_rep q xs" and "room q (Suc n)"
  shows "\<exists>q'. submit x q = Inr q' \<and> queue_rep q' (xs @ [x]) \<and> room q' n"
proof -
  obtain es where inv: "fifo_inv q es" and xs: "requests_of es = xs"
    using assms(1) by (auto simp: queue_rep_def)
  let ?f = "fresh (int_st q)"
  let ?ist = "(int_st q)\<lparr>cells := (cells (int_st q))(?f \<mapsto> fst x), fresh := Suc ?f\<rparr>"
  have new: "?f \<notin> set (fds_of es)"
    using inv qseg_fds_allocated [of "node_st q" "int_st q" "head q" es None ?f]
    by (auto simp: fifo_inv_def store_ok_fresh)
  then have "fifo_inv (q\<lparr>int_st := ?ist\<rparr>) es"
    using inv by (auto simp: fifo_inv_def intro: store_ok_intros)
  then obtain q' a where "enqueue (Some ?f) (snd x) (q\<lparr>int_st := ?ist\<rparr>) = Inr q'"
      "fifo_inv q' (es @ [(a, ?f, fst x, snd x)])" "int_st q' = ?ist"
      "fresh (node_st q') = Suc (fresh (node_st q))" "limit (node_st q') = limit (node_st q)"
    using enqueue_fifo_inv [of "q\<lparr>int_st := ?ist\<rparr>" es ?f "fst x" "snd x"] new assms(2)
    by (auto simp: room_def)
  then show ?thesis
    using assms(2) xs by (force simp: submit_def store_simps queue_rep_def room_def)
qed

lemma fetch_rep:
  assumes "queue_rep q (x # xs)" and "room q (Suc n)"
  shows "\<exists>q'. fetch q = Inr (Some x, q') \<and> queue_rep q' xs \<and> room q' n"
proof -
  obtain a f v t es where inv: "fifo_inv q ((a, f, v, t) # es)"
    and x: "x = (v, t)" "requests_of es = xs"
    using assms(1) by (auto simp: queue_rep_def Cons_eq_map_conv)
  then show ?thesis
    using dequeue_fifo_inv [OF inv, of "Some \<lparr>tv_sec = 0, tv_usec = 0\<rparr>"] assms(2)
    by (auto simp: fetch_def room_def queue_rep_def store_simps)
qed

lemma fetch_empty: "queue_rep q [] \<Longrightarrow> fetch q = Inr (None, q)"
  by (auto simp: queue_rep_def fetch_def dequeue_empty)

lemma drop_head_rep:
  assumes "queue_rep q (x # xs)" and "room q (Suc n)"
  shows "\<exists>q'. drop_head q = Inr q' \<and> queue_rep q' xs \<and> room q' n"
proof -
  obtain a f v t es where inv: "fifo_inv q ((a, f, v, t) # es)" and "requests_of es = xs"
    using assms(1) by (auto simp: queue_rep_def Cons_eq_map_conv)
  with drop_head_fifo_inv [OF inv] assms(2) show ?thesis
    by (auto simp: queue_rep_def room_def)
qed

lemma drop_head_empty: "queue_rep q [] \<Longrightarrow> drop_head q = Inl NullDeref"
  by (auto simp: queue_rep_def drop_head_def fifo_inv_def store_simps)

lemma room_less: "room q (Suc n) \<Longrightarrow> room q n"
  by (simp add: room_def)

interpretation fq: fifo_contract queue_rep room submit fetch drop_head
  by unfold_locales
    (simp_all add: submit_rep fetch_rep fetch_empty drop_head_rep drop_head_empty room_less)

lemma queue_rep_init: "queue_rep (init_fifo l) []"
  by (auto simp: queue_rep_def fifo_inv_init)

lemma room_init: "n \<le> l \<Longrightarrow> room (init_fifo l) n"
  by (simp add: room_def init_fifo_def empty_store_def)

text \<open>
  C5. The linked list is a first-in first-out queue under every sequence of calls: however
  \<open>enqueue\<close>, \<open>dequeue\<close> and \<open>drop_head\<close> are interleaved, each \<open>dequeue\<close> answers what a plain
  list of requests would answer (the oldest waiting descriptor with its arrival time, or
  nothing when none waits), the list in memory stays well formed (\<open>head\<close>, links and
  \<open>tail\<close>) and holds the requests still waiting; the only fault is the null dereference of
  \<open>drop_head\<close> on an empty queue. Memory for one allocation of each kind per call is assumed.
\<close>

theorem requests_served_in_order:
  assumes "queue_rep q xs" and "room q (length cs)"
  shows "case run_calls spec_enq spec_deq spec_drop cs xs of
           Inl e \<Rightarrow> run_calls submit fetch drop_head cs q = Inl e
         | Inr (rs, ys) \<Rightarrow>
             \<exists>q'. run_calls submit fetch drop_head cs q = Inr (rs, q') \<and> queue_rep q' ys"
  using assms by (rule fq.calls_refine)

theorem requests_served_in_order_witness:
  "\<exists>q'. run_calls submit fetch drop_head
          [Enq (7, \<lparr>tv_sec = 1, tv_usec = 0\<rparr>), Enq (9, \<lparr>tv_sec = 2, tv_usec = 0\<rparr>), Deq,
           Enq (5, \<lparr>tv_sec = 3, tv_usec = 0\<rparr>), Deq, Drop, Deq,
           Enq (6, \<lparr>tv_sec = 4, tv_usec = 0\<rparr>)] (init_fifo 8) =
        Inr ([Some (7, \<lparr>tv_sec = 1, tv_usec = 0\<rparr>), Some (9, \<lparr>tv_sec = 2, tv_usec = 0\<rparr>), None], q') \<and>
     queue_rep q' [(6, \<lparr>tv_sec = 4, tv_usec = 0\<rparr>)]"
  using requests_served_in_order [OF queue_rep_init,
      of 8 "[Enq (7, \<lparr>tv_sec = 1, tv_usec = 0\<rparr>), Enq (9, \<lparr>tv_sec = 2, tv_usec = 0\<rparr>), Deq,
           Enq (5, \<lparr>tv_sec = 3, tv_usec = 0\<rparr>), Deq, Drop, Deq,
           Enq (6, \<lparr>tv_sec = 4, tv_usec = 0\<rparr>)]"]
  by (simp add: room_init spec_queue_apply)

section \<open>Dropping a quarter of the queue\<close>

lemma fifo_inv_length:
  assumes "fifo_inv q es"
  shows "length es \<le> fresh (node_st q)"
proof -
  have "set (nodes_of es) \<subseteq> {..<fresh (node_st q)}"
    using assms qseg_nodes_allocated [of "node_st q" "int_st q" "head q" es None]
    by (fastforce simp: fifo_inv_def store_ok_def)
  then have "card (set (nodes_of es)) \<le> fresh (node_st q)"
    using card_mono [of "{..<fresh (node_st q)}"] by fastforce
  moreover have "card (set (nodes_of es)) = length es"
    using assms distinct_card [of "nodes_of es"] by (simp add: fifo_inv_def)
  ultimately show ?thesis by simp
qed

text \<open>The inner loop stops on two neighbours, and the second is never the head.\<close>

lemma random_walk_neighbours:
  assumes "qseg nst ist (Some (fst e1)) (e1 # e2 # post) None" and "length post < fuel"
  shows "\<exists>pre x y post'. e1 # e2 # post = pre @ x # y # post' \<and>
           random_walk fuel nst k (Some (fst e1)) (Some (fst e2)) = Inr (Some (fst x), Some (fst y))"
  using assms
proof (induction post arbitrary: e1 e2 fuel k)
  case Nil
  then show ?case
    by (cases fuel; cases e1; cases e2) (force simp: store_simps)+
next
  case (Cons e3 post)
  obtain fl where fl: "fuel = Suc fl" using Cons.prems by (cases fuel) auto
  obtain a1 f1 v1 t1 a2 f2 v2 t2 a3 f3 v3 t3
    where e: "e1 = (a1, f1, v1, t1)" "e2 = (a2, f2, v2, t2)" "e3 = (a3, f3, v3, t3)"
    by (metis prod_cases4)
  show ?case
  proof (cases "k = 0")
    case True
    then have "e1 # e2 # e3 # post = [] @ e1 # e2 # (e3 # post) \<and>
        random_walk fuel nst k (Some (fst e1)) (Some (fst e2)) = Inr (Some (fst e1), Some (fst e2))"
      using fl by simp
    then show ?thesis by blast
  next
    case False
    have "\<exists>pre x y post'. e2 # e3 # post = pre @ x # y # post' \<and>
       random_walk fl nst (k - 1) (Some (fst e2)) (Some (fst e3)) = Inr (Some (fst x), Some (fst y))"
      using Cons.prems fl e by (intro Cons.IH) auto
    then obtain pre x y post' where ih: "e2 # e3 # post = pre @ x # y # post'"
      "random_walk fl nst (k - 1) (Some (fst e2)) (Some (fst e3)) = Inr (Some (fst x), Some (fst y))"
      by blast
    moreover have "random_walk fuel nst k (Some (fst e1)) (Some (fst e2)) =
        random_walk fl nst (k - 1) (Some (fst e2)) (Some (fst e3))"
      using Cons.prems e fl False by (auto simp: store_simps)
    ultimately have "e1 # e2 # e3 # post = (e1 # pre) @ x # y # post' \<and>
        random_walk fuel nst k (Some (fst e1)) (Some (fst e2)) = Inr (Some (fst x), Some (fst y))"
      by simp
    then show ?thesis by blast
  qed
qed

lemma random_drop_step_single:
  "fifo_inv q [e] \<Longrightarrow> 0 \<le> higher \<Longrightarrow> random_drop_step r higher q = Inr None"
  by (cases e) (auto simp: random_drop_step_def Randoms_def fifo_inv_def store_simps)

lemma fifo_inv_unlink:
  assumes inv: "fifo_inv q (pre @ (ax, fx, vx, tx) # (ay, fy, vy, ty) # post)"
    and y: "cells (node_st q) ay = Some \<lparr>nxt = p', fd = Some fy, arival_toto = ty\<rparr>"
  shows "fifo_inv (q\<lparr>node_st := (node_st q)\<lparr>cells := (cells (node_st q))
             (ax \<mapsto> \<lparr>nxt = p', fd = Some fx, arival_toto = tx\<rparr>, ay := None)\<rparr>,
           int_st := (int_st q)\<lparr>cells := (cells (int_st q))(fy := None)\<rparr>,
           closed := cl, tail := (if Some ay = tail q then Some ax else tail q)\<rparr>)
         (pre @ (ax, fx, vx, tx) # post)" (is "fifo_inv ?q' ?es'")
proof -
  have x: "cells (node_st q) ax \<noteq> None" and vx: "cells (int_st q) fx = Some vx"
    and pre: "qseg (node_st q) (int_st q) (head q) pre (Some ax)"
    and post: "qseg (node_st q) (int_st q) p' post None"
    and dist: "distinct (nodes_of (pre @ (ax, fx, vx, tx) # (ay, fy, vy, ty) # post))"
      "distinct (fds_of (pre @ (ax, fx, vx, tx) # (ay, fy, vy, ty) # post))"
    and tl: "tail q = Some (fst (last ((ay, fy, vy, ty) # post)))"
    using inv y by (auto simp: fifo_inv_def)
  have "post \<noteq> [] \<Longrightarrow> fst (last post) \<noteq> ay" using dist by auto
  then have "tail ?q' = Some (fst (last ?es'))" using tl by auto
  moreover have "qseg (node_st ?q') (int_st ?q') (head ?q') ?es' None"
    using pre post dist vx by auto
  moreover have "store_ok (node_st ?q')" "store_ok (int_st ?q')"
    using inv x by (auto simp: fifo_inv_def store_ok_def)
  moreover have "distinct (nodes_of ?es')" "distinct (fds_of ?es')" using dist by auto
  ultimately show ?thesis unfolding fifo_inv_def by blast
qed

lemma random_drop_step_many:
  assumes inv: "fifo_inv q es" and len: "2 \<le> length es" and hi: "0 \<le> higher"
  shows "\<exists>q' pre x y post. es = pre @ x # y # post \<and>
           random_drop_step r higher q = Inr (Some q') \<and> fifo_inv q' (pre @ x # post) \<and>
           closed q' = closed q @ [ClosePtr (Some (fst (snd y)))] \<and>
           fresh (node_st q') = fresh (node_st q) \<and> int_st q' =
             (int_st q)\<lparr>cells := (cells (int_st q))(fst (snd y) := None)\<rparr>"
proof -
  obtain e1 e2 rest where es: "es = e1 # e2 # rest"
    using len by (metis Suc_le_length_iff numeral_2_eq_2)
  obtain n where n: "Randoms r 0 higher = Inr n" using hi by (auto simp: Randoms_def)
  obtain a1 f1 v1 t1 where e1: "e1 = (a1, f1, v1, t1)" by (cases e1)
  have seg: "qseg (node_st q) (int_st q) (Some (fst e1)) (e1 # e2 # rest) None"
    and hd: "head q = Some (fst e1)"
    using inv es e1 by (auto simp: fifo_inv_def)
  have fuel: "length rest < Suc (fresh (node_st q))"
    using fifo_inv_length [OF inv] es by simp
  obtain pre x y post where split: "e1 # e2 # rest = pre @ x # y # post"
    and walk: "random_walk (Suc (fresh (node_st q))) (node_st q) (n - 1) (Some (fst e1)) (Some (fst e2))
       = Inr (Some (fst x), Some (fst y))"
    using random_walk_neighbours [OF seg fuel] by metis
  obtain ax fx vx tx ay fy vy ty where xy: "x = (ax, fx, vx, tx)" "y = (ay, fy, vy, ty)"
    by (metis prod_cases4)
  have h: "cells (node_st q) a1 = Some \<lparr>nxt = Some (fst e2), fd = Some f1, arival_toto = t1\<rparr>"
    using seg e1 by (cases e2) auto
  obtain p' where y: "cells (node_st q) ay = Some \<lparr>nxt = p', fd = Some fy, arival_toto = ty\<rparr>"
    and x: "cells (node_st q) ax = Some \<lparr>nxt = Some ay, fd = Some fx, arival_toto = tx\<rparr>"
    and vy: "cells (int_st q) fy = Some vy"
    using seg xy hd unfolding split by auto
  define q' where "q' = q\<lparr>node_st := (node_st q)\<lparr>cells := (cells (node_st q))
        (ax \<mapsto> \<lparr>nxt = p', fd = Some fx, arival_toto = tx\<rparr>, ay := None)\<rparr>,
      int_st := (int_st q)\<lparr>cells := (cells (int_st q))(fy := None)\<rparr>,
      closed := closed q @ [ClosePtr (Some fy)],
      tail := (if Some ay = tail q then Some ax else tail q)\<rparr>"
  have dist: "distinct (nodes_of (pre @ x # y # post))" "distinct (fds_of (pre @ x # y # post))"
    using inv es split by (auto simp: fifo_inv_def)
  have run: "random_drop_step r higher q = Inr (Some q')"
    using n hd e1 h walk y x vy dist xy
    by (auto simp: random_drop_step_def store_simps q'_def assign_def free_ptr_def)
  have inv': "fifo_inv q' (pre @ x # post)"
    using fifo_inv_unlink [of q pre ax fx vx tx ay fy vy ty post] inv y es split xy by (simp add: q'_def)
  have "closed q' = closed q @ [ClosePtr (Some (fst (snd y)))]"
    "fresh (node_st q') = fresh (node_st q)"
    "int_st q' = (int_st q)\<lparr>cells := (cells (int_st q))(fst (snd y) := None)\<rparr>"
    using xy by (simp_all add: q'_def)
  with run inv' split es show ?thesis by blast
qed

lemma random_drop_loop_inv:
  assumes "fifo_inv q es" and "k < length es" and "int k \<le> higher"
  shows "\<exists>q' es'. random_drop_loop rnd i k higher q = Inr (1, q') \<and> fifo_inv q' es' \<and>
           subseq es' es \<and> hd es' = hd es \<and> length es' = length es - k \<and>
           (\<exists>ps. closed q' = closed q @ map ClosePtr ps)"
  using assms
proof (induction k arbitrary: i higher q es)
  case 0
  have "closed q = closed q @ map ClosePtr []" by simp
  with 0 show ?case by (metis diff_zero random_drop_loop.simps(1) subseq_order.order_refl)
next
  case (Suc k)
  have "2 \<le> length es" "0 \<le> higher" using Suc.prems by auto
  with Suc.prems obtain q1 pre x y post where es: "es = pre @ x # y # post"
    and step: "random_drop_step (rnd i) higher q = Inr (Some q1)"
    and inv1: "fifo_inv q1 (pre @ x # post)"
    and cl1: "closed q1 = closed q @ [ClosePtr (Some (fst (snd y)))]"
    using random_drop_step_many [of q es higher "rnd i"] by blast
  have "k < length (pre @ x # post)" "int k \<le> higher - 1" using Suc.prems es by auto
  from Suc.IH [OF inv1 this, of "Suc i"] obtain q' es' ps
    where ih: "random_drop_loop rnd (Suc i) k (higher - 1) q1 = Inr (1, q')" "fifo_inv q' es'"
      "subseq es' (pre @ x # post)" "hd es' = hd (pre @ x # post)"
      "length es' = length (pre @ x # post) - k" "closed q' = closed q1 @ map ClosePtr ps"
    by blast
  have "subseq (pre @ x # post) es"
    unfolding es by (intro list_emb_append_mono subseq_Cons2 list_emb_Cons) simp_all
  then have "subseq es' es" using ih(3) by (rule subseq_order.order_trans [rotated])
  moreover have "hd es' = hd es" using ih(4) es by (cases pre) auto
  moreover have "closed q' = closed q @ map ClosePtr (Some (fst (snd y)) # ps)"
    using ih(6) cl1 by simp
  moreover have "length es' = length es - Suc k" using ih(5) es by simp
  moreover have "random_drop_loop rnd i (Suc k) higher q = Inr (1, q')"
    using step ih(1) by simp
  ultimately show ?case using ih(2) by blast
qed

lemma to_be_deleted_ceiling: "0 \<le> n \<Longrightarrow> to_be_deleted n = (n + 3) div 4"
  by (simp add: to_be_deleted_def signed_modulo_int_def signed_divide_int_def sgn_if) presburger

lemma random_drop_shortens:
  assumes "queue_rep q xs" and "2 \<le> length xs"
  shows "\<exists>q' ys. random_drop rnd (int (length xs)) q = Inr (1, q') \<and> queue_rep q' ys \<and>
           subseq ys xs \<and> hd ys = hd xs \<and> length ys = 3 * length xs div 4"
proof -
  obtain es where inv: "fifo_inv q es" and xs: "xs = requests_of es"
    using assms(1) by (auto simp: queue_rep_def)
  let ?k = "nat (to_be_deleted (int (length xs)))"
  have k: "?k = (length xs + 3) div 4" by (simp add: to_be_deleted_ceiling)
  have "?k < length es" "int ?k \<le> int (length xs)" using assms(2) k xs by auto
  then obtain q' es' where run: "random_drop_loop rnd 0 ?k (int (length xs)) q = Inr (1, q')"
    and inv': "fifo_inv q' es'" and sub: "subseq es' es" and hd: "hd es' = hd es"
    and len: "length es' = length es - ?k"
    using random_drop_loop_inv [OF inv, of ?k "int (length xs)" rnd 0] by blast
  have "head q \<noteq> None" "es \<noteq> []" "es' \<noteq> []"
    using fifo_inv_head_None [OF inv] assms(2) xs len k by auto
  moreover have "subseq (requests_of es') xs" using sub xs by (simp add: subseq_map)
  moreover have "length es' = 3 * length xs div 4"
    using len k xs by simp
  ultimately have "random_drop rnd (int (length xs)) q = Inr (1, q') \<and>
      queue_rep q' (requests_of es') \<and> subseq (requests_of es') xs \<and>
      hd (requests_of es') = hd xs \<and> length (requests_of es') = 3 * length xs div 4"
    using run inv' hd xs by (auto simp: random_drop_def queue_rep_def hd_map)
  then show ?thesis by blast
qed

text \<open>
  C15. Under overload the policy \<open>random\<close> drops requests from a queue of \<open>n \<ge> 2\<close>
  requests: whatever \<open>rand()\<close> returns, \<open>random_drop\<close> ends without a fault, keeps the
  oldest request, removes exactly a quarter (rounded up) and leaves the others in their order.
\<close>

theorem random_drop_quarter:
  assumes "queue_rep q xs" and "2 \<le> length xs"
  shows "\<exists>q' ys. random_drop rnd (int (length xs)) q = Inr (1, q') \<and> queue_rep q' ys \<and>
           subseq ys xs \<and> hd ys = hd xs \<and> length ys = 3 * length xs div 4"
  using assms by (rule random_drop_shortens)

theorem random_drop_quarter_witness:
  "\<exists>q q' ys. enq_all submit (replicate 5 (7, \<lparr>tv_sec = 1, tv_usec = 0\<rparr>)) (init_fifo 5) = Inr q \<and>
     random_drop (\<lambda>_. 3) 5 q = Inr (1, q') \<and> queue_rep q' ys \<and> length ys = 3"
proof -
  let ?xs = "replicate 5 (7, \<lparr>tv_sec = 1, tv_usec = 0\<rparr>) :: (int \<times> timeval) list"
  obtain q where q: "enq_all submit ?xs (init_fifo 5) = Inr q" "queue_rep q ?xs"
    using fq.enq_all_appends [OF queue_rep_init, of 5 ?xs 0] by (auto simp: room_init)
  from random_drop_quarter [OF q(2), of "\<lambda>_. 3"] q(1) show ?thesis by auto
qed

text \<open>
  A queue that holds a single request is not shortened by \<open>random_drop\<close>: the function
  returns 0 and the state is unchanged.
\<close>

theorem random_drop_single:
  assumes "queue_rep q [x]"
  shows "random_drop rnd 1 q = Inr (0, q)"
proof -
  obtain e where inv: "fifo_inv q [e]"
    using assms by (auto simp: queue_rep_def)
  then have "head q \<noteq> None" by (simp add: fifo_inv_head_None)
  moreover have "nat (to_be_deleted 1) = Suc 0" by (simp add: to_be_deleted_ceiling)
  ultimately show ?thesis
    using random_drop_step_single [OF inv, of 1] by (simp add: random_drop_def)
qed

theorem random_drop_single_witness:
  "\<exists>q. submit (7, \<lparr>tv_sec = 1, tv_usec = 0\<rparr>) (init_fifo 1) = Inr q \<and>
       random_drop (\<lambda>_. 5) 1 q = Inr (0, q)"
proof -
  obtain q where q: "submit (7, \<lparr>tv_sec = 1, tv_usec = 0\<rparr>) (init_fifo 1) = Inr q"
      "queue_rep q [(7, \<lparr>tv_sec = 1, tv_usec = 0\<rparr>)]"
    using submit_rep [OF queue_rep_init, of 1 0] by (auto simp: room_init)
  with random_drop_single [OF q(2)] show ?thesis by blast
qed

section \<open>Resources that are lost\<close>

text \<open>
  \<open>dequeue\<close> copies the descriptor into a new cell and frees the node, but not the
  cell the node pointed to: that cell stays allocated although no queue entry refers to it.
\<close>

theorem dequeue_leaks_cell:
  assumes inv: "fifo_inv q ((a, f, v, t) # es)"
    and mem: "fresh (int_st q) < limit (int_st q)"
  shows "\<exists>r q'. dequeue time q = Inr (Some r, map_option (\<lambda>_. t) time, q') \<and> r \<noteq> f \<and>
           cells (int_st q') r = Some v \<and> cells (int_st q') f = Some v \<and>
           fifo_inv q' es \<and> f \<notin> set (fds_of es)"
proof -
  have "f < fresh (int_st q)" "cells (int_st q) f = Some v" "f \<notin> set (fds_of es)"
    using inv by (auto simp: fifo_inv_def store_ok_def)
  with dequeue_fifo_inv [OF inv mem, of time] show ?thesis by auto
qed

theorem dequeue_leaks_cell_witness:
  "\<exists>q es a f q' r. submit (7, \<lparr>tv_sec = 1, tv_usec = 0\<rparr>) (init_fifo 2) = Inr q \<and>
     dequeue None q = Inr (Some r, None, q') \<and> r \<noteq> f \<and>
     fifo_inv q ((a, f, 7, \<lparr>tv_sec = 1, tv_usec = 0\<rparr>) # es) \<and> cells (int_st q') f = Some 7"
proof -
  obtain q where q: "submit (7, \<lparr>tv_sec = 1, tv_usec = 0\<rparr>) (init_fifo 2) = Inr q"
      "queue_rep q [(7, \<lparr>tv_sec = 1, tv_usec = 0\<rparr>)]" "room q 1"
    using submit_rep [OF queue_rep_init, of 2 1] by (auto simp: room_init)
  then obtain a f es where inv: "fifo_inv q ((a, f, 7, \<lparr>tv_sec = 1, tv_usec = 0\<rparr>) # es)"
    by (auto simp: queue_rep_def Cons_eq_map_conv)
  have "fresh (int_st q) < limit (int_st q)" using q(3) by (simp add: room_def)
  from dequeue_leaks_cell [OF inv this, of None] obtain r q' where
    "dequeue None q = Inr (Some r, None, q')" "r \<noteq> f" "cells (int_st q') f = Some 7"
    by auto
  with q(1) inv show ?thesis by blast
qed

text \<open>
  No dropped connection is closed by \<open>random_drop\<close>: every \<open>close()\<close> it makes
  receives a pointer in place of a descriptor.
\<close>

theorem random_drop_closes_pointers:
  assumes "queue_rep q xs" and "2 \<le> length xs"
    and "random_drop rnd (int (length xs)) q = Inr (r, q')"
  shows "\<exists>ps. closed q' = closed q @ map ClosePtr ps"
proof -
  obtain es where inv: "fifo_inv q es" and xs: "length xs = length es"
    using assms(1) by (auto simp: queue_rep_def)
  let ?k = "nat (to_be_deleted (int (length xs)))"
  have "?k = (length xs + 3) div 4" by (simp add: to_be_deleted_ceiling)
  then have "?k < length es" "int ?k \<le> int (length xs)" using assms(2) xs by auto
  from random_drop_loop_inv [OF inv this, of rnd 0] assms fifo_inv_head_None [OF inv] xs
  show ?thesis by (auto simp: random_drop_def)
qed

theorem random_drop_closes_pointers_witness:
  "\<exists>q q' ps. enq_all submit (replicate 2 (7, \<lparr>tv_sec = 1, tv_usec = 0\<rparr>)) (init_fifo 2) = Inr q \<and>
     random_drop (\<lambda>_. 0) 2 q = Inr (1, q') \<and> closed q' = closed q @ map ClosePtr ps"
proof -
  let ?xs = "replicate 2 (7, \<lparr>tv_sec = 1, tv_usec = 0\<rparr>) :: (int \<times> timeval) list"
  obtain q where q: "enq_all submit ?xs (init_fifo 2) = Inr q" "queue_rep q ?xs"
    using fq.enq_all_appends [OF queue_rep_init, of 2 ?xs 0] by (auto simp: room_init)
  obtain es where inv: "fifo_inv q es" "requests_of es = ?xs"
    using q(2) by (auto simp: queue_rep_def)
  have len: "length es = 2" using arg_cong [OF inv(2), of length] by simp
  then have "Suc 0 < length es" "int (Suc 0) \<le> (2 :: int)" by simp_all
  from random_drop_loop_inv [OF inv(1) this, of "\<lambda>_. 0" 0] obtain q'
    where "random_drop_loop (\<lambda>_. 0) 0 (Suc 0) 2 q = Inr (1, q')" by blast
  then have run: "random_drop (\<lambda>_. 0) 2 q = Inr (1, q')"
    using fifo_inv_head_None [OF inv(1)] len by (auto simp: random_drop_def to_be_deleted_ceiling)
  from random_drop_closes_pointers [OF q(2), of "\<lambda>_. 0" 1 q'] run q(1) show ?thesis by auto
qed

end
