(* ===== verification/Request.thy ===== *)
theory Request
  imports Rio FIFO_Queue
begin

text \<open>
  Handling of one HTTP request, \<^verbatim>\<open>request.c\<close>: parsing, the three kinds of response, and the
  statistics of the worker thread. The file system, the clock and process creation are the
  record \<open>req_env\<close>; the connection is its remaining input, the fate of its writes and
  the bytes sent so far. Text printed on the server's console is not modelled.
\<close>

section \<open>Data\<close>

definition MAXLINE :: nat where "MAXLINE = 8192"
definition MAXBUF :: nat where "MAXBUF = 8192"

record stat_thread =
  thread_id :: int
  dynam_count :: int
  static_count :: int
  tot_req_count :: int

record file_stat =
  is_reg :: bool      \<comment> \<open>\<open>S_ISREG\<close>\<close>
  r_usr :: bool       \<comment> \<open>\<open>S_IRUSR\<close>\<close>
  x_usr :: bool       \<comment> \<open>\<open>S_IXUSR\<close>\<close>
  st_size :: nat

record req_env =
  stat_file :: "string \<Rightarrow> file_stat option"
  open_file :: "string \<Rightarrow> int \<Rightarrow> int \<Rightarrow> int"
  mmap_file :: "int \<Rightarrow> nat \<Rightarrow> int \<Rightarrow> int \<Rightarrow> int \<Rightarrow> int \<Rightarrow> int"
  mapped :: "int \<Rightarrow> nat \<Rightarrow> string"          \<comment> \<open>content of a mapping\<close>
  munmap_file :: "int \<Rightarrow> nat \<Rightarrow> int"
  close_fd :: "int \<Rightarrow> int"
  now_time :: timeval
  fork_pid :: int                             \<comment> \<open>what \<open>fork()\<close> returns\<close>
  setenv_rc :: "string \<Rightarrow> string \<Rightarrow> int \<Rightarrow> int"
  dup2_rc :: "int \<Rightarrow> int \<Rightarrow> int"
  environ :: "string list"                    \<comment> \<open>the environment of the CGI program\<close>
  execve_rc :: "string \<Rightarrow> string list \<Rightarrow> string list \<Rightarrow> int"

text \<open>The connection, with the arguments of the \<open>waitpid\<close> calls made for it.\<close>

record conn =
  rio :: rio_t
  inp :: "rd_event list"
  outp :: "wr_event list"
  intr :: bool                                \<comment> \<open>\<open>errno = EINTR\<close>\<close>
  sent :: string
  waited :: "int list"

abbreviation crlf :: string where
  "crlf \<equiv> [CHR 0x0D, CHR 0x0A]"

definition send :: "string \<Rightarrow> conn \<Rightarrow> conn res" where
  "send buf c =
     rbind (Rio_writen buf (intr c) (outp c)) (\<lambda>(out, i, es).
       Inr (c\<lparr>sent := sent c @ out, intr := i, outp := es\<rparr>))"

section \<open>Error responses\<close>

definition error_body :: "string \<Rightarrow> string \<Rightarrow> string \<Rightarrow> string \<Rightarrow> string res" where
  "error_body cause errnum shortmsg longmsg =
     rbind (put_str MAXBUF ''<html><title>OS-HW3 Error</title>'') (\<lambda>b.
     rbind (put_str MAXBUF (b @ ''<body bgcolor=fffff>'' @ crlf)) (\<lambda>b.
     rbind (put_str MAXBUF (b @ errnum @ '': '' @ shortmsg @ crlf)) (\<lambda>b.
     rbind (put_str MAXBUF (b @ ''<p>'' @ longmsg @ '': '' @ cause @ crlf)) (\<lambda>b.
       put_str MAXBUF (b @ ''<hr>OS-HW3 Web Server'' @ crlf)))))"

definition requestError :: "string \<Rightarrow> string \<Rightarrow> string \<Rightarrow> string \<Rightarrow> conn \<Rightarrow> conn res" where
  "requestError cause errnum shortmsg longmsg c =
     rbind (error_body cause errnum shortmsg longmsg) (\<lambda>body.
     rbind (put_str MAXLINE (''HTTP/1.0 '' @ errnum @ '' '' @ shortmsg @ crlf)) (\<lambda>buf.
     rbind (send buf c) (\<lambda>c.
     rbind (put_str MAXLINE (''Content-Type: text/html'' @ crlf)) (\<lambda>buf.
     rbind (send buf c) (\<lambda>c.
     rbind (put_str MAXLINE (''Content-Length: '' @ show_lu (int (length body)) @ crlf @ crlf)) (\<lambda>buf.
     rbind (send buf c) (\<lambda>c.
       send body c)))))))"

section \<open>Reading the request\<close>

text \<open>
  The header loop. \<open>buf\<close> is the content of the local array, \<^term>\<open>None\<close> before the first
  line was stored in it; a call that stores nothing leaves it alone.
\<close>

definition keep_buf :: "string option \<Rightarrow> string option \<Rightarrow> string option" where
  "keep_buf old new = (case new of None \<Rightarrow> old | Some b \<Rightarrow> Some b)"

fun readhdrs_loop :: "nat \<Rightarrow> string option \<Rightarrow> rio_state \<Rightarrow> rio_state res" where
  "readhdrs_loop 0 buf s = Inl OutOfFuel"
| "readhdrs_loop (Suc fuel) buf s =
     (case buf of None \<Rightarrow> Inl Uninitialised
      | Some b \<Rightarrow>
          if cstr b = crlf then Inr s
          else
            rbind (Rio_readlineb MAXLINE s) (\<lambda>(_, new, s').
              readhdrs_loop fuel (keep_buf buf new) s'))"

definition requestReadhdrs :: "nat \<Rightarrow> rio_state \<Rightarrow> rio_state res" where
  "requestReadhdrs fuel s =
     rbind (Rio_readlineb MAXLINE s) (\<lambda>(_, new, s'). readhdrs_loop fuel (keep_buf None new) s')"

text \<open>
  The result is the return value, \<open>filename\<close> and \<open>cgiargs\<close> (\<^term>\<open>None\<close> where the code
  leaves the array unwritten).
\<close>

definition requestParseURI :: "string \<Rightarrow> (int \<times> string \<times> string option) res" where
  "requestParseURI uri =
     (if strstr uri ''..'' then
        rbind (put_str MAXLINE ''./public/home.html'') (\<lambda>filename. Inr (1, filename, None))
      else if \<not> strstr uri ''cgi'' then
        rbind (put_str MAXLINE (''./public/'' @ uri)) (\<lambda>filename.
          if uri = [] then Inl BadPointer
          else if last uri = CHR ''/'' then
            rbind (put_str MAXLINE (filename @ ''home.html'')) (\<lambda>filename.
              Inr (1, filename, Some []))
          else Inr (1, filename, Some []))
      else
        rbind (if CHR ''?'' \<in> set uri
               then rbind (put_str MAXLINE (tl (dropWhile (\<lambda>c. c \<noteq> CHR ''?'') uri))) (\<lambda>cgiargs.
                      Inr (cgiargs, takeWhile (\<lambda>c. c \<noteq> CHR ''?'') uri))
               else Inr ([], uri)) (\<lambda>(cgiargs, uri).
        rbind (put_str MAXLINE (''./public/'' @ uri)) (\<lambda>filename.
          Inr (0, filename, Some cgiargs))))"

definition requestGetFiletype :: "string \<Rightarrow> string" where
  "requestGetFiletype filename =
     (if strstr filename ''.html'' then ''text/html''
      else if strstr filename ''.gif'' then ''image/gif''
      else if strstr filename ''.jpg'' then ''image/jpeg''
      else ''text/plain'')"

section \<open>Responses\<close>

text \<open>The statistics lines that both kinds of response append to their header.\<close>

definition stat_lines :: "stat_thread \<Rightarrow> timeval \<Rightarrow> timeval \<Rightarrow> string list" where
  "stat_lines st time now =
     [''Stat-Req-Arrival:: '' @ show_lu (tv_sec time) @ ''.'' @ show_06lu (tv_usec time) @ crlf,
      ''Stat-Req-Dispatch:: '' @ show_lu (tv_sec now - tv_sec time) @ ''.'' @
        show_06lu (tv_usec now - tv_usec time) @ crlf,
      ''Stat-Thread-Id:: '' @ show_int (thread_id st) @ crlf,
      ''Stat-Thread-Count:: '' @ show_int (tot_req_count st) @ crlf,
      ''Stat-Thread-Static:: '' @ show_int (static_count st) @ crlf,
      ''Stat-Thread-Dynamic:: '' @ show_int (dynam_count st) @ crlf @ crlf]"

text \<open>
  A sequence of \<open>sprintf(buf, "%s...", buf)\<close> calls: each appends to the buffer. The C
  standard leaves an \<open>sprintf\<close> whose source and destination overlap undefined; the model takes
  what the common C libraries do when the buffer is the first thing printed, namely that its
  text is copied onto itself and the rest is written behind it.
\<close>

fun append_all :: "nat \<Rightarrow> string \<Rightarrow> string list \<Rightarrow> string res" where
  "append_all n buf [] = Inr buf"
| "append_all n buf (l # ls) = rbind (put_str n (buf @ l)) (\<lambda>buf. append_all n buf ls)"

definition requestServeDynamic ::
    "req_env \<Rightarrow> int \<Rightarrow> string \<Rightarrow> string \<Rightarrow> stat_thread \<Rightarrow> timeval \<Rightarrow> conn \<Rightarrow> conn res" where
  "requestServeDynamic env connfd filename cgiargs st time c =
     rbind (append_all MAXLINE []
        ([''HTTP/1.0 200 OK'' @ crlf, ''Server: OS-HW3 Web Server'' @ crlf]
         @ stat_lines st time (now_time env))) (\<lambda>buf.
     rbind (send buf c) (\<lambda>c.
     rbind (Fork (fork_pid env)) (\<lambda>forked.
       let pid = (if forked = 0 then 1 else 0) in
       rbind
         (if pid \<noteq> 0 then
            rbind (Setenv (setenv_rc env) ''QUERY_STRING'' cgiargs 1) (\<lambda>_.
            rbind (Dup2 (dup2_rc env) connfd 1) (\<lambda>_.
              Execve (execve_rc env) filename [] (environ env)))
          else Inr ())
         (\<lambda>_. Inr (c\<lparr>waited := waited c @ [pid]\<rparr>)))))"

definition requestServeStatic ::
    "req_env \<Rightarrow> string \<Rightarrow> int \<Rightarrow> stat_thread \<Rightarrow> timeval \<Rightarrow> conn \<Rightarrow> conn res" where
  "requestServeStatic env filename filesize st time c =
     (let len = nat (filesize mod 2 ^ 64) in
      rbind (put_str MAXLINE (requestGetFiletype filename)) (\<lambda>filetype.
      rbind (Open (open_file env) filename 0 0) (\<lambda>srcfd.
      rbind (Mmap (mmap_file env) 0 len 1 2 srcfd 0) (\<lambda>srcp.
      rbind (Close (close_fd env) srcfd) (\<lambda>_.
      rbind (append_all MAXBUF []
         ([''HTTP/1.0 200 OK'' @ crlf, ''Server: OS-HW3 Web Server'' @ crlf,
           ''Content-Length: '' @ show_int filesize @ crlf,
           ''Content-Type: '' @ filetype @ crlf @ crlf]
          @ stat_lines st time (now_time env))) (\<lambda>buf.
      rbind (send buf c) (\<lambda>c.
      rbind (send (mapped env srcp len) c) (\<lambda>c.
      rbind (Munmap (munmap_file env) srcp len) (\<lambda>_.
        Inr c)))))))))"

section \<open>The request handler\<close>

text \<open>The second half of \<open>requestHandle\<close>, after the headers were read.\<close>

definition requestDispatch ::
    "req_env \<Rightarrow> int \<Rightarrow> string \<Rightarrow> stat_thread \<Rightarrow> timeval \<Rightarrow> conn \<Rightarrow> (stat_thread \<times> conn) res" where
  "requestDispatch env connfd uri st time c =
     rbind (requestParseURI uri) (\<lambda>(is_static, filename, cgiargs).
     case stat_file env filename of
       None \<Rightarrow>
         rbind (requestError filename ''404'' ''Not found''
                  ''OS-HW3 Server could not find this file'' c) (\<lambda>c. Inr (st, c))
     | Some sbuf \<Rightarrow>
         if is_static \<noteq> 0 then
           (if \<not> is_reg sbuf \<or> \<not> r_usr sbuf then
              rbind (requestError filename ''403'' ''Forbidden''
                       ''OS-HW3 Server could not read this file'' c) (\<lambda>c. Inr (st, c))
            else
              let st = st\<lparr>static_count := static_count st + 1\<rparr> in
              rbind (requestServeStatic env filename
                       (signed_take_bit 31 (int (st_size sbuf))) st time c) (\<lambda>c.
                Inr (st, c)))
         else
           (if \<not> is_reg sbuf \<or> \<not> x_usr sbuf then
              rbind (requestError filename ''403'' ''Forbidden''
                       ''OS-HW3 Server could not run this CGI program'' c) (\<lambda>c. Inr (st, c))
            else
              let st = st\<lparr>dynam_count := dynam_count st + 1\<rparr> in
              (case cgiargs of None \<Rightarrow> Inl Uninitialised
               | Some args \<Rightarrow>
                   rbind (requestServeDynamic env connfd filename args st time c) (\<lambda>c.
                     Inr (st, c)))))"

definition requestHandle ::
    "nat \<Rightarrow> req_env \<Rightarrow> int \<Rightarrow> stat_thread \<Rightarrow> timeval \<Rightarrow> conn \<Rightarrow> (stat_thread \<times> conn) res" where
  "requestHandle fuel env connfd st time c =
     (let st = st\<lparr>tot_req_count := tot_req_count st + 1\<rparr> in
      rbind (Rio_readlineb MAXLINE (Rio_readinitb connfd (rio c), inp c)) (\<lambda>(_, line, s).
      case line of None \<Rightarrow> Inl Uninitialised
      | Some buf \<Rightarrow>
        (case words (cstr buf) of
           method # uri # version # _ \<Rightarrow>
             let c = c\<lparr>rio := fst s, inp := snd s\<rparr> in
             if \<not> strcasecmp_eq method ''GET'' then
               rbind (requestError method ''501'' ''Not Implemented''
                        ''OS-HW3 Server does not implement this method'' c) (\<lambda>c. Inr (st, c))
             else
               rbind (requestReadhdrs fuel s) (\<lambda>s.
                 requestDispatch env connfd uri st time (c\<lparr>rio := fst s, inp := snd s\<rparr>))
         | _ \<Rightarrow> Inl Uninitialised)))"

text \<open>A site without any file, used where the environment does not matter.\<close>

definition empty_site :: req_env where
  "empty_site = \<lparr>stat_file = \<lambda>_. None, open_file = \<lambda>_ _ _. -1, mmap_file = \<lambda>_ _ _ _ _ _. -1,
     mapped = \<lambda>_ _. [], munmap_file = \<lambda>_ _. 0, close_fd = \<lambda>_. 0,
     now_time = \<lparr>tv_sec = 5, tv_usec = 0\<rparr>, fork_pid = 77, setenv_rc = \<lambda>_ _ _. 0,
     dup2_rc = \<lambda>_ _. 1, environ = [], execve_rc = \<lambda>_ _ _. -1\<rparr>"

text \<open>A site where every name is a readable and executable file with the given content.\<close>

definition uniform_site :: "string \<Rightarrow> req_env" where
  "uniform_site txt = empty_site\<lparr>stat_file := \<lambda>_. Some \<lparr>is_reg = True, r_usr = True, x_usr = True,
       st_size = length txt\<rparr>,
     open_file := \<lambda>_ _ _. 9, mmap_file := \<lambda>_ len _ _ _ _. if len = 0 then -1 else 4096,
     mapped := \<lambda>_ len. take len txt\<rparr>"

definition fresh_conn :: "string \<Rightarrow> conn" where
  "fresh_conn txt = \<lparr>rio = \<lparr>rio_fd = 0, rio_cnt = 0, rio_bufptr = 0, rio_buf = replicate 8192 CHR ''x''\<rparr>,
     inp = [RdData txt], outp = [], intr = False, sent = [], waited = []\<rparr>"

definition new_thread :: stat_thread where
  "new_thread = \<lparr>thread_id = 0, dynam_count = 0, static_count = 0, tot_req_count = 0\<rparr>"

section \<open>Confinement of file names\<close>

lemma strstr_takeWhile: "strstr (takeWhile P u) p \<Longrightarrow> strstr u p"
  by (auto simp: strstr_iff) (metis append_assoc takeWhile_dropWhile_id)

lemma no_dots_append:
  "\<not> strstr u ''..'' \<Longrightarrow> u \<noteq> [] \<Longrightarrow> last u \<noteq> CHR ''.'' \<Longrightarrow> \<not> strstr v ''..'' \<Longrightarrow>
   \<not> strstr (u @ v) ''..''"
proof (induction u rule: induct_list012)
  case (2 x)
  then show ?case by (cases v) auto
next
  case (3 x y zs)
  then show ?case by auto
qed simp

lemma no_dots_public: "strstr (''./public/'' @ u) ''..'' \<longleftrightarrow> strstr u ''..''"
  by simp

text \<open>
  C31. Requests cannot leave the public directory: every file name that \<open>requestParseURI\<close>
  computes starts with \<^verbatim>\<open>./public/\<close> and contains no \<open>..\<close>, whatever the URI.
\<close>

theorem requestParseURI_confined:
  assumes "requestParseURI uri = Inr (is_static, filename, cgiargs)"
  shows "is_prefix ''./public/'' filename \<and> \<not> strstr filename ''..''"
proof (cases "strstr uri ''..''")
  case True
  with assms show ?thesis by (auto simp: requestParseURI_def result_simps)
next
  case False
  then have tw: "\<not> strstr (takeWhile P uri) ''..''" for P
    using strstr_takeWhile by blast
  have "uri \<noteq> [] \<Longrightarrow> last uri = CHR ''/'' \<Longrightarrow> \<not> strstr (uri @ ''home.html'') ''..''"
    using False by (intro no_dots_append) auto
  with assms False tw show ?thesis
    unfolding requestParseURI_def
    by (auto simp: result_simps is_prefix_iff no_dots_public split: if_splits)
qed

theorem requestParseURI_confined_witness:
  "\<exists>filename cgiargs filename'. requestParseURI ''/cgi/../../x?a'' = Inr (1, filename', None) \<and>
     requestParseURI ''/docs/cgi.x?a..'' = Inr (1, filename', None) \<and>
     requestParseURI ''/docs/cgi.x?a.b'' = Inr (0, filename, Some cgiargs) \<and> cgiargs = ''a.b'' \<and>
     is_prefix ''./public/'' filename \<and> \<not> strstr filename ''..'' \<and>
     is_prefix ''./public/'' filename' \<and> \<not> strstr filename' ''..''"
proof -
  have dyn: "requestParseURI ''/docs/cgi.x?a.b'' = Inr (0, ''./public//docs/cgi.x'', Some ''a.b'')"
    and up: "requestParseURI ''/cgi/../../x?a'' = Inr (1, ''./public/home.html'', None)"
    and dots: "requestParseURI ''/docs/cgi.x?a..'' = Inr (1, ''./public/home.html'', None)"
    by (simp_all add: requestParseURI_def MAXLINE_def put_str_def)
  from requestParseURI_confined [OF dyn] requestParseURI_confined [OF up] dyn up dots
  show ?thesis by blast
qed

text \<open>
  C33. A URI that fits its array can overflow the \<open>filename\<close> array: for a static URI of at
  least \<open>MAXLINE - 9\<close> characters the prefix \<^verbatim>\<open>./public/\<close> does not fit any more, whereas
  every non-empty URI shorter than \<open>MAXLINE - 18\<close> is parsed without a fault.
\<close>

theorem requestParseURI_bounds:
  assumes "uri \<noteq> []"
  shows "(length uri + 18 < MAXLINE \<longrightarrow> returns (requestParseURI uri)) \<and>
         (MAXLINE \<le> length uri + 9 \<longrightarrow> \<not> strstr uri ''..'' \<longrightarrow> \<not> strstr uri ''cgi'' \<longrightarrow>
            requestParseURI uri = Inl BufferOverflow)"
proof -
  have "length (dropWhile P uri) \<le> length uri" "length (takeWhile P uri) \<le> length uri" for P
    by (simp_all add: length_dropWhile_le length_takeWhile_le)
  note this [of "\<lambda>c. c \<noteq> CHR ''?''"]
  then show ?thesis
    using assms by (auto simp: requestParseURI_def put_str_def MAXLINE_def returns_def)
qed

theorem requestParseURI_bounds_witness:
  "requestParseURI (replicate 8185 CHR ''a'') = Inl BufferOverflow"
proof -
  have nostr: "\<not> strstr (replicate n CHR ''a'') p" if "p \<noteq> []" "hd p \<noteq> CHR ''a''" for n p
    using that by (induction n) (auto, cases p, auto)
  have "(replicate 8185 CHR ''a'') \<noteq> []" by simp
  from requestParseURI_bounds [OF this] show ?thesis
    by (simp add: nostr MAXLINE_def)
qed

text \<open>
  For a dynamic request the file name and the arguments determine the URI: a query is
  split at its first question mark and nothing is lost.
\<close>

theorem requestParseURI_query:
  assumes "requestParseURI uri = Inr (0, filename, Some cgiargs)"
  shows "uri = drop 9 filename @ (if CHR ''?'' \<in> set uri then CHR ''?'' # cgiargs else []) \<and>
         CHR ''?'' \<notin> set (drop 9 filename) \<and> strstr uri ''cgi''"
proof -
  have tw: "takeWhile (\<lambda>c. c \<noteq> CHR ''?'') uri @ CHR ''?'' # tl (dropWhile (\<lambda>c. c \<noteq> CHR ''?'') uri) = uri"
    if "CHR ''?'' \<in> set uri"
    using that by (induction uri) auto
  show ?thesis
    using assms tw unfolding requestParseURI_def
    by (auto simp: result_simps split: if_splits dest: set_takeWhileD)
qed

theorem requestParseURI_query_witness:
  "''/output.cgi?5'' = drop 9 ''./public//output.cgi'' @ CHR ''?'' # ''5''"
  using requestParseURI_query [of "''/output.cgi?5''" "''./public//output.cgi''" "''5''"]
  by (simp add: requestParseURI_def put_str_def MAXLINE_def)

section \<open>The header loop\<close>

text \<open>A header line that is neither blank nor too long for the array.\<close>

definition header_line :: "string \<Rightarrow> bool" where
  "header_line l \<longleftrightarrow> l \<noteq> [] \<and> last l = CHR 0x0A \<and> CHR 0x0A \<notin> set (butlast l) \<and>
     length l < MAXLINE \<and> cstr l \<noteq> crlf"

definition healthy :: "rio_state \<Rightarrow> bool" where
  "healthy s \<longleftrightarrow> rio_ok s \<and> \<not> rio_broken s"

lemma MAXLINE_gt [simp]: "Suc 0 < MAXLINE"
  by (simp add: MAXLINE_def)

lemma Rio_readlineb_text:
  assumes "healthy s" and "rio_stream s = b @ CHR 0x0A # rest"
    and "CHR 0x0A \<notin> set b" and "length b + 1 < MAXLINE"
  shows "\<exists>n s'. Rio_readlineb MAXLINE s = Inr (n, Some (b @ [CHR 0x0A]), s') \<and>
           healthy s' \<and> rio_stream s' = rest"
proof -
  have "takeline (MAXLINE - 1) (rio_stream s) = b @ [CHR 0x0A]"
    using assms by (simp add: takeline_newline)
  with assms show ?thesis
    using rio_readlineb_next [of s MAXLINE]
    by (auto simp: healthy_def Rio_readlineb_def)
qed

lemma Rio_readlineb_end:
  assumes "healthy s" and "rio_stream s = []"
  shows "\<exists>s'. Rio_readlineb MAXLINE s = Inr (0, None, s') \<and> healthy s' \<and> rio_stream s' = []"
  using rio_readlineb_eof [of s MAXLINE] assms by (auto simp: healthy_def Rio_readlineb_def)

lemma header_line_split:
  "header_line l \<Longrightarrow> \<exists>b. l = b @ [CHR 0x0A] \<and> CHR 0x0A \<notin> set b \<and> length b + 1 < MAXLINE \<and>
     cstr l \<noteq> crlf"
  by (cases l rule: rev_cases) (auto simp: header_line_def)

lemma header_line_not_blank: "header_line l \<Longrightarrow> cstr l \<noteq> crlf"
  by (simp add: header_line_def)

lemma Rio_readlineb_header:
  assumes "healthy s" and "rio_stream s = l @ rest" and "header_line l"
  shows "\<exists>n s'. Rio_readlineb MAXLINE s = Inr (n, Some l, s') \<and> healthy s' \<and> rio_stream s' = rest"
  using header_line_split [OF assms(3)] Rio_readlineb_text [OF assms(1)] assms(2) by auto

lemma cstr_crlf [simp]: "cstr crlf = crlf"
  by (simp add: cstr_def)

lemma Rio_readlineb_blank:
  assumes "healthy s" and "rio_stream s = crlf @ rest"
  shows "\<exists>n s'. Rio_readlineb MAXLINE s = Inr (n, Some crlf, s') \<and> healthy s' \<and>
           rio_stream s' = rest"
  using Rio_readlineb_text [OF assms(1), of "[CHR 0x0D]" rest] assms(2) by (simp add: MAXLINE_def)

lemma readhdrs_loop_ends:
  "healthy s \<Longrightarrow> rio_stream s = concat ls @ crlf @ rest \<Longrightarrow> list_all header_line ls \<Longrightarrow>
   cstr b \<noteq> crlf \<Longrightarrow> length ls + 1 < fuel \<Longrightarrow>
   \<exists>s'. readhdrs_loop fuel (Some b) s = Inr s' \<and> healthy s' \<and> rio_stream s' = rest"
proof (induction ls arbitrary: fuel b s)
  case Nil
  then obtain fuel1 where fuel: "fuel = Suc (Suc fuel1)" by (auto simp: less_iff_Suc_add)
  from Nil Rio_readlineb_blank [of s rest] show ?case
    by (auto simp: fuel keep_buf_def)
next
  case (Cons l ls)
  then obtain fuel1 where fuel: "fuel = Suc fuel1" by (cases fuel) auto
  have l: "header_line l" "cstr l \<noteq> crlf" using Cons.prems(3) by (auto simp: header_line_def)
  from Cons.prems Rio_readlineb_header [of s l "concat ls @ crlf @ rest"] l obtain n s1 where
    rd: "Rio_readlineb MAXLINE s = Inr (n, Some l, s1)" "healthy s1"
      "rio_stream s1 = concat ls @ crlf @ rest" by auto
  have "\<exists>s'. readhdrs_loop fuel1 (Some l) s1 = Inr s' \<and> healthy s' \<and> rio_stream s' = rest"
    using Cons.prems rd l fuel by (intro Cons.IH) auto
  with rd Cons.prems(4) show ?case by (auto simp: fuel keep_buf_def)
qed

lemma requestReadhdrs_ends:
  assumes "healthy s" and "rio_stream s = concat ls @ crlf @ rest"
    and "list_all header_line ls" and "length ls + 1 < fuel"
  shows "\<exists>s'. requestReadhdrs fuel s = Inr s' \<and> healthy s' \<and> rio_stream s' = rest"
proof (cases ls)
  case Nil
  then obtain n s1 where "Rio_readlineb MAXLINE s = Inr (n, Some crlf, s1)" "healthy s1"
      "rio_stream s1 = rest"
    using Rio_readlineb_blank [OF assms(1), of rest] assms(2) by auto
  then show ?thesis
    using assms(4) by (cases fuel) (auto simp: requestReadhdrs_def keep_buf_def)
next
  case (Cons l ls')
  then obtain n s1 where rd: "Rio_readlineb MAXLINE s = Inr (n, Some l, s1)" "healthy s1"
      "rio_stream s1 = concat ls' @ crlf @ rest"
    using Rio_readlineb_header [OF assms(1), of l "concat ls' @ crlf @ rest"] assms(2,3) by auto
  have "cstr l \<noteq> crlf" using assms(3) Cons by (simp add: header_line_def)
  with rd readhdrs_loop_ends [OF rd(2,3), of l fuel] assms(3,4) Cons show ?thesis
    by (auto simp: requestReadhdrs_def keep_buf_def)
qed

text \<open>
  C32. \<open>requestReadhdrs\<close> consumes the header lines up to and including the first blank
  line, and nothing after it; one iteration per line is enough.
\<close>

theorem requestReadhdrs_stops:
  assumes "healthy s" and "rio_stream s = concat ls @ crlf @ rest"
    and "list_all header_line ls" and "length ls + 1 < fuel"
  shows "\<exists>s'. requestReadhdrs fuel s = Inr s' \<and> healthy s' \<and> rio_stream s' = rest"
  using assms by (rule requestReadhdrs_ends)

theorem requestReadhdrs_stops_witness:
  "\<exists>s'. requestReadhdrs 3
      (\<lparr>rio_fd = 4, rio_cnt = 0, rio_bufptr = 0, rio_buf = replicate 8192 CHR ''x''\<rparr>,
       [RdData (''Host: a'' @ crlf @ [CHR 0x0D]), RdIntr, RdData ([CHR 0x0A] @ ''body'')]) = Inr s' \<and>
     healthy s' \<and> rio_stream s' = ''body''"
  by (rule requestReadhdrs_stops [where ls = "[''Host: a'' @ crlf]"])
    (simp_all add: healthy_def rio_ok_def RIO_BUFSIZE_def rio_stream_def unread_def
      rio_broken_def header_line_def MAXLINE_def cstr_def)

lemma readhdrs_loop_hangs:
  "healthy s \<Longrightarrow> rio_stream s = concat ls \<Longrightarrow> list_all header_line ls \<Longrightarrow> cstr b \<noteq> crlf \<Longrightarrow>
   readhdrs_loop fuel (Some b) s = Inl OutOfFuel"
proof (induction fuel arbitrary: ls b s)
  case (Suc fuel)
  show ?case
  proof (cases ls)
    case Nil
    with Suc.prems obtain s1 where "Rio_readlineb MAXLINE s = Inr (0, None, s1)" "healthy s1"
        "rio_stream s1 = concat []"
      using Rio_readlineb_end [of s] by auto
    with Suc.IH [of s1 "[]" b] Suc.prems(4) show ?thesis by (simp add: keep_buf_def)
  next
    case (Cons l ls')
    with Suc.prems obtain n s1 where rd: "Rio_readlineb MAXLINE s = Inr (n, Some l, s1)"
        "healthy s1" "rio_stream s1 = concat ls'"
      using Rio_readlineb_header [of s l "concat ls'"] by auto
    have "cstr l \<noteq> crlf" "list_all header_line ls'"
      using Suc.prems(3) Cons header_line_not_blank by auto
    with Suc.IH [OF rd(2,3)] rd(1) Suc.prems(4) show ?thesis by (simp add: keep_buf_def)
  qed
qed simp

text \<open>
  When the client closes the connection after some header lines without a blank line,
  \<open>requestReadhdrs\<close> never returns: at the end of the file \<open>rio_readlineb\<close> leaves the array
  alone, and no number of iterations ends the loop.
\<close>

theorem requestReadhdrs_hangs:
  assumes "healthy s" and "rio_stream s = concat ls" and "ls \<noteq> []"
    and "list_all header_line ls"
  shows "requestReadhdrs fuel s = Inl OutOfFuel"
proof -
  obtain l ls' where ls: "ls = l # ls'" using assms(3) by (cases ls) auto
  obtain n s1 where rd: "Rio_readlineb MAXLINE s = Inr (n, Some l, s1)"
      "healthy s1" "rio_stream s1 = concat ls'"
    using Rio_readlineb_header [of s l "concat ls'"] assms ls by auto
  have "cstr l \<noteq> crlf" "list_all header_line ls'"
    using assms(4) ls header_line_not_blank by auto
  with rd readhdrs_loop_hangs [OF rd(2,3), of l fuel] show ?thesis
    by (simp add: requestReadhdrs_def keep_buf_def)
qed

theorem requestReadhdrs_hangs_witness:
  "requestReadhdrs 1000000
     (\<lparr>rio_fd = 4, rio_cnt = 0, rio_bufptr = 0, rio_buf = replicate 8192 CHR ''x''\<rparr>,
      [RdData (''Host: a'' @ crlf)]) = Inl OutOfFuel"
  by (rule requestReadhdrs_hangs [where ls = "[''Host: a'' @ crlf]"])
    (simp_all add: healthy_def rio_ok_def RIO_BUFSIZE_def rio_stream_def unread_def
      rio_broken_def header_line_def MAXLINE_def cstr_def)

section \<open>Whole requests\<close>

lemma send_patient:
  assumes "patient (outp c)"
  shows "\<exists>c'. send buf c = Inr c' \<and> sent c' = sent c @ buf \<and> patient (outp c') \<and>
           waited c' = waited c \<and> rio c' = rio c \<and> inp c' = inp c"
  using Rio_writen_patient [OF assms, of buf "intr c"] by (auto simp: send_def)

lemma append_all_eq:
  "length (buf @ concat ls) < n \<Longrightarrow> append_all n buf ls = Inr (buf @ concat ls)"
  by (induction ls arbitrary: buf) (auto simp: put_str_def)

text \<open>The text of an error response: the announced length is that of the body.\<close>

definition error_page :: "string \<Rightarrow> string \<Rightarrow> string \<Rightarrow> string \<Rightarrow> string" where
  "error_page cause errnum shortmsg longmsg =
     ''<html><title>OS-HW3 Error</title><body bgcolor=fffff>'' @ crlf @
     errnum @ '': '' @ shortmsg @ crlf @ ''<p>'' @ longmsg @ '': '' @ cause @ crlf @
     ''<hr>OS-HW3 Web Server'' @ crlf"

definition error_response :: "string \<Rightarrow> string \<Rightarrow> string \<Rightarrow> string" where
  "error_response errnum shortmsg body =
     ''HTTP/1.0 '' @ errnum @ '' '' @ shortmsg @ crlf @ ''Content-Type: text/html'' @ crlf @
     ''Content-Length: '' @ show_lu (int (length body)) @ crlf @ crlf @ body"

lemma error_body_eq:
  "length (error_page cause errnum shortmsg longmsg) < MAXBUF \<Longrightarrow>
   error_body cause errnum shortmsg longmsg = Inr (error_page cause errnum shortmsg longmsg)"
  by (simp add: error_body_def error_page_def put_str_def)

lemma error_body_overflow:
  "MAXBUF \<le> length cause \<Longrightarrow> error_body cause errnum shortmsg longmsg = Inl BufferOverflow"
  by (simp add: error_body_def put_str_def MAXBUF_def)

lemma requestError_sends:
  assumes "patient (outp c)" and "length (error_page cause errnum shortmsg longmsg) < MAXBUF"
  shows "\<exists>c'. requestError cause errnum shortmsg longmsg c = Inr c' \<and>
           sent c' = sent c @ error_response errnum shortmsg
             (error_page cause errnum shortmsg longmsg) \<and> waited c' = waited c \<and>
           rio c' = rio c \<and> inp c' = inp c"
proof -
  let ?body = "error_page cause errnum shortmsg longmsg"
  let ?l1 = "''HTTP/1.0 '' @ errnum @ '' '' @ shortmsg @ crlf"
  let ?l2 = "''Content-Type: text/html'' @ crlf"
  let ?l3 = "''Content-Length: '' @ show_lu (int (length ?body)) @ crlf @ crlf"
  have fit: "length ?l1 < MAXLINE" "length ?l2 < MAXLINE" "length ?l3 < MAXLINE"
    using assms(2) length_show_lu [of "int (length ?body)"]
    by (simp_all add: error_page_def MAXLINE_def MAXBUF_def)
  obtain c1 where c1: "send ?l1 c = Inr c1" "sent c1 = sent c @ ?l1" "patient (outp c1)"
      "waited c1 = waited c" "rio c1 = rio c" "inp c1 = inp c"
    using send_patient [OF assms(1)] by blast
  obtain c2 where c2: "send ?l2 c1 = Inr c2" "sent c2 = sent c1 @ ?l2" "patient (outp c2)"
      "waited c2 = waited c1" "rio c2 = rio c1" "inp c2 = inp c1"
    using send_patient [OF c1(3)] by blast
  obtain c3 where c3: "send ?l3 c2 = Inr c3" "sent c3 = sent c2 @ ?l3" "patient (outp c3)"
      "waited c3 = waited c2" "rio c3 = rio c2" "inp c3 = inp c2"
    using send_patient [OF c2(3)] by blast
  obtain c4 where c4: "send ?body c3 = Inr c4" "sent c4 = sent c3 @ ?body" "waited c4 = waited c3"
      "rio c4 = rio c3" "inp c4 = inp c3"
    using send_patient [OF c3(3)] by blast
  have "requestError cause errnum shortmsg longmsg c = Inr c4"
    unfolding requestError_def error_body_eq [OF assms(2)]
    using fit c1(1) c2(1) c3(1) c4(1) by (simp only: rbind_Inr put_str_def if_True)
  then show ?thesis
    using c1 c2 c3 c4 by (simp add: error_response_def)
qed

text \<open>
  A complete request on the connection: request line, header lines, blank line. The bound on
  the URI keeps the line and the file name within their arrays.
\<close>

definition request_pending :: "string \<Rightarrow> string \<Rightarrow> string list \<Rightarrow> string \<Rightarrow> conn \<Rightarrow> bool" where
  "request_pending method uri hdrs rest c \<longleftrightarrow>
     length (rio_buf (rio c)) = RIO_BUFSIZE \<and> \<not> broken (inp c) \<and>
     avail (inp c) = method @ '' '' @ uri @ '' HTTP/1.0'' @ crlf @ concat hdrs @ crlf @ rest \<and>
     method \<noteq> [] \<and> uri \<noteq> [] \<and>
     list_all (\<lambda>ch. \<not> isspace ch \<and> ch \<noteq> CHR 0x00) (method @ uri) \<and>
     list_all header_line hdrs \<and> length (method @ uri) + 20 < MAXLINE"

lemma requestHandle_parsed:
  assumes "request_pending method uri hdrs rest c"
  shows "\<exists>n s. Rio_readlineb MAXLINE (Rio_readinitb connfd (rio c), inp c) =
             Inr (n, Some (method @ '' '' @ uri @ '' HTTP/1.0'' @ crlf), s) \<and>
           healthy s \<and> rio_stream s = concat hdrs @ crlf @ rest \<and>
           words (cstr (method @ '' '' @ uri @ '' HTTP/1.0'' @ crlf)) = [method, uri, ''HTTP/1.0'']"
proof -
  let ?line = "method @ '' '' @ uri @ '' HTTP/1.0'' @ [CHR 0x0D]"
  let ?s = "(Rio_readinitb connfd (rio c), inp c)"
  have clean: "\<forall>ch \<in> set method. \<not> isspace ch" "\<forall>ch \<in> set uri. \<not> isspace ch"
      "\<forall>ch \<in> set method. ch \<noteq> CHR 0x00" "\<forall>ch \<in> set uri. ch \<noteq> CHR 0x00"
    using assms by (auto simp: request_pending_def list_all_iff)
  have sp: "isspace (CHR '' '')" "isspace (CHR 0x0D)" "isspace (CHR 0x0A)"
    by (simp_all add: isspace_def)
  have "healthy ?s" "rio_stream ?s = ?line @ CHR 0x0A # concat hdrs @ crlf @ rest"
    using assms
    by (simp_all add: request_pending_def healthy_def rio_ok_def Rio_readinitb_def
        rio_readinitb_def rio_broken_def rio_stream_def unread_def)
  moreover have "CHR 0x0A \<notin> set ?line" using clean sp by auto
  moreover have "length ?line + 1 < MAXLINE" using assms by (simp add: request_pending_def)
  moreover have "cstr (?line @ [CHR 0x0A]) = ?line @ [CHR 0x0A]"
    unfolding cstr_def using clean by (intro takeWhile_eq_all_conv [THEN iffD2]) auto
  moreover have "words (?line @ [CHR 0x0A]) = [method, uri, ''HTTP/1.0'']"
  proof -
    have ne: "method \<noteq> []" "uri \<noteq> []" using assms by (auto simp: request_pending_def)
    have "words (''HTTP/1.0'' @ crlf) = [''HTTP/1.0'']" by (simp add: words_def isspace_def)
    then have "words (method @ CHR '' '' # uri @ CHR '' '' # ''HTTP/1.0'' @ crlf) =
        [method, uri, ''HTTP/1.0'']"
      using words_space [OF ne(1) clean(1) sp(1)] words_space [OF ne(2) clean(2) sp(1)] by simp
    then show ?thesis by simp
  qed
  ultimately show ?thesis
    using Rio_readlineb_text [of ?s ?line "concat hdrs @ crlf @ rest"] by auto
qed

text \<open>
  A request whose method is not \<open>GET\<close> (in any case) is answered with a complete 501
  page and counted in the total only; its headers are not read.
\<close>

theorem requestHandle_501:
  assumes "request_pending method uri hdrs rest c" and "\<not> strcasecmp_eq method ''GET''"
    and "patient (outp c)" and "length method < 8000"
  shows "\<exists>c'. requestHandle fuel env connfd st time c =
             Inr (st\<lparr>tot_req_count := tot_req_count st + 1\<rparr>, c') \<and>
           sent c' = sent c @ error_response ''501'' ''Not Implemented''
             (error_page method ''501'' ''Not Implemented''
                ''OS-HW3 Server does not implement this method'')"
proof -
  obtain n s where rd: "Rio_readlineb MAXLINE (Rio_readinitb connfd (rio c), inp c) =
        Inr (n, Some (method @ '' '' @ uri @ '' HTTP/1.0'' @ crlf), s)"
      "words (cstr (method @ '' '' @ uri @ '' HTTP/1.0'' @ crlf)) = [method, uri, ''HTTP/1.0'']"
    using requestHandle_parsed [OF assms(1)] by blast
  have "length (error_page method ''501'' ''Not Implemented''
      ''OS-HW3 Server does not implement this method'') < MAXBUF"
    using assms(4) by (simp add: error_page_def MAXBUF_def)
  from requestError_sends [of "c\<lparr>rio := fst s, inp := snd s\<rparr>", OF _ this] assms(2,3) rd
  show ?thesis by (auto simp: requestHandle_def Let_def)
qed

lemma fresh_conn_pending:
  "broken (inp (fresh_conn txt)) = False" "avail (inp (fresh_conn txt)) = txt"
  "length (rio_buf (rio (fresh_conn txt))) = RIO_BUFSIZE" "patient (outp (fresh_conn txt))"
  "sent (fresh_conn txt) = []"
  by (simp_all add: fresh_conn_def RIO_BUFSIZE_def patient_def)

theorem requestHandle_501_witness:
  "\<exists>c'. requestHandle 5 empty_site 4 new_thread \<lparr>tv_sec = 1, tv_usec = 2\<rparr>
      (fresh_conn (''PUT /a HTTP/1.0'' @ crlf @ crlf)) =
      Inr (new_thread\<lparr>tot_req_count := 1\<rparr>, c')"
  using requestHandle_501 [of "''PUT''" "''/a''" "[]" "[]"
      "fresh_conn (''PUT /a HTTP/1.0'' @ crlf @ crlf)" 5 empty_site 4 new_thread
      "\<lparr>tv_sec = 1, tv_usec = 2\<rparr>"]
  by (auto simp: request_pending_def fresh_conn_pending isspace_def MAXLINE_def strcasecmp_eq_def
      tolower_def new_thread_def)

lemma requestHandle_get:
  assumes "request_pending method uri hdrs rest c" and "length hdrs + 1 < fuel"
    and get: "strcasecmp_eq method ''GET''"
  shows "\<exists>s. healthy s \<and> rio_stream s = rest \<and>
           requestHandle fuel env connfd st time c =
             requestDispatch env connfd uri (st\<lparr>tot_req_count := tot_req_count st + 1\<rparr>) time
               (c\<lparr>rio := fst s, inp := snd s\<rparr>)"
proof -
  obtain n s where rd: "Rio_readlineb MAXLINE (Rio_readinitb connfd (rio c), inp c) =
        Inr (n, Some (method @ '' '' @ uri @ '' HTTP/1.0'' @ crlf), s)"
      "healthy s" "rio_stream s = concat hdrs @ crlf @ rest"
      "words (cstr (method @ '' '' @ uri @ '' HTTP/1.0'' @ crlf)) = [method, uri, ''HTTP/1.0'']"
    using requestHandle_parsed [OF assms(1)] by blast
  have "list_all header_line hdrs" using assms(1) by (simp add: request_pending_def)
  then obtain s' where hdr: "requestReadhdrs fuel s = Inr s'" "healthy s'" "rio_stream s' = rest"
    using requestReadhdrs_ends [OF rd(2,3) _ assms(2)] by blast
  with rd get show ?thesis
    by (intro exI [of _ s']) (simp add: requestHandle_def Let_def)
qed

lemma strcasecmp_refl [simp]: "strcasecmp_eq w w"
  by (simp add: strcasecmp_eq_def)

lemma requestParseURI_short:
  assumes "uri \<noteq> []" and "length uri + 18 < MAXLINE"
  obtains is_static filename cgiargs
  where "requestParseURI uri = Inr (is_static, filename, cgiargs)" "length filename \<le> length uri + 18"
proof -
  have len: "length (dropWhile P uri) \<le> length uri" "length (takeWhile P uri) \<le> length uri" for P
    by (simp_all add: length_dropWhile_le length_takeWhile_le)
  have "returns (requestParseURI uri)"
    using len [of "\<lambda>c. c \<noteq> CHR ''?''"] assms
    by (auto simp: requestParseURI_def put_str_def MAXLINE_def)
  moreover have "requestParseURI uri = Inr (i, f, a) \<Longrightarrow> length f \<le> length uri + 18" for i f a
    using len [of "\<lambda>c. c \<noteq> CHR ''?''"]
    by (auto simp: requestParseURI_def result_simps split: if_splits)
  ultimately show thesis
    using that by (cases "requestParseURI uri") auto
qed

text \<open>
  C35. A \<open>GET\<close> whose file name, as \<open>requestParseURI\<close> computes it, does not exist is answered
  with a complete 404 page that names this file and announces the length of its body; the
  request is counted in the total only, and the input is consumed exactly up to and including
  the blank line after the headers.
\<close>

theorem requestHandle_404:
  assumes "request_pending ''GET'' uri hdrs rest c" and "length hdrs + 1 < fuel"
    and "patient (outp c)" and "length uri < 8000"
    and parse: "requestParseURI uri = Inr (is_static, filename, cgiargs)"
    and missing: "stat_file env filename = None"
  shows "\<exists>c'. requestHandle fuel env connfd st time c =
             Inr (st\<lparr>tot_req_count := tot_req_count st + 1\<rparr>, c') \<and>
           sent c' = sent c @ error_response ''404'' ''Not found''
             (error_page filename ''404'' ''Not found'' ''OS-HW3 Server could not find this file'') \<and>
           rio_stream (rio c', inp c') = rest \<and> waited c' = waited c"
proof -
  obtain s where run: "requestHandle fuel env connfd st time c =
      requestDispatch env connfd uri (st\<lparr>tot_req_count := tot_req_count st + 1\<rparr>) time
        (c\<lparr>rio := fst s, inp := snd s\<rparr>)" and rest: "rio_stream s = rest"
    using requestHandle_get [OF assms(1,2) strcasecmp_refl] by blast
  have "uri \<noteq> []" "length uri + 18 < MAXLINE"
    using assms(1) by (auto simp: request_pending_def)
  then have "length filename \<le> length uri + 18"
    using requestParseURI_short parse by (metis Inr_inject prod.inject)
  then have "length (error_page filename ''404'' ''Not found''
      ''OS-HW3 Server could not find this file'') < MAXBUF"
    using assms(4) by (simp add: error_page_def MAXBUF_def)
  from requestError_sends [of "c\<lparr>rio := fst s, inp := snd s\<rparr>", OF _ this] assms(3) parse missing run rest
  show ?thesis by (auto simp: requestDispatch_def)
qed

theorem requestHandle_404_witness:
  "\<exists>c'. requestHandle 5
      ((uniform_site ''hello'')\<lparr>stat_file := (stat_file (uniform_site ''hello''))
         (''./public//a'' := None)\<rparr>) 4 new_thread \<lparr>tv_sec = 1, tv_usec = 2\<rparr>
      (fresh_conn (''GET /a HTTP/1.0'' @ crlf @ crlf @ ''next'')) =
      Inr (new_thread\<lparr>tot_req_count := 1\<rparr>, c') \<and>
    sent c' = error_response ''404'' ''Not found''
      (error_page ''./public//a'' ''404'' ''Not found'' ''OS-HW3 Server could not find this file'') \<and>
    rio_stream (rio c', inp c') = ''next''"
proof -
  let ?c = "fresh_conn (''GET /a HTTP/1.0'' @ crlf @ crlf @ ''next'')"
  have "request_pending ''GET'' ''/a'' [] ''next'' ?c"
    by (simp add: request_pending_def fresh_conn_pending isspace_def MAXLINE_def)
  moreover have "requestParseURI ''/a'' = Inr (1, ''./public//a'', Some [])"
    by (simp add: requestParseURI_def put_str_def MAXLINE_def)
  moreover have "patient (outp ?c)" by (rule fresh_conn_pending)
  ultimately show ?thesis
    using requestHandle_404 [of "''/a''" "[]" "''next''" ?c 5 1 "''./public//a''" "Some []"
        "(uniform_site ''hello'')\<lparr>stat_file := (stat_file (uniform_site ''hello''))
         (''./public//a'' := None)\<rparr>" 4 new_thread "\<lparr>tv_sec = 1, tv_usec = 2\<rparr>"]
    by (simp add: new_thread_def fresh_conn_pending(5)) blast
qed

text \<open>The statistics and the header of a static answer fit their buffers.\<close>

lemma stat_lines_length:
  assumes "\<bar>thread_id st\<bar> < 2 ^ 31" and "\<bar>dynam_count st\<bar> < 2 ^ 31"
    and "\<bar>static_count st\<bar> < 2 ^ 31" and "\<bar>tot_req_count st\<bar> < 2 ^ 31"
  shows "length (concat (stat_lines st time nw)) \<le> 400"
  using assms [THEN length_show_int] length_show_lu [of "tv_sec time"] length_show_06lu [of "tv_usec time"]
    length_show_lu [of "tv_sec nw - tv_sec time"] length_show_06lu [of "tv_usec nw - tv_usec time"]
  by (simp add: stat_lines_def)

lemma static_header_fits:
  fixes filename :: string
  assumes "n < 2 ^ 31" and "length (concat sl) \<le> 400"
  defines "hdr \<equiv> ''HTTP/1.0 200 OK'' @ crlf @ ''Server: OS-HW3 Web Server'' @ crlf @
             ''Content-Length: '' @ show_nat n @ crlf @
             ''Content-Type: '' @ requestGetFiletype filename @ crlf @ crlf @ concat sl"
  shows "append_all MAXBUF []
         ([''HTTP/1.0 200 OK'' @ crlf, ''Server: OS-HW3 Web Server'' @ crlf,
           ''Content-Length: '' @ show_int (int n) @ crlf,
           ''Content-Type: '' @ requestGetFiletype filename @ crlf @ crlf] @ sl) = Inr hdr"
    and "put_str MAXLINE (requestGetFiletype filename) = Inr (requestGetFiletype filename)"
proof -
  have "length (show_nat n) \<le> 10" using assms(1) by (intro length_show_nat) auto
  moreover have "length (requestGetFiletype filename) \<le> 10" by (simp add: requestGetFiletype_def)
  ultimately have "length hdr < MAXBUF" "length (requestGetFiletype filename) < MAXLINE"
    using assms(2) by (simp_all add: hdr_def MAXBUF_def MAXLINE_def)
  then show "append_all MAXBUF []
         ([''HTTP/1.0 200 OK'' @ crlf, ''Server: OS-HW3 Web Server'' @ crlf,
           ''Content-Length: '' @ show_int (int n) @ crlf,
           ''Content-Type: '' @ requestGetFiletype filename @ crlf @ crlf] @ sl) = Inr hdr"
    and "put_str MAXLINE (requestGetFiletype filename) = Inr (requestGetFiletype filename)"
    by (simp_all add: hdr_def show_int_def append_all_eq put_str_def)
qed

lemma requestHandle_serves_static:
  fixes sb :: file_stat
  assumes "request_pending ''GET'' uri hdrs rest c" and "length hdrs + 1 < fuel"
    and "patient (outp c)"
    and "requestParseURI uri = Inr (1, filename, cgiargs)"
    and "stat_file env filename = Some sb" and "is_reg sb" and "r_usr sb"
    and "st_size sb < 2 ^ 31"
    and "srcfd = open_file env filename 0 0" and "0 \<le> srcfd"
    and "srcp = mmap_file env 0 (st_size sb) 1 2 srcfd 0" and "srcp \<noteq> -1"
    and "0 \<le> close_fd env srcfd" and "0 \<le> munmap_file env srcp (st_size sb)"
    and "\<bar>thread_id st\<bar> < 2 ^ 30" and "\<bar>dynam_count st\<bar> < 2 ^ 30"
    and "\<bar>static_count st\<bar> < 2 ^ 30" and "\<bar>tot_req_count st\<bar> < 2 ^ 30"
    and "st' = st\<lparr>tot_req_count := tot_req_count st + 1, static_count := static_count st + 1\<rparr>"
  shows "\<exists>c'. requestHandle fuel env connfd st time c = Inr (st', c') \<and>
           sent c' = sent c @ ''HTTP/1.0 200 OK'' @ crlf @ ''Server: OS-HW3 Web Server'' @ crlf @
             ''Content-Length: '' @ show_nat (st_size sb) @ crlf @
             ''Content-Type: '' @ requestGetFiletype filename @ crlf @ crlf @
             concat (stat_lines st' time (now_time env)) @ mapped env srcp (st_size sb)"
proof -
  obtain s where run: "requestHandle fuel env connfd st time c =
      requestDispatch env connfd uri (st\<lparr>tot_req_count := tot_req_count st + 1\<rparr>) time
        (c\<lparr>rio := fst s, inp := snd s\<rparr>)"
    using requestHandle_get [OF assms(1,2) strcasecmp_refl] by blast
  let ?c = "c\<lparr>rio := fst s, inp := snd s\<rparr>"
  have size: "signed_take_bit 31 (int (st_size sb)) = int (st_size sb)"
    using assms(8) by (intro signed_take_bit_int_eq_self) auto
  have len: "nat (int (st_size sb) mod 2 ^ 64) = st_size sb"
    using assms(8) by (simp add: mod_pos_pos_trivial)
  define hdr where "hdr = ''HTTP/1.0 200 OK'' @ crlf @ ''Server: OS-HW3 Web Server'' @ crlf @
             ''Content-Length: '' @ show_nat (st_size sb) @ crlf @
             ''Content-Type: '' @ requestGetFiletype filename @ crlf @ crlf @
             concat (stat_lines st' time (now_time env))"
  have "length (concat (stat_lines st' time (now_time env))) \<le> 400"
    using assms(15-19) by (intro stat_lines_length) auto
  note buf = static_header_fits(1) [OF assms(8) this, of filename, folded hdr_def]
    and ft = static_header_fits(2) [OF assms(8) this, of filename]
  obtain c1 where c1: "send hdr ?c = Inr c1" "sent c1 = sent c @ hdr" "patient (outp c1)"
    using send_patient [of ?c hdr] assms(3) by auto
  obtain c2 where c2: "send (mapped env srcp (st_size sb)) c1 = Inr c2"
      "sent c2 = sent c1 @ mapped env srcp (st_size sb)"
    using send_patient [OF c1(3)] by blast
  have sys: "Open (open_file env) filename 0 0 = Inr srcfd"
      "Mmap (mmap_file env) 0 (st_size sb) 1 2 srcfd 0 = Inr srcp"
      "Close (close_fd env) srcfd = Inr ()" "Munmap (munmap_file env) srcp (st_size sb) = Inr ()"
    using assms(9-14) by (simp_all add: Open_def Mmap_def Close_def Munmap_def)
  have "requestServeStatic env filename (int (st_size sb)) st' time ?c = Inr c2"
    unfolding requestServeStatic_def Let_def len
    by (simp only: rbind_Inr ft sys buf c1(1) c2(1))
  then have "requestDispatch env connfd uri (st\<lparr>tot_req_count := tot_req_count st + 1\<rparr>) time ?c =
      Inr (st', c2)"
    using assms(4-7,19) size by (simp add: requestDispatch_def Let_def)
  with run c1(2) c2(2) show ?thesis by (simp add: hdr_def)
qed

text \<open>
  C34. A \<open>GET\<close> for a readable regular file sends the status line, the server's name, the
  length and type of the file, a blank line, the statistics of the thread and the content of
  the file, and counts the request as static. The blank line stands before the statistics, so
  that a client reads them as the first bytes of the content.
\<close>

theorem requestHandle_static:
  fixes sb :: file_stat
  assumes "request_pending ''GET'' uri hdrs rest c" and "length hdrs + 1 < fuel"
    and "patient (outp c)"
    and "requestParseURI uri = Inr (1, filename, cgiargs)"
    and "stat_file env filename = Some sb" and "is_reg sb" and "r_usr sb"
    and "st_size sb < 2 ^ 31"
    and "srcfd = open_file env filename 0 0" and "0 \<le> srcfd"
    and "srcp = mmap_file env 0 (st_size sb) 1 2 srcfd 0" and "srcp \<noteq> -1"
    and "0 \<le> close_fd env srcfd" and "0 \<le> munmap_file env srcp (st_size sb)"
    and "\<bar>thread_id st\<bar> < 2 ^ 30" and "\<bar>dynam_count st\<bar> < 2 ^ 30"
    and "\<bar>static_count st\<bar> < 2 ^ 30" and "\<bar>tot_req_count st\<bar> < 2 ^ 30"
    and "st' = st\<lparr>tot_req_count := tot_req_count st + 1, static_count := static_count st + 1\<rparr>"
  shows "\<exists>c'. requestHandle fuel env connfd st time c = Inr (st', c') \<and>
           sent c' = sent c @ ''HTTP/1.0 200 OK'' @ crlf @ ''Server: OS-HW3 Web Server'' @ crlf @
             ''Content-Length: '' @ show_nat (st_size sb) @ crlf @
             ''Content-Type: '' @ requestGetFiletype filename @ crlf @ crlf @
             concat (stat_lines st' time (now_time env)) @ mapped env srcp (st_size sb)"
  using assms by (rule requestHandle_serves_static)

theorem requestHandle_static_witness:
  "\<exists>c'. requestHandle 5 (uniform_site ''hello'') 4 new_thread \<lparr>tv_sec = 1, tv_usec = 2\<rparr>
      (fresh_conn (''GET /a.html HTTP/1.0'' @ crlf @ crlf)) =
      Inr (new_thread\<lparr>tot_req_count := 1, static_count := 1\<rparr>, c')"
proof -
  let ?c = "fresh_conn (''GET /a.html HTTP/1.0'' @ crlf @ crlf)"
  let ?env = "uniform_site ''hello''"
  let ?sb = "\<lparr>is_reg = True, r_usr = True, x_usr = True, st_size = 5\<rparr>"
  have "request_pending ''GET'' ''/a.html'' [] [] ?c"
    by (simp add: request_pending_def fresh_conn_pending isspace_def MAXLINE_def)
  moreover have "requestParseURI ''/a.html'' = Inr (1, ''./public//a.html'', Some [])"
    by (simp add: requestParseURI_def put_str_def MAXLINE_def)
  moreover have "stat_file ?env ''./public//a.html'' = Some ?sb" "open_file ?env ''./public//a.html'' 0 0 = 9"
      "mmap_file ?env 0 5 1 2 9 0 = 4096" "close_fd ?env 9 = 0" "munmap_file ?env 4096 5 = 0"
    by (simp_all add: uniform_site_def empty_site_def)
  moreover have "patient (outp ?c)" by (rule fresh_conn_pending)
  ultimately show ?thesis
    using requestHandle_static [of "''/a.html''" "[]" "[]" ?c 5 "''./public//a.html''" "Some []" ?env
        ?sb 9 4096 new_thread "new_thread\<lparr>tot_req_count := 1, static_count := 1\<rparr>" 4
        "\<lparr>tv_sec = 1, tv_usec = 2\<rparr>"]
    by (simp add: new_thread_def) blast
qed

section \<open>Statistics and CGI programs\<close>

text \<open>
  Which requests are served, by the method, the URI and the attributes of the file the URI
  stands for: as static content, or by a CGI program.
\<close>

definition served_static :: "req_env \<Rightarrow> string \<Rightarrow> string \<Rightarrow> bool" where
  "served_static env method uri \<longleftrightarrow> strcasecmp_eq method ''GET'' \<and>
     (case requestParseURI uri of Inl _ \<Rightarrow> False
      | Inr (is_static, filename, _) \<Rightarrow> is_static \<noteq> 0 \<and>
          (case stat_file env filename of None \<Rightarrow> False | Some sb \<Rightarrow> is_reg sb \<and> r_usr sb))"

definition served_dynamic :: "req_env \<Rightarrow> string \<Rightarrow> string \<Rightarrow> bool" where
  "served_dynamic env method uri \<longleftrightarrow> strcasecmp_eq method ''GET'' \<and>
     (case requestParseURI uri of Inl _ \<Rightarrow> False
      | Inr (is_static, filename, _) \<Rightarrow> is_static = 0 \<and>
          (case stat_file env filename of None \<Rightarrow> False | Some sb \<Rightarrow> is_reg sb \<and> x_usr sb))"

lemma served_exclusive: "\<not> (served_static env method uri \<and> served_dynamic env method uri)"
  by (auto simp: served_static_def served_dynamic_def split: sum.splits)

lemma requestDispatch_counts:
  assumes "requestDispatch env connfd uri st time c = Inr (st', c')" and "strcasecmp_eq method ''GET''"
  shows "st' = st\<lparr>static_count := static_count st + of_bool (served_static env method uri),
                   dynam_count := dynam_count st + of_bool (served_dynamic env method uri)\<rparr>"
proof -
  obtain i f a where p: "requestParseURI uri = Inr (i, f, a)"
    using assms(1) by (cases "requestParseURI uri") (auto simp: requestDispatch_def)
  show ?thesis
  proof (cases "stat_file env f")
    case None
    then have "st' = st" using assms(1) p by (auto simp: requestDispatch_def result_simps)
    with None p show ?thesis by (simp add: served_static_def served_dynamic_def)
  next
    case (Some sb)
    have "st' = st\<lparr>static_count := static_count st + of_bool (i \<noteq> 0 \<and> is_reg sb \<and> r_usr sb),
                   dynam_count := dynam_count st + of_bool (i = 0 \<and> is_reg sb \<and> x_usr sb)\<rparr>"
      using assms(1) p Some
      by (cases "i = 0"; cases a)
        (simp_all add: requestDispatch_def result_simps Let_def split: if_splits, auto)
    with Some p assms(2) show ?thesis by (simp add: served_static_def served_dynamic_def)
  qed
qed

text \<open>
  C36. Statistics: a complete request that is handled (with any method, for any URI) counts
  once in the total, counts as static exactly when a readable regular file is served for it
  and as dynamic exactly when an executable regular file is run for it, and as neither when it
  is refused; the identity of the thread is kept, and the static and dynamic counts together
  never exceed the total.
\<close>

theorem requestHandle_counts:
  assumes "request_pending method uri hdrs rest c" and "length hdrs + 1 < fuel"
    and handled: "requestHandle fuel env connfd st time c = Inr (st', c')"
  shows "st' = st\<lparr>tot_req_count := tot_req_count st + 1,
                   static_count := static_count st + of_bool (served_static env method uri),
                   dynam_count := dynam_count st + of_bool (served_dynamic env method uri)\<rparr> \<and>
         (static_count st + dynam_count st \<le> tot_req_count st \<longrightarrow>
            static_count st' + dynam_count st' \<le> tot_req_count st')"
proof -
  have "st' = st\<lparr>tot_req_count := tot_req_count st + 1,
                   static_count := static_count st + of_bool (served_static env method uri),
                   dynam_count := dynam_count st + of_bool (served_dynamic env method uri)\<rparr>"
  proof (cases "strcasecmp_eq method ''GET''")
    case True
    obtain s where "requestHandle fuel env connfd st time c =
        requestDispatch env connfd uri (st\<lparr>tot_req_count := tot_req_count st + 1\<rparr>) time
          (c\<lparr>rio := fst s, inp := snd s\<rparr>)"
      using requestHandle_get [OF assms(1,2) True] by blast
    from requestDispatch_counts [OF this [symmetric, unfolded handled] True] show ?thesis by simp
  next
    case False
    with requestHandle_parsed [OF assms(1), of connfd] handled show ?thesis
      by (auto simp: requestHandle_def Let_def result_simps served_static_def served_dynamic_def)
  qed
  then show ?thesis using served_exclusive [of env _ uri] by (auto simp: of_bool_def)
qed

theorem requestHandle_counts_witness:
  "\<exists>st' c'. requestHandle 5 (uniform_site ''hello'') 4 new_thread \<lparr>tv_sec = 1, tv_usec = 2\<rparr>
      (fresh_conn (''GET /a.html HTTP/1.0'' @ crlf @ crlf)) = Inr (st', c') \<and>
    served_static (uniform_site ''hello'') ''GET'' ''/a.html'' \<and>
    tot_req_count st' = 1 \<and> static_count st' = 1 \<and> dynam_count st' = 0"
proof -
  let ?c = "fresh_conn (''GET /a.html HTTP/1.0'' @ crlf @ crlf)"
  let ?env = "uniform_site ''hello''"
  have req: "request_pending ''GET'' ''/a.html'' [] [] ?c"
    by (simp add: request_pending_def fresh_conn_pending isspace_def MAXLINE_def)
  have parse: "requestParseURI ''/a.html'' = Inr (1, ''./public//a.html'', Some [])"
    by (simp add: requestParseURI_def put_str_def MAXLINE_def)
  have kind: "served_static ?env ''GET'' ''/a.html''" "\<not> served_dynamic ?env ''GET'' ''/a.html''"
    by (simp_all add: served_static_def served_dynamic_def parse uniform_site_def)
  have site: "stat_file ?env ''./public//a.html'' = Some \<lparr>is_reg = True, r_usr = True, x_usr = True, st_size = 5\<rparr>"
      "open_file ?env ''./public//a.html'' 0 0 = 9" "mmap_file ?env 0 5 1 2 9 0 = 4096"
      "close_fd ?env 9 = 0" "munmap_file ?env 4096 5 = 0"
    by (simp_all add: uniform_site_def empty_site_def)
  obtain st' c' where run: "requestHandle 5 ?env 4 new_thread \<lparr>tv_sec = 1, tv_usec = 2\<rparr> ?c = Inr (st', c')"
    using requestHandle_serves_static [OF req _ fresh_conn_pending(4) parse site(1), of 5 9 4096
        new_thread _ 4 "\<lparr>tv_sec = 1, tv_usec = 2\<rparr>"] site(2-)
    by (simp add: new_thread_def) blast
  from requestHandle_counts [OF req _ run] kind run show ?thesis by (auto simp: new_thread_def)
qed

text \<open>
  In the parent the assignment \<open>pid = Fork() == 0\<close> stores the value of the
  comparison: whatever process was created, the server waits for process 0, that is for any
  child of its group, and not for the CGI program it just started.
\<close>

theorem requestServeDynamic_waits:
  assumes "requestServeDynamic env connfd filename cgiargs st time c = Inr c'"
  shows "0 < fork_pid env \<and> waited c' = waited c @ [0]"
  using assms unfolding requestServeDynamic_def
  by (auto simp: result_simps Let_def Fork_def Execve_def unix_error_def send_def split: if_splits)

theorem requestServeDynamic_waits_witness:
  "\<exists>c'. requestServeDynamic empty_site 4 ''./public/output.cgi'' ''5'' new_thread
      \<lparr>tv_sec = 1, tv_usec = 2\<rparr> (fresh_conn []) = Inr c' \<and> waited c' = [0]"
proof -
  let ?t = "\<lparr>tv_sec = 1, tv_usec = 2\<rparr>"
  have "append_all MAXLINE [] ([''HTTP/1.0 200 OK'' @ crlf, ''Server: OS-HW3 Web Server'' @ crlf]
         @ stat_lines new_thread ?t (now_time empty_site)) =
        Inr (concat ([''HTTP/1.0 200 OK'' @ crlf, ''Server: OS-HW3 Web Server'' @ crlf]
         @ stat_lines new_thread ?t (now_time empty_site)))"
    using length_show_lu [of 1] length_show_06lu [of 2] length_show_lu [of 4]
      length_show_06lu [of "-2"] length_show_int [of 0]
    by (subst append_all_eq) (simp_all add: stat_lines_def new_thread_def empty_site_def MAXLINE_def)
  moreover obtain c1 where "send (concat ([''HTTP/1.0 200 OK'' @ crlf, ''Server: OS-HW3 Web Server'' @ crlf]
         @ stat_lines new_thread ?t (now_time empty_site))) (fresh_conn []) = Inr c1"
    using send_patient [OF fresh_conn_pending(4)] by blast
  moreover have "Fork (fork_pid empty_site) = Inr 77" by (simp add: Fork_def empty_site_def)
  ultimately have "requestServeDynamic empty_site 4 ''./public/output.cgi'' ''5'' new_thread
      ?t (fresh_conn []) = Inr (c1\<lparr>waited := waited c1 @ [0]\<rparr>)"
    unfolding requestServeDynamic_def by (simp only: rbind_Inr) simp
  with requestServeDynamic_waits [OF this] show ?thesis by (auto simp: fresh_conn_def)
qed

end
