(* ===== verification/Server.thy ===== *)
theory Server
  imports Request
begin

text \<open>
  The threads of the web server, \<^verbatim>\<open>server.c\<close>: a master that accepts connections and a pool
  of workers that share the request queue, three counters, a mutex and a condition variable.
  Each thread is a program counter with its local variables; one step is one statement or one
  library call, and \<open>srv_step\<close> interleaves the steps of all threads. The counters are
  integers without wrap-around: \<open>server_dt_counters\<close> bounds them by \<open>QmaxSize\<close>.
\<close>

section \<open>State\<close>

datatype tid = Master | Worker nat

datatype worker_pc =
    W_lock          \<comment> \<open>\<open>pthread_mutex_lock\<close> at the top of the loop\<close>
  | W_deq           \<comment> \<open>the call of \<open>dequeue\<close> in the loop condition\<close>
  | W_wait          \<comment> \<open>asleep in \<open>pthread_cond_wait\<close>\<close>
  | W_wake          \<comment> \<open>woken, acquiring the mutex again\<close>
  | W_dec | W_inc   \<comment> \<open>the two counter updates\<close>
  | W_unlock | W_handle | W_relock
  | W_done          \<comment> \<open>\<open>currently_handled--\<close>\<close>
  | W_bcast | W_close | W_unlock2

datatype overload_pc =
    HO_enter
  | HO_block_lock | HO_block_test | HO_block_wait | HO_block_wake
  | HO_dh_lock | HO_dh
  | HO_random_lock | HO_random
  | HO_unlock

datatype master_pc =
    M_accept | M_lock | M_check | M_overload overload_pc | M_enq | M_count | M_unlock

record worker =
  wpc :: worker_pc
  fd_request :: ptr
  wtime :: timeval
  thread_st :: stat_thread

text \<open>Where a fault that ends the process occurs.\<close>

datatype origin = In_main | In_worker | In_handler

text \<open>
  \<open>policy\<close> is \<open>argv[4]\<close>, \<^term>\<open>None\<close> when the argument is missing. \<open>enqueued\<close> and
  \<open>dispatched\<close> log the requests that entered and left the queue.
\<close>

record srv =
  q :: fifo
  queue_size :: int
  QmaxSize :: int
  currently_handled :: int
  mutex :: "tid option"
  policy :: "string option"
  mpc :: master_pc
  connfd :: int
  fdConnec :: ptr
  mtime :: timeval
  workers :: "worker list"
  crash :: "(origin \<times> abort) option"
  enqueued :: "(int \<times> timeval) list"
  dispatched :: "(int \<times> timeval) list"

section \<open>Synchronisation\<close>

text \<open>
  \<open>pthread_mutex_lock\<close> blocks (\<^term>\<open>None\<close>) while the mutex is held. Unlocking a mutex that
  the thread does not own is undefined.
\<close>

definition fault :: "origin \<Rightarrow> abort \<Rightarrow> srv \<Rightarrow> srv" where
  "fault w e s = s\<lparr>crash := Some (w, e)\<rparr>"

definition run :: "origin \<Rightarrow> 'a res \<Rightarrow> srv \<Rightarrow> ('a \<Rightarrow> srv) \<Rightarrow> srv" where
  "run w r s k = (case r of Inl e \<Rightarrow> fault w e s | Inr x \<Rightarrow> k x)"

definition mutex_lock :: "tid \<Rightarrow> srv \<Rightarrow> srv option" where
  "mutex_lock t s = (if mutex s = None then Some (s\<lparr>mutex := Some t\<rparr>) else None)"

definition mutex_unlock :: "origin \<Rightarrow> tid \<Rightarrow> srv \<Rightarrow> srv" where
  "mutex_unlock w t s = (if mutex s = Some t then s\<lparr>mutex := None\<rparr> else fault w MutexMisuse s)"

definition wake_worker :: "worker \<Rightarrow> worker" where
  "wake_worker w = (if wpc w = W_wait then w\<lparr>wpc := W_wake\<rparr> else w)"

definition broadcast :: "srv \<Rightarrow> srv" where
  "broadcast s = s\<lparr>workers := map wake_worker (workers s),
     mpc := (if mpc s = M_overload HO_block_wait then M_overload HO_block_wake else mpc s)\<rparr>"

definition goto_w :: "nat \<Rightarrow> worker_pc \<Rightarrow> srv \<Rightarrow> srv" where
  "goto_w i pc s = s\<lparr>workers := (workers s)[i := (workers s ! i)\<lparr>wpc := pc\<rparr>]\<rparr>"

definition goto_m :: "master_pc \<Rightarrow> srv \<Rightarrow> srv" where
  "goto_m pc s = s\<lparr>mpc := pc\<rparr>"

definition close_log :: "int \<Rightarrow> fifo \<Rightarrow> fifo" where
  "close_log v f = f\<lparr>closed := closed f @ [CloseFd v]\<rparr>"

text \<open>\<open>close(*p); free(p);\<close>\<close>

definition close_free :: "ptr \<Rightarrow> fifo \<Rightarrow> fifo res" where
  "close_free p f =
     rbind (deref (int_st f) p) (\<lambda>v.
     rbind (free_ptr (int_st f) p) (\<lambda>ist.
       Inr (close_log v (f\<lparr>int_st := ist\<rparr>))))"

section \<open>Worker threads\<close>

text \<open>
  One step of \<open>thread_function\<close> in worker \<open>i\<close>. The argument \<open>(fuel, env, c)\<close> is what the
  world contributes to a call of \<open>requestHandle\<close>; with too little fuel the call does not
  return in this step. \<^term>\<open>None\<close>: the thread cannot move.
\<close>

definition thread_function :: "nat \<Rightarrow> nat \<times> req_env \<times> conn \<Rightarrow> srv \<Rightarrow> srv option" where
  "thread_function i ev s =
     (if crash s \<noteq> None \<or> length (workers s) \<le> i then None
      else let w = workers s ! i in
        case wpc w of
          W_lock \<Rightarrow> map_option (goto_w i W_deq) (mutex_lock (Worker i) s)
        | W_deq \<Rightarrow>
            Some (run In_worker (dequeue (Some (wtime w)) (q s)) s (\<lambda>(p, t, q').
              if p = None then goto_w i W_wait (s\<lparr>q := q', mutex := None\<rparr>)
              else run In_worker (deref (int_st q') p) s (\<lambda>v.
                s\<lparr>q := q', dispatched := dispatched s @ [(v, the t)],
                  workers := (workers s)[i := w\<lparr>wpc := W_dec, fd_request := p, wtime := the t\<rparr>]\<rparr>)))
        | W_wait \<Rightarrow> None
        | W_wake \<Rightarrow> map_option (goto_w i W_deq) (mutex_lock (Worker i) s)
        | W_dec \<Rightarrow> Some (goto_w i W_inc (s\<lparr>queue_size := queue_size s - 1\<rparr>))
        | W_inc \<Rightarrow> Some (goto_w i W_unlock (s\<lparr>currently_handled := currently_handled s + 1\<rparr>))
        | W_unlock \<Rightarrow> Some (goto_w i W_handle (mutex_unlock In_worker (Worker i) s))
        | W_handle \<Rightarrow>
            (case ev of (fuel, env, c) \<Rightarrow>
              case deref (int_st (q s)) (fd_request w) of
                Inl e \<Rightarrow> Some (fault In_worker e s)
              | Inr v \<Rightarrow>
                  (case requestHandle fuel env v (thread_st w) (wtime w) c of
                     Inl OutOfFuel \<Rightarrow> None
                   | Inl e \<Rightarrow> Some (fault In_handler e s)
                   | Inr (st, _) \<Rightarrow>
                       Some (s\<lparr>workers := (workers s)[i := w\<lparr>wpc := W_relock, thread_st := st\<rparr>]\<rparr>)))
        | W_relock \<Rightarrow> map_option (goto_w i W_done) (mutex_lock (Worker i) s)
        | W_done \<Rightarrow> Some (goto_w i W_bcast (s\<lparr>currently_handled := currently_handled s - 1\<rparr>))
        | W_bcast \<Rightarrow>
            Some (goto_w i W_close
              (if currently_handled s + queue_size s = QmaxSize s \<or>
                  currently_handled s + queue_size s = QmaxSize s - 1
               then broadcast s else s))
        | W_close \<Rightarrow>
            Some (run In_worker (close_free (fd_request w) (q s)) s (\<lambda>q'.
              goto_w i W_unlock2 (s\<lparr>q := q'\<rparr>)))
        | W_unlock2 \<Rightarrow> Some (goto_w i W_lock (mutex_unlock In_worker (Worker i) s)))"

section \<open>The master thread\<close>

text \<open>
  One step of \<open>handle_overload\<close>; it returns to the master by setting the counter to
  \<open>M_enq\<close>. \<open>rnd\<close> is the sequence of values \<open>rand()\<close> gives to this call.
\<close>

definition handle_overload :: "string \<Rightarrow> (nat \<Rightarrow> int) \<Rightarrow> overload_pc \<Rightarrow> srv \<Rightarrow> srv option" where
  "handle_overload pol rnd pc s =
     (case pc of
        HO_enter \<Rightarrow>
          Some (goto_m (if pol = ''block'' then M_overload HO_block_lock
                        else if pol = ''dh'' then M_overload HO_dh_lock
                        else if pol = ''random'' then M_overload HO_random_lock
                        else M_enq) s)
      | HO_block_lock \<Rightarrow> map_option (goto_m (M_overload HO_block_test)) (mutex_lock Master s)
      | HO_block_test \<Rightarrow>
          Some (if queue_size s + currently_handled s = QmaxSize s
                then goto_m (M_overload HO_block_wait) (s\<lparr>mutex := None\<rparr>)
                else goto_m (M_overload HO_unlock) s)
      | HO_block_wait \<Rightarrow> None
      | HO_block_wake \<Rightarrow> map_option (goto_m (M_overload HO_block_test)) (mutex_lock Master s)
      | HO_dh_lock \<Rightarrow> map_option (goto_m (M_overload HO_dh)) (mutex_lock Master s)
      | HO_dh \<Rightarrow>
          Some (run In_main (dequeue None (q s)) s (\<lambda>(tmp, _, q').
            run In_main (close_free tmp q') s (\<lambda>q''.
              goto_m (M_overload HO_unlock) (s\<lparr>q := q'', queue_size := queue_size s - 1\<rparr>))))
      | HO_random_lock \<Rightarrow> map_option (goto_m (M_overload HO_random)) (mutex_lock Master s)
      | HO_random \<Rightarrow>
          Some (if queue_size s + currently_handled s = QmaxSize s
                then run In_main (random_drop rnd (queue_size s) (q s)) s (\<lambda>(_, q').
                  goto_m (M_overload HO_unlock) (s\<lparr>q := q', queue_size :=
                    (if queue_size s smod 4 = 0 then 3 * (queue_size s sdiv 4)
                     else queue_size s - queue_size s sdiv 4 + 1)\<rparr>))
                else goto_m (M_overload HO_unlock) s)
      | HO_unlock \<Rightarrow> Some (goto_m M_enq (mutex_unlock In_main Master s)))"

text \<open>
  One step of the loop of \<open>main\<close>. \<open>strcmp(argv[4], ...)\<close> with a missing argument reads
  through a null pointer. The inputs are the result of \<open>accept\<close>, the time of arrival, the
  results of \<open>rand()\<close> and the result of \<open>close\<close>.
\<close>

record world =
  accepted :: int
  arrival :: timeval
  rands :: "nat \<Rightarrow> int"
  close_rc :: int

definition main_loop :: "world \<Rightarrow> srv \<Rightarrow> srv option" where
  "main_loop ev s =
     (if crash s \<noteq> None then None
      else case mpc s of
        M_accept \<Rightarrow>
          Some (run In_main
            (rbind (if accepted ev < 0 then unix_error ''Accept error'' else Inr (accepted ev)) (\<lambda>v.
             rbind (malloc_init v (int_st (q s))) (\<lambda>(p, ist). Inr (v, p, ist)))) s (\<lambda>(v, p, ist).
              goto_m M_lock (s\<lparr>connfd := v, fdConnec := Some p, mtime := arrival ev,
                q := (q s)\<lparr>int_st := ist\<rparr>\<rparr>)))
      | M_lock \<Rightarrow> map_option (goto_m M_check) (mutex_lock Master s)
      | M_check \<Rightarrow>
          Some (if currently_handled s = QmaxSize s \<and> policy s = None then fault In_main NullDeref s
          else if currently_handled s = QmaxSize s \<and> policy s \<noteq> Some ''block'' then
            run In_main (free_ptr (int_st (q s)) (fdConnec s)) s (\<lambda>ist.
              goto_m M_unlock (s\<lparr>q := close_log (connfd s) ((q s)\<lparr>int_st := ist\<rparr>)\<rparr>))
          else if queue_size s + currently_handled s = QmaxSize s then
            (case policy s of None \<Rightarrow> fault In_main NullDeref s
             | Some pol \<Rightarrow>
                 if pol = ''dt'' then
                   run In_main
                     (rbind (deref (int_st (q s)) (fdConnec s)) (\<lambda>v.
                      rbind (Close (\<lambda>_. close_rc ev) v) (\<lambda>_. close_free (fdConnec s) (q s)))) s (\<lambda>q'.
                     goto_m M_unlock (s\<lparr>q := q'\<rparr>))
                 else goto_m (M_overload HO_enter) (mutex_unlock In_main Master s))
          else goto_m M_enq s)
      | M_overload pc \<Rightarrow>
          (case policy s of None \<Rightarrow> None | Some pol \<Rightarrow> handle_overload pol (rands ev) pc s)
      | M_enq \<Rightarrow>
          Some (run In_main (enqueue (fdConnec s) (mtime s) (q s)) s (\<lambda>q'.
            goto_m M_count (s\<lparr>q := q', enqueued := enqueued s @ [(connfd s, mtime s)]\<rparr>)))
      | M_count \<Rightarrow>
          Some (let s' = goto_m M_unlock (s\<lparr>queue_size := queue_size s + 1\<rparr>) in
            if queue_size s' + currently_handled s' = 1 then broadcast s' else s')
      | M_unlock \<Rightarrow> Some (goto_m M_accept (mutex_unlock In_main Master s)))"

section \<open>Start of the program\<close>

text \<open>
  \<open>getargs\<close> stops with a usage message when the port is missing; \<open>main\<close> then converts
  the two sizes without a check, and a missing argument is a null pointer.
\<close>

definition getargs :: "string list \<Rightarrow> int res" where
  "getargs argv =
     (case argv of
        _ # port # _ \<Rightarrow> Inr (atoi port)
      | [argv0] \<Rightarrow> Inl (Exited 1 (''Usage: '' @ argv0 @ '' <port>''))
      | [] \<Rightarrow> Inl NullDeref)"

definition argv_atoi :: "string list \<Rightarrow> nat \<Rightarrow> int res" where
  "argv_atoi argv i = (if i < length argv then Inr (atoi (argv ! i)) else Inl NullDeref)"

definition Create_thread_pool :: "int \<Rightarrow> worker list" where
  "Create_thread_pool poolSize =
     map (\<lambda>i. \<lparr>wpc = W_lock, fd_request = None, wtime = \<lparr>tv_sec = 0, tv_usec = 0\<rparr>,
                 thread_st = \<lparr>thread_id = int i, dynam_count = 0, static_count = 0,
                              tot_req_count = 0\<rparr>\<rparr>)
       [0..<nat poolSize]"

text \<open>
  \<open>main\<close> up to its loop. The pool is complete before the first connection; until then the
  workers only find an empty queue. \<open>lim\<close> bounds the number of allocations.
\<close>

definition main_start :: "net \<Rightarrow> nat \<Rightarrow> string list \<Rightarrow> (int \<times> srv) res" where
  "main_start n lim argv =
     rbind (getargs argv) (\<lambda>port.
     rbind (argv_atoi argv 2) (\<lambda>poolSize.
     rbind (argv_atoi argv 3) (\<lambda>qmax.
     let pool = Create_thread_pool poolSize in
     rbind (Open_listenfd n (nat (port mod 2 ^ 16))) (\<lambda>listenfd.
       Inr (listenfd,
            \<lparr>q = init_fifo lim, queue_size = 0, QmaxSize = qmax, currently_handled = 0,
             mutex = None, policy = (if 4 < length argv then Some (argv ! 4) else None),
             mpc = M_accept, connfd = 0, fdConnec = None, mtime = \<lparr>tv_sec = 0, tv_usec = 0\<rparr>,
             workers = pool, crash = None, enqueued = [], dispatched = []\<rparr>)))))"

section \<open>Interleavings\<close>

inductive srv_step :: "srv \<Rightarrow> srv \<Rightarrow> bool" where
  master: "main_loop ev s = Some s' \<Longrightarrow> srv_step s s'"
| worker: "thread_function i ev s = Some s' \<Longrightarrow> srv_step s s'"
| spurious_worker:
    "crash s = None \<Longrightarrow> i < length (workers s) \<Longrightarrow> wpc (workers s ! i) = W_wait \<Longrightarrow>
     srv_step s (goto_w i W_wake s)"
| spurious_master:
    "crash s = None \<Longrightarrow> mpc s = M_overload HO_block_wait \<Longrightarrow>
     srv_step s (goto_m (M_overload HO_block_wake) s)"

inductive srv_reachable :: "srv \<Rightarrow> srv \<Rightarrow> bool" for s0 where
  start: "srv_reachable s0 s0"
| step: "srv_reachable s0 s \<Longrightarrow> srv_step s s' \<Longrightarrow> srv_reachable s0 s'"

text \<open>A server that has just started with the given policy.\<close>

definition srv_init :: "string \<Rightarrow> int \<Rightarrow> int \<Rightarrow> nat \<Rightarrow> srv" where
  "srv_init pol poolSize qmax lim =
     \<lparr>q = init_fifo lim, queue_size = 0, QmaxSize = qmax, currently_handled = 0,
      mutex = None, policy = Some pol, mpc = M_accept, connfd = 0, fdConnec = None,
      mtime = \<lparr>tv_sec = 0, tv_usec = 0\<rparr>, workers = Create_thread_pool poolSize, crash = None,
      enqueued = [], dispatched = []\<rparr>"

text \<open>A schedule, for concrete runs: which thread moves, with what input.\<close>

datatype move = Main world | Thread nat "nat \<times> req_env \<times> conn"

primrec move_step :: "move \<Rightarrow> srv \<Rightarrow> srv option" where
  "move_step (Main ev) s = main_loop ev s"
| "move_step (Thread i ev) s = thread_function i ev s"

fun play :: "move list \<Rightarrow> srv \<Rightarrow> srv option" where
  "play [] s = Some s"
| "play (m # ms) s = (case move_step m s of None \<Rightarrow> None | Some s' \<Rightarrow> play ms s')"

lemma move_step_srv_step: "move_step m s = Some s' \<Longrightarrow> srv_step s s'"
  by (cases m) (auto intro: srv_step.master srv_step.worker)

lemma play_reachable: "srv_reachable s0 s \<Longrightarrow> play ms s = Some s' \<Longrightarrow> srv_reachable s0 s'"
  by (induction ms arbitrary: s)
    (auto split: option.splits dest: move_step_srv_step intro: srv_reachable.step)

end
