(* ===== verification/Server_Inv.thy ===== *)
theory Server_Inv
  imports Server
begin

text \<open>
  Safety of the threads of \<^verbatim>\<open>server.c\<close>. Under the policy \<open>dt\<close> an invariant of all
  interleavings (ownership of the mutex, of descriptor cells and of the queue, exact counters,
  no sleeping pool) gives the properties below; the other policies leave the critical section
  and are treated at the end.
\<close>

section \<open>Invariant of the drop-tail server\<close>

text \<open>Program points inside the critical sections, and those where a cell is owned.\<close>

definition in_cs_w :: "worker_pc \<Rightarrow> bool" where
  "in_cs_w pc \<longleftrightarrow> pc \<in> {W_deq, W_dec, W_inc, W_unlock, W_done, W_bcast, W_close, W_unlock2}"

definition in_cs_m :: "master_pc \<Rightarrow> bool" where
  "in_cs_m pc \<longleftrightarrow> pc \<in> {M_check, M_enq, M_count, M_unlock}"

definition holds_w :: "worker_pc \<Rightarrow> bool" where
  "holds_w pc \<longleftrightarrow> pc \<in> {W_dec, W_inc, W_unlock, W_handle, W_relock, W_done, W_bcast, W_close}"

definition holds_m :: "master_pc \<Rightarrow> bool" where
  "holds_m pc \<longleftrightarrow> pc \<in> {M_lock, M_check, M_enq}"

text \<open>Workers between the two updates of \<open>currently_handled\<close>.\<close>

definition busy :: "worker_pc \<Rightarrow> bool" where
  "busy pc \<longleftrightarrow> pc \<in> {W_unlock, W_handle, W_relock, W_done}"

lemmas pc_simps = in_cs_w_def in_cs_m_def holds_w_def holds_m_def busy_def

definition num :: "(worker_pc \<Rightarrow> bool) \<Rightarrow> worker list \<Rightarrow> int" where
  "num P ws = int (length (filter (\<lambda>w. P (wpc w)) ws))"

definition inv_lock :: "srv \<Rightarrow> bool" where
  "inv_lock s \<longleftrightarrow> policy s = Some ''dt'' \<and> (\<forall>pc. mpc s \<noteq> M_overload pc) \<and>
     (mutex s = Some Master \<longleftrightarrow> in_cs_m (mpc s)) \<and>
     (\<forall>i. mutex s = Some (Worker i) \<longleftrightarrow> i < length (workers s) \<and> in_cs_w (wpc (workers s ! i)))"

text \<open>The descriptor cell that a thread owns; owned cells are distinct and not in the queue.\<close>

fun owned :: "srv \<Rightarrow> tid \<Rightarrow> ptr" where
  "owned s Master = (if holds_m (mpc s) then fdConnec s else None)"
| "owned s (Worker i) =
     (if i < length (workers s) \<and> holds_w (wpc (workers s ! i)) then fd_request (workers s ! i)
      else None)"

definition own_ok :: "(tid \<Rightarrow> ptr) \<Rightarrow> int store \<Rightarrow> entry list \<Rightarrow> bool" where
  "own_ok own ist es \<longleftrightarrow>
     (\<forall>t a. own t = Some a \<longrightarrow> a \<notin> set (fds_of es) \<and> cells ist a \<noteq> None) \<and>
     (\<forall>t t' a. own t = Some a \<longrightarrow> own t' = Some a \<longrightarrow> t = t')"

definition inv_heap :: "srv \<Rightarrow> entry list \<Rightarrow> bool" where
  "inv_heap s es \<longleftrightarrow> fifo_inv (q s) es \<and> own_ok (owned s) (int_st (q s)) es \<and>
     (holds_m (mpc s) \<longrightarrow> (\<exists>a. fdConnec s = Some a \<and> cells (int_st (q s)) a = Some (connfd s))) \<and>
     (\<forall>i < length (workers s). holds_w (wpc (workers s ! i)) \<longrightarrow> fd_request (workers s ! i) \<noteq> None)"

definition inv_count :: "srv \<Rightarrow> entry list \<Rightarrow> bool" where
  "inv_count s es \<longleftrightarrow>
     queue_size s = int (length es) + num (\<lambda>pc. pc = W_dec) (workers s) -
       (if mpc s = M_count then 1 else 0) \<and>
     currently_handled s = num busy (workers s) \<and>
     queue_size s + currently_handled s + num (\<lambda>pc. pc = W_inc) (workers s) \<le> QmaxSize s \<and>
     (mpc s \<in> {M_enq, M_count} \<longrightarrow> queue_size s + currently_handled s < QmaxSize s)"

definition inv_awake :: "srv \<Rightarrow> entry list \<Rightarrow> bool" where
  "inv_awake s es \<longleftrightarrow>
     (workers s \<noteq> [] \<and> list_all (\<lambda>w. wpc w = W_wait) (workers s) \<longrightarrow>
        es = [] \<or> mpc s = M_count \<and> length es = 1)"

definition inv_log :: "srv \<Rightarrow> entry list \<Rightarrow> bool" where
  "inv_log s es \<longleftrightarrow> enqueued s = dispatched s @ requests_of es"

definition dt_inv :: "srv \<Rightarrow> entry list \<Rightarrow> bool" where
  "dt_inv s es \<longleftrightarrow> inv_lock s \<and> inv_heap s es \<and> inv_count s es \<and> inv_awake s es \<and> inv_log s es"

lemmas inv_defs = inv_lock_def inv_heap_def inv_count_def inv_awake_def inv_log_def

lemma num_update:
  "i < length ws \<Longrightarrow> num P (ws[i := w]) =
     num P ws - (if P (wpc (ws ! i)) then 1 else 0) + (if P (wpc w) then 1 else 0)"
proof (induction ws arbitrary: i)
  case (Cons x ws)
  then show ?case
  proof (cases i)
    case (Suc j)
    with Cons.IH [of j] Cons.prems show ?thesis
      by (cases "P (wpc (ws ! j))"; cases "P (wpc w)") (simp_all add: num_def)
  qed (simp add: num_def)
qed simp

lemma num_wake:
  "P W_wait = P W_wake \<Longrightarrow> num P (map wake_worker ws) = num P ws"
  by (induction ws) (auto simp: num_def wake_worker_def)

lemma num_ge0 [simp]: "0 \<le> num P ws"
  by (simp add: num_def)

lemma num_zero: "(\<And>i. i < length ws \<Longrightarrow> \<not> P (wpc (ws ! i))) \<Longrightarrow> num P ws = 0"
  by (auto simp: num_def filter_empty_conv in_set_conv_nth)

lemma wake_worker_sel [simp]:
  "fd_request (wake_worker w) = fd_request w" "thread_st (wake_worker w) = thread_st w"
  "wpc (wake_worker w) = (if wpc w = W_wait then W_wake else wpc w)"
  by (simp_all add: wake_worker_def)

lemma list_all_update_other:
  "i < length ws \<Longrightarrow> \<not> P w \<Longrightarrow> \<not> list_all P (ws[i := w])"
  by (auto simp: list_all_length)

lemmas srv_ops = goto_w_def goto_m_def run_def fault_def mutex_lock_def mutex_unlock_def
  broadcast_def close_log_def

lemma fifo_inv_close_log [simp]: "fifo_inv (f\<lparr>closed := l\<rparr>) es = fifo_inv f es"
  by (simp add: fifo_inv_def)

lemma worker_runs:
  assumes "thread_function i ev s = Some s'"
  shows "crash s = None" and "\<not> length (workers s) \<le> i"
proof -
  have "\<not> (crash s \<noteq> None \<or> length (workers s) \<le> i)"
  proof
    assume "crash s \<noteq> None \<or> length (workers s) \<le> i"
    then have "thread_function i ev s = None" unfolding thread_function_def by (rule if_P)
    with assms show False by simp
  qed
  then show "crash s = None" "\<not> length (workers s) \<le> i" by blast+
qed

text \<open>What a step of a worker does when it causes no fault.\<close>

lemma worker_cases:
  assumes step: "thread_function i ev s = Some s'" and ok: "crash s' = None"
    and w: "w = workers s ! i"
  obtains (lock) "wpc w \<in> {W_lock, W_wake}" "mutex s = None"
      "s' = goto_w i W_deq (s\<lparr>mutex := Some (Worker i)\<rparr>)"
  | (sleep) t q' where "wpc w = W_deq" "dequeue (Some (wtime w)) (q s) = Inr (None, t, q')"
      "s' = goto_w i W_wait (s\<lparr>q := q', mutex := None\<rparr>)"
  | (take) p t q' v where "wpc w = W_deq" "dequeue (Some (wtime w)) (q s) = Inr (Some p, t, q')"
      "deref (int_st q') (Some p) = Inr v"
      "s' = s\<lparr>q := q', dispatched := dispatched s @ [(v, the t)],
         workers := (workers s)[i := w\<lparr>wpc := W_dec, fd_request := Some p, wtime := the t\<rparr>]\<rparr>"
  | (dec) "wpc w = W_dec" "s' = goto_w i W_inc (s\<lparr>queue_size := queue_size s - 1\<rparr>)"
  | (inc) "wpc w = W_inc" "s' = goto_w i W_unlock (s\<lparr>currently_handled := currently_handled s + 1\<rparr>)"
  | (unlock) "wpc w = W_unlock" "mutex s = Some (Worker i)" "s' = goto_w i W_handle (s\<lparr>mutex := None\<rparr>)"
  | (handle) st where "wpc w = W_handle"
      "s' = s\<lparr>workers := (workers s)[i := w\<lparr>wpc := W_relock, thread_st := st\<rparr>]\<rparr>"
  | (relock) "wpc w = W_relock" "mutex s = None" "s' = goto_w i W_done (s\<lparr>mutex := Some (Worker i)\<rparr>)"
  | (finish) "wpc w = W_done" "s' = goto_w i W_bcast (s\<lparr>currently_handled := currently_handled s - 1\<rparr>)"
  | (bcast) "wpc w = W_bcast" "s' = goto_w i W_close (broadcast s)"
  | (quiet) "wpc w = W_bcast" "s' = goto_w i W_close s"
  | (close) q' where "wpc w = W_close" "close_free (fd_request w) (q s) = Inr q'"
      "s' = goto_w i W_unlock2 (s\<lparr>q := q'\<rparr>)"
  | (unlock2) "wpc w = W_unlock2" "mutex s = Some (Worker i)" "s' = goto_w i W_lock (s\<lparr>mutex := None\<rparr>)"
proof -
  note dom = worker_runs [OF step]
  show thesis
  proof (cases "wpc w")
    case W_lock
    with step ok dom w show thesis
      by (intro lock) (auto simp: thread_function_def Let_def mutex_lock_def split: if_splits)
  next
    case W_deq
    with step ok dom w show thesis
      by (auto simp: thread_function_def Let_def run_def fault_def
          split: if_splits sum.splits option.splits intro: sleep take)
  next
    case W_wake
    with step ok dom w show thesis
      by (intro lock) (auto simp: thread_function_def Let_def mutex_lock_def split: if_splits)
  next
    case W_unlock
    with step ok dom w show thesis
      by (intro unlock) (auto simp: thread_function_def mutex_unlock_def fault_def goto_w_def
          split: if_splits)
  next
    case W_handle
    with step ok dom w show thesis
      by (auto simp: thread_function_def Let_def fault_def split: prod.splits sum.splits abort.splits
          intro: handle)
  next
    case W_relock
    with step ok dom w show thesis
      by (intro relock) (auto simp: thread_function_def Let_def mutex_lock_def split: if_splits)
  next
    case W_close
    with step ok dom w show thesis
      by (auto simp: thread_function_def Let_def run_def fault_def split: sum.splits intro: close)
  next
    case W_unlock2
    with step ok dom w show thesis
      by (intro unlock2) (auto simp: thread_function_def mutex_unlock_def fault_def goto_w_def
          split: if_splits)
  qed (use step dom w in \<open>auto simp: thread_function_def Let_def split: if_splits
         intro: dec inc finish bcast quiet\<close>)
qed

text \<open>Ownership of the mutex: a thread stays on its side, acquires or releases.\<close>

lemma inv_lock_keep:
  assumes "inv_lock s" and "workers s' = (workers s)[i := w]" and "policy s' = policy s"
    and "mutex s' = mutex s" and "mpc s' = mpc s"
    and "in_cs_w (wpc w) \<longleftrightarrow> in_cs_w (wpc (workers s ! i))" and "i < length (workers s)"
  shows "inv_lock s'"
  using assms by (auto simp: inv_lock_def nth_list_update)

lemma inv_lock_acquire:
  assumes "inv_lock s" and "workers s' = (workers s)[i := w]" and "policy s' = policy s"
    and "mutex s = None" and "mutex s' = Some (Worker i)" and "mpc s' = mpc s"
    and "in_cs_w (wpc w)" and "i < length (workers s)"
  shows "inv_lock s'"
  using assms by (auto simp: inv_lock_def nth_list_update)

lemma inv_lock_release:
  assumes "inv_lock s" and "workers s' = (workers s)[i := w]" and "policy s' = policy s"
    and "mutex s = Some (Worker i)" and "mutex s' = None" and "mpc s' = mpc s"
    and "\<not> in_cs_w (wpc w)" and "i < length (workers s)"
  shows "inv_lock s'"
  using assms by (auto simp: inv_lock_def nth_list_update)

lemma inv_lock_broadcast: "inv_lock s \<Longrightarrow> inv_lock (broadcast s)"
  by (auto simp: inv_lock_def broadcast_def in_cs_w_def split: if_splits)

lemma worker_lock:
  assumes step: "thread_function i ev s = Some s'" and inv: "inv_lock s" and ok: "crash s' = None"
  shows "inv_lock s'"
proof -
  have i: "i < length (workers s)" using worker_runs [OF step] by simp
  from inv have owner: "in_cs_w (wpc (workers s ! i)) \<Longrightarrow> mutex s = Some (Worker i)"
    using i by (auto simp: inv_lock_def)
  note keep = inv_lock_keep [OF inv, of _ i]
  from step ok refl show ?thesis
  proof (cases rule: worker_cases)
    case lock
    then show ?thesis using i by (intro inv_lock_acquire [OF inv]) (auto simp: goto_w_def pc_simps)
  next
    case sleep
    then show ?thesis using owner i by (intro inv_lock_release [OF inv]) (auto simp: goto_w_def pc_simps)
  next
    case unlock
    then show ?thesis using i by (intro inv_lock_release [OF inv]) (auto simp: goto_w_def pc_simps)
  next
    case relock
    then show ?thesis using i by (intro inv_lock_acquire [OF inv]) (auto simp: goto_w_def pc_simps)
  next
    case bcast
    then show ?thesis using i
      by (intro inv_lock_keep [OF inv_lock_broadcast [OF inv], of _ i])
        (auto simp: goto_w_def pc_simps broadcast_def)
  next
    case unlock2
    then show ?thesis using i by (intro inv_lock_release [OF inv]) (auto simp: goto_w_def pc_simps)
  qed (use i in \<open>auto simp: goto_w_def pc_simps intro!: keep\<close>)
qed

text \<open>The heap.\<close>

lemma owned_update:
  assumes "workers s' = (workers s)[i := w]" and "mpc s' = mpc s" and "fdConnec s' = fdConnec s"
    and "i < length (workers s)"
  shows "owned s' = (owned s)(Worker i := (if holds_w (wpc w) then fd_request w else None))"
proof
  fix t
  show "owned s' t = ((owned s)(Worker i := (if holds_w (wpc w) then fd_request w else None))) t"
    using assms by (cases t) (auto simp: nth_list_update)
qed

lemma own_ok_drop: "own_ok own ist es \<Longrightarrow> own_ok (own(t := None)) ist es"
  by (auto simp: own_ok_def)

lemma own_ok_free:
  assumes "own_ok own ist es" and "own t = Some a"
  shows "own_ok (own(t := None)) (ist\<lparr>cells := (cells ist)(a := None)\<rparr>) es"
  using assms unfolding own_ok_def by auto

lemma own_ok_new:
  assumes "own_ok own ist es" and "store_ok ist" and "set (fds_of es') \<subseteq> set (fds_of es)"
    and "fresh ist \<notin> set (fds_of es)"
  shows "own_ok (own(t := Some (fresh ist)))
     (ist\<lparr>cells := (cells ist)(fresh ist \<mapsto> v), fresh := Suc (fresh ist)\<rparr>) es'"
proof -
  have old: "own u = Some a \<Longrightarrow> a \<noteq> fresh ist \<and> a \<notin> set (fds_of es') \<and> cells ist a \<noteq> None" for u a
  proof -
    assume "own u = Some a"
    then have "a \<notin> set (fds_of es)" "cells ist a \<noteq> None"
      using assms(1) unfolding own_ok_def by blast+
    moreover from this(2) have "a \<noteq> fresh ist" using store_ok_fresh [OF assms(2)] by auto
    ultimately show ?thesis using assms(3) by blast
  qed
  moreover have "fresh ist \<notin> set (fds_of es')" using assms(3,4) by (meson subsetD)
  moreover have "own u = Some a \<Longrightarrow> own u' = Some a \<Longrightarrow> u = u'" for u u' a
    using assms(1) unfolding own_ok_def by blast
  ultimately show ?thesis unfolding own_ok_def by (auto split: if_splits)
qed

lemma inv_heap_keep:
  assumes "inv_heap s es" and "workers s' = (workers s)[i := w]" and "mpc s' = mpc s"
    and "fdConnec s' = fdConnec s" and "connfd s' = connfd s" and "q s' = q s"
    and "i < length (workers s)"
    and "holds_w (wpc w) \<Longrightarrow> holds_w (wpc (workers s ! i)) \<and> fd_request w = fd_request (workers s ! i)"
  shows "inv_heap s' es"
proof -
  have "own_ok (owned s') (int_st (q s)) es"
  proof (cases "holds_w (wpc w)")
    case True
    then have "owned s' = owned s"
      using assms(7,8) owned_update [OF assms(2-4,7)] by (auto simp: fun_eq_iff)
    then show ?thesis using assms(1) by (simp add: inv_heap_def)
  next
    case False
    then show ?thesis
      using assms(1) owned_update [OF assms(2-4,7)] by (simp add: inv_heap_def own_ok_drop)
  qed
  then show ?thesis using assms by (auto simp: inv_heap_def nth_list_update)
qed

lemma inv_heap_broadcast: "inv_heap s es \<Longrightarrow> mpc s \<noteq> M_overload HO_block_wait \<Longrightarrow> inv_heap (broadcast s) es"
proof -
  assume "inv_heap s es" and "mpc s \<noteq> M_overload HO_block_wait"
  moreover from this have "owned (broadcast s) t = owned s t" for t
    by (cases t) (auto simp: broadcast_def holds_w_def)
  then have "owned (broadcast s) = owned s" by (simp add: fun_eq_iff)
  ultimately show ?thesis by (auto simp: inv_heap_def broadcast_def holds_w_def)
qed

lemma fifo_inv_fresh_fd: "fifo_inv f es \<Longrightarrow> fresh (int_st f) \<notin> set (fds_of es)"
  using qseg_fds_allocated [of "node_st f" "int_st f" "head f" es None "fresh (int_st f)"]
  by (auto simp: fifo_inv_def store_ok_fresh)

lemma fifo_inv_free_fd:
  "fifo_inv f es \<Longrightarrow> a \<notin> set (fds_of es) \<Longrightarrow>
   fifo_inv (f\<lparr>int_st := (int_st f)\<lparr>cells := (cells (int_st f))(a := None)\<rparr>\<rparr>) es"
  by (auto simp: fifo_inv_def intro: store_ok_free)

lemma close_free_owned:
  assumes "cells (int_st f) a = Some v"
  shows "close_free (Some a) f =
    Inr (close_log v (f\<lparr>int_st := (int_st f)\<lparr>cells := (cells (int_st f))(a := None)\<rparr>\<rparr>))"
  using assms by (simp add: close_free_def store_simps)

lemma take_inv:
  assumes "inv_heap s es" and "inv_log s es" and "i < length (workers s)"
    and deq: "dequeue (Some tm) (q s) = Inr (Some p, t, q')" and "deref (int_st q') (Some p) = Inr v"
    and s': "s' = s\<lparr>q := q', dispatched := dispatched s @ [(v, the t)],
         workers := (workers s)[i := w\<lparr>wpc := W_dec, fd_request := Some p, wtime := the t\<rparr>]\<rparr>"
  shows "\<exists>e es'. es = e # es' \<and> inv_heap s' es' \<and> inv_log s' es'"
proof -
  have inv: "fifo_inv (q s) es" using assms(1) by (simp add: inv_heap_def)
  have "head (q s) \<noteq> None" using deq by (cases "head (q s)") (auto simp: dequeue_def)
  then obtain a f v1 t1 es' where es: "es = (a, f, v1, t1) # es'"
    using fifo_inv_head_None [OF inv] by (cases es) auto
  have mem: "fresh (int_st (q s)) < limit (int_st (q s))"
    using deq \<open>head (q s) \<noteq> None\<close>
    by (auto simp: dequeue_def malloc_init_def result_simps split: if_splits)
  from dequeue_fifo_inv [OF inv [unfolded es] mem, of "Some tm"] deq
  have p: "p = fresh (int_st (q s))" "t = Some t1" "fifo_inv q' es'"
    and ist: "int_st q' = (int_st (q s))\<lparr>cells := (cells (int_st (q s)))(p \<mapsto> v1), fresh := Suc p\<rparr>"
    by auto
  have "v = v1" using assms(5) ist by (simp add: deref_def)
  have "owned s' = (owned s)(Worker i := Some p)"
    using owned_update [of s' s i] s' assms(3) by (simp add: holds_w_def)
  then have "own_ok (owned s') (int_st q') es'"
    using own_ok_new [of "owned s" "int_st (q s)" es es'] assms(1) fifo_inv_fresh_fd [OF inv] es p ist
    by (auto simp: inv_heap_def fifo_inv_def)
  moreover have "fdConnec s = Some c \<Longrightarrow> holds_m (mpc s) \<Longrightarrow> c \<noteq> p" for c
    using assms(1) p(1) inv by (auto simp: inv_heap_def fifo_inv_def dest: store_ok_fresh)
  ultimately have "inv_heap s' es'"
    using assms(1,3) p(3) ist s' by (auto simp: inv_heap_def nth_list_update)
  moreover have "inv_log s' es'"
    using assms(2) es p(2) \<open>v = v1\<close> s' by (simp add: inv_log_def)
  ultimately show ?thesis using es by blast
qed

lemma close_heap:
  assumes inv: "inv_heap s es" and i: "i < length (workers s)" and pc: "wpc (workers s ! i) = W_close"
    and run: "close_free (fd_request (workers s ! i)) (q s) = Inr q'"
    and s': "s' = goto_w i W_unlock2 (s\<lparr>q := q'\<rparr>)"
  shows "inv_heap s' es"
proof -
  from inv i pc have "fd_request (workers s ! i) \<noteq> None" by (auto simp: inv_heap_def holds_w_def)
  then obtain a where a: "fd_request (workers s ! i) = Some a" by auto
  then have ow: "owned s (Worker i) = Some a" using i pc by (simp add: holds_w_def)
  then have a': "a \<notin> set (fds_of es)" "cells (int_st (q s)) a \<noteq> None"
    using inv unfolding inv_heap_def own_ok_def by blast+
  then obtain v where v: "cells (int_st (q s)) a = Some v" by auto
  have s'': "s' = goto_w i W_unlock2 (s\<lparr>q := close_log v ((q s)\<lparr>int_st := (int_st (q s))
      \<lparr>cells := (cells (int_st (q s)))(a := None)\<rparr>\<rparr>)\<rparr>)"
    using s' run close_free_owned [OF v] a by simp
  have "owned s' = (owned s)(Worker i := None)"
    using owned_update [of s' s i] s'' i by (simp add: goto_w_def holds_w_def)
  moreover have "holds_m (mpc s) \<Longrightarrow> fdConnec s \<noteq> Some a"
    using inv ow unfolding inv_heap_def own_ok_def by (metis owned.simps(1) tid.distinct(1))
  ultimately show ?thesis
    using inv own_ok_free [of "owned s" "int_st (q s)" es "Worker i" a] ow a a' v i s''
      fifo_inv_free_fd [of "q s" es a]
    by (auto simp: inv_heap_def goto_w_def close_log_def nth_list_update holds_w_def)
qed

lemma worker_heap:
  assumes step: "thread_function i ev s = Some s'" and ok: "crash s' = None"
    and lock: "inv_lock s" and inv: "inv_heap s es" and log: "inv_log s es"
  shows "(if wpc (workers s ! i) = W_deq \<and> es \<noteq> [] then inv_heap s' (tl es) \<and> inv_log s' (tl es)
          else inv_heap s' es \<and> inv_log s' es)"
proof -
  have i: "i < length (workers s)" using worker_runs [OF step] by simp
  have nb: "mpc s \<noteq> M_overload HO_block_wait" using lock by (simp add: inv_lock_def)
  have hd: "head (q s) = None \<longleftrightarrow> es = []" using inv fifo_inv_head_None by (auto simp: inv_heap_def)
  note keep = inv_heap_keep [OF inv, of _ i]
  note simps = goto_w_def pc_simps inv_log_def i
  from step ok refl show ?thesis
  proof (cases rule: worker_cases)
    case lock
    then have "wpc (workers s ! i) \<noteq> W_deq" by auto
    moreover from lock have "inv_heap s' es" "inv_log s' es"
      using log by (auto simp: simps intro!: keep)
    ultimately show ?thesis by simp
  next
    case (sleep t q')
    from sleep(2) have "head (q s) = None \<and> q' = q s"
      by (cases "head (q s)") (auto simp: dequeue_def result_simps)
    with sleep have "inv_heap s' es" "inv_log s' es"
      using log by (auto simp: simps intro!: keep)
    then show ?thesis using hd \<open>head (q s) = None \<and> q' = q s\<close> by simp
  next
    case (take p t q' v)
    from take_inv [OF inv log i take(2,3,4)] take(1) show ?thesis by auto
  next
    case bcast
    then have "inv_heap s' es" using i
      by (intro inv_heap_keep [OF inv_heap_broadcast [OF inv nb],
            of _ i "wake_worker (workers s ! i)\<lparr>wpc := W_close\<rparr>"])
        (auto simp: goto_w_def pc_simps broadcast_def)
    then show ?thesis using bcast log by (auto simp: simps broadcast_def)
  next
    case (close q')
    from close_heap [OF inv i close] have "inv_heap s' es" .
    then show ?thesis using close log by (auto simp: simps)
  qed (use log in \<open>auto simp: simps intro!: keep\<close>)
qed

lemma worker_count:
  assumes step: "thread_function i ev s = Some s'" and ok: "crash s' = None"
    and lock: "inv_lock s" and inv: "inv_count s es" and hd: "head (q s) = None \<longleftrightarrow> es = []"
  shows "inv_count s' (if wpc (workers s ! i) = W_deq \<and> es \<noteq> [] then tl es else es)"
proof -
  have i: "i < length (workers s)" using worker_runs [OF step] by simp
  have excl: "in_cs_w (wpc (workers s ! i)) \<Longrightarrow> mpc s \<notin> {M_enq, M_count}"
    using lock i unfolding inv_lock_def in_cs_m_def by fastforce
  note simps = inv_count_def goto_w_def num_update [OF i] pc_simps
  from step ok refl show ?thesis
  proof (cases rule: worker_cases)
    case (sleep t q')
    from sleep(2) have "head (q s) = None \<and> q' = q s"
      by (cases "head (q s)") (auto simp: dequeue_def result_simps)
    then show ?thesis using sleep hd inv excl by (simp add: simps)
  next
    case (take p t q' v)
    then have "es \<noteq> []" using hd by (cases "head (q s)") (auto simp: dequeue_def)
    then show ?thesis using take inv excl by (cases es) (simp_all add: simps)
  next
    case bcast
    then show ?thesis using inv i excl
      by (simp add: inv_count_def goto_w_def broadcast_def num_update num_wake pc_simps)
  qed (use inv excl in \<open>auto simp: simps\<close>)
qed

lemma worker_awake:
  assumes step: "thread_function i ev s = Some s'" and ok: "crash s' = None"
    and hd: "head (q s) = None \<longleftrightarrow> es = []"
  shows "inv_awake s' (if wpc (workers s ! i) = W_deq \<and> es \<noteq> [] then tl es else es)"
proof -
  have i: "i < length (workers s)" using worker_runs [OF step] by simp
  from step ok refl show ?thesis
  proof (cases rule: worker_cases)
    case (sleep t q')
    from sleep(2) have "head (q s) = None" by (cases "head (q s)") (auto simp: dequeue_def result_simps)
    then show ?thesis using hd by (simp add: inv_awake_def)
  qed (use i in \<open>auto simp: inv_awake_def goto_w_def broadcast_def list_all_update_other\<close>)
qed

lemma worker_dt_inv:
  assumes "thread_function i ev s = Some s'" and "crash s' = None" and "dt_inv s es"
  shows "\<exists>es'. dt_inv s' es'"
proof -
  have inv: "inv_lock s" "inv_heap s es" "inv_count s es" "inv_log s es"
    using assms(3) by (auto simp: dt_inv_def)
  have hd: "head (q s) = None \<longleftrightarrow> es = []"
    using inv(2) fifo_inv_head_None by (auto simp: inv_heap_def)
  show ?thesis
    using worker_lock [OF assms(1) inv(1) assms(2)] worker_heap [OF assms(1,2) inv(1,2,4)]
      worker_count [OF assms(1,2) inv(1,3) hd] worker_awake [OF assms(1,2) hd]
    unfolding dt_inv_def by (auto split: if_splits)
qed

text \<open>The master under the policy \<open>dt\<close>.\<close>

lemma master_runs: "main_loop ev s = Some s' \<Longrightarrow> crash s = None"
  by (cases "crash s") (auto simp: main_loop_def)

lemma master_cases:
  assumes step: "main_loop ev s = Some s'" and ok: "crash s' = None" and inv: "inv_lock s"
  obtains (accept) p ist where "mpc s = M_accept"
      "malloc_init (accepted ev) (int_st (q s)) = Inr (p, ist)"
      "s' = goto_m M_lock (s\<lparr>connfd := accepted ev, fdConnec := Some p, mtime := arrival ev,
              q := (q s)\<lparr>int_st := ist\<rparr>\<rparr>)"
  | (lock) "mpc s = M_lock" "mutex s = None" "s' = goto_m M_check (s\<lparr>mutex := Some Master\<rparr>)"
  | (refuse) v ist where "mpc s = M_check" "free_ptr (int_st (q s)) (fdConnec s) = Inr ist"
      "s' = goto_m M_unlock (s\<lparr>q := close_log v ((q s)\<lparr>int_st := ist\<rparr>)\<rparr>)"
  | (admit) "mpc s = M_check" "queue_size s + currently_handled s \<noteq> QmaxSize s" "s' = goto_m M_enq s"
  | (enq) q' where "mpc s = M_enq" "enqueue (fdConnec s) (mtime s) (q s) = Inr q'"
      "s' = goto_m M_count (s\<lparr>q := q', enqueued := enqueued s @ [(connfd s, mtime s)]\<rparr>)"
  | (bcast) "mpc s = M_count" "queue_size s + 1 + currently_handled s = 1"
      "s' = broadcast (goto_m M_unlock (s\<lparr>queue_size := queue_size s + 1\<rparr>))"
  | (quiet) "mpc s = M_count" "queue_size s + 1 + currently_handled s \<noteq> 1"
      "s' = goto_m M_unlock (s\<lparr>queue_size := queue_size s + 1\<rparr>)"
  | (unlock) "mpc s = M_unlock" "mutex s = Some Master" "s' = goto_m M_accept (s\<lparr>mutex := None\<rparr>)"
proof -
  note run = master_runs [OF step]
  have dt: "policy s = Some ''dt''" and no: "mpc s \<noteq> M_overload pc" for pc
    using inv by (auto simp: inv_lock_def)
  show thesis
  proof (cases "mpc s")
    case M_accept
    with step ok run show thesis
      by (intro accept [of "fst (projr (malloc_init (accepted ev) (int_st (q s))))"
            "snd (projr (malloc_init (accepted ev) (int_st (q s))))"])
        (auto simp: main_loop_def run_def fault_def rbind_def unix_error_def
          split: sum.splits if_splits)
  next
    case M_lock
    with step run show thesis
      by (intro lock) (auto simp: main_loop_def mutex_lock_def split: if_splits)
  next
    case M_check
    show thesis
    proof (cases "currently_handled s = QmaxSize s")
      case True
      with M_check step ok run dt show thesis
        by (auto simp: main_loop_def run_def fault_def split: sum.splits intro: refuse)
    next
      case False
      with M_check step ok run dt show thesis
        by (auto simp: main_loop_def run_def fault_def close_free_def result_simps Close_def
            rbind_def split: sum.splits if_splits intro: refuse admit)
    qed
  next
    case (M_overload pc)
    with no [of pc] show thesis by simp
  next
    case M_enq
    with step ok run show thesis
      by (auto simp: main_loop_def run_def fault_def split: sum.splits intro: enq)
  next
    case M_count
    with step run show thesis
      by (cases "queue_size s + 1 + currently_handled s = 1")
        (auto simp: main_loop_def Let_def goto_m_def intro: bcast quiet)
  next
    case M_unlock
    with step ok run show thesis
      by (intro unlock) (auto simp: main_loop_def mutex_unlock_def fault_def goto_m_def
          split: if_splits)
  qed
qed

lemma inv_lock_master:
  assumes "inv_lock s" and "workers s' = workers s" and "policy s' = policy s"
    and "mpc s' \<in> {M_accept, M_lock, M_check, M_enq, M_count, M_unlock}"
    and "mutex s' = mutex s \<and> (in_cs_m (mpc s') \<longleftrightarrow> in_cs_m (mpc s)) \<or>
         mutex s = None \<and> mutex s' = Some Master \<and> in_cs_m (mpc s') \<or>
         mutex s = Some Master \<and> mutex s' = None \<and> \<not> in_cs_m (mpc s')"
  shows "inv_lock s'"
proof -
  have "mpc s' \<noteq> M_overload pc" for pc using assms(4) by auto
  then show ?thesis
    using assms(1-3,5) unfolding inv_lock_def by (elim disjE conjE) simp_all
qed

lemma master_lock:
  assumes "main_loop ev s = Some s'" and "crash s' = None" and inv: "inv_lock s"
  shows "inv_lock s'"
  using assms
proof (cases rule: master_cases)
  case bcast
  have "inv_lock (goto_m M_unlock (s\<lparr>queue_size := queue_size s + 1\<rparr>))"
    using bcast(1) by (intro inv_lock_master [OF inv]) (simp_all add: goto_m_def in_cs_m_def)
  then show ?thesis using bcast(3) inv_lock_broadcast by simp
qed (rule inv_lock_master [OF inv], simp_all add: goto_m_def in_cs_m_def)+

lemma owned_master:
  assumes "workers s' = workers s"
  shows "owned s' = (owned s)(Master := (if holds_m (mpc s') then fdConnec s' else None))"
proof
  fix t
  show "owned s' t = ((owned s)(Master := (if holds_m (mpc s') then fdConnec s' else None))) t"
    using assms by (cases t) auto
qed

lemma own_ok_enqueue:
  assumes "own_ok own ist es" and "own t = Some f"
  shows "own_ok (own(t := None)) ist (es @ [(a, f, v, tm)])"
proof -
  have "own u = Some b \<Longrightarrow> u \<noteq> t \<Longrightarrow> b \<noteq> f" for u b
    using assms unfolding own_ok_def by blast
  moreover have "own u = Some b \<Longrightarrow> b \<notin> set (fds_of es) \<and> cells ist b \<noteq> None" for u b
    using assms(1) unfolding own_ok_def by blast
  moreover have "own u = Some b \<Longrightarrow> own u' = Some b \<Longrightarrow> u = u'" for u u' b
    using assms(1) unfolding own_ok_def by blast
  ultimately show ?thesis unfolding own_ok_def by auto
qed

lemma enqueue_room: "enqueue p t f = Inr f' \<Longrightarrow> fresh (node_st f) < limit (node_st f)"
  by (auto simp: enqueue_def malloc_init_def result_simps split: if_splits)

lemma master_owns:
  assumes "inv_heap s es" and "holds_m (mpc s)"
  obtains a where "fdConnec s = Some a" "cells (int_st (q s)) a = Some (connfd s)"
    "a \<notin> set (fds_of es)" "owned s Master = Some a"
proof -
  obtain a where a: "fdConnec s = Some a" "cells (int_st (q s)) a = Some (connfd s)"
    using assms by (auto simp: inv_heap_def)
  then have own: "owned s Master = Some a" using assms(2) by simp
  then have "a \<notin> set (fds_of es)" using assms(1) unfolding inv_heap_def own_ok_def by blast
  with a own that show thesis by blast
qed

lemma fifo_inv_malloc_fd:
  assumes "fifo_inv f es"
  shows "fifo_inv (f\<lparr>int_st := (int_st f)\<lparr>cells := (cells (int_st f))(fresh (int_st f) \<mapsto> v),
           fresh := Suc (fresh (int_st f))\<rparr>\<rparr>) es"
  using assms fifo_inv_fresh_fd [OF assms] by (auto simp: fifo_inv_def intro: store_ok_malloc)

lemma master_accept:
  assumes inv: "inv_heap s es" and mem: "malloc_init v (int_st (q s)) = Inr (p, ist)"
    and s': "s' = goto_m M_lock (s\<lparr>connfd := v, fdConnec := Some p, mtime := tm,
              q := (q s)\<lparr>int_st := ist\<rparr>\<rparr>)"
  shows "inv_heap s' es"
proof -
  have fi: "fifo_inv (q s) es" using inv by (simp add: inv_heap_def)
  have ist: "p = fresh (int_st (q s))" "ist = (int_st (q s))\<lparr>cells := (cells (int_st (q s)))(p \<mapsto> v),
      fresh := Suc p\<rparr>"
    using mem by (auto simp: malloc_init_def split: if_splits)
  have "owned s' = (owned s)(Master := Some p)"
    using owned_master [of s' s] s' by (simp add: goto_m_def holds_m_def)
  then have "own_ok (owned s') ist es"
    using own_ok_new [of "owned s" "int_st (q s)" es es] inv fifo_inv_fresh_fd [OF fi] ist
    by (simp add: inv_heap_def fifo_inv_def)
  then show ?thesis
    using inv s' ist fifo_inv_malloc_fd [OF fi, of v] by (auto simp: inv_heap_def goto_m_def)
qed

lemma master_refuse:
  assumes inv: "inv_heap s es" and "holds_m (mpc s)"
    and free: "free_ptr (int_st (q s)) (fdConnec s) = Inr ist"
    and s': "s' = goto_m M_unlock (s\<lparr>q := close_log v ((q s)\<lparr>int_st := ist\<rparr>)\<rparr>)"
  shows "inv_heap s' es"
proof -
  obtain a where a: "fdConnec s = Some a" "cells (int_st (q s)) a = Some (connfd s)"
    "a \<notin> set (fds_of es)" "owned s Master = Some a"
    using master_owns [OF inv assms(2)] by blast
  have ist: "ist = (int_st (q s))\<lparr>cells := (cells (int_st (q s)))(a := None)\<rparr>"
    using free a by (simp add: store_simps)
  have "owned s' = (owned s)(Master := None)"
    using owned_master [of s' s] s' by (simp add: goto_m_def holds_m_def)
  then show ?thesis
    using inv own_ok_free [of "owned s" "int_st (q s)" es Master a] a s' ist
      fifo_inv_free_fd [of "q s" es a]
    by (auto simp: inv_heap_def goto_m_def holds_m_def close_log_def)
qed

lemma master_enq:
  assumes inv: "inv_heap s es" and "inv_log s es" and "mpc s = M_enq"
    and enq: "enqueue (fdConnec s) (mtime s) (q s) = Inr q'"
    and s': "s' = goto_m M_count (s\<lparr>q := q', enqueued := enqueued s @ [(connfd s, mtime s)]\<rparr>)"
  shows "\<exists>e. inv_heap s' (es @ [e]) \<and> inv_log s' (es @ [e])"
proof -
  obtain f where f: "fdConnec s = Some f" "cells (int_st (q s)) f = Some (connfd s)"
    "f \<notin> set (fds_of es)" "owned s Master = Some f"
    using master_owns [OF inv] assms(3) by (auto simp: holds_m_def)
  have "fifo_inv (q s) es" using inv by (simp add: inv_heap_def)
  from enqueue_fifo_inv [OF this f(2,3) enqueue_room [OF enq], of "mtime s"] enq f(1)
  obtain a where q': "fifo_inv q' (es @ [(a, f, connfd s, mtime s)])" "int_st q' = int_st (q s)"
    by auto
  have "owned s' = (owned s)(Master := None)"
    using owned_master [of s' s] s' by (simp add: goto_m_def holds_m_def)
  then have "inv_heap s' (es @ [(a, f, connfd s, mtime s)])"
    using inv q' s' own_ok_enqueue [of "owned s" "int_st (q s)" es Master f] f(4)
    by (auto simp: inv_heap_def goto_m_def holds_m_def)
  moreover have "inv_log s' (es @ [(a, f, connfd s, mtime s)])"
    using assms(2) s' by (simp add: inv_log_def goto_m_def)
  ultimately show ?thesis by blast
qed

lemma inv_heap_master_keep:
  assumes inv: "inv_heap s es" and "workers s' = workers s" and "q s' = q s"
    and "connfd s' = connfd s" and "fdConnec s' = fdConnec s"
    and "holds_m (mpc s') \<Longrightarrow> holds_m (mpc s)"
  shows "inv_heap s' es"
proof -
  have "owned s' = (owned s)(Master := (if holds_m (mpc s') then fdConnec s else None))"
    using owned_master [OF assms(2)] assms(5) by simp
  then have "owned s' = owned s \<or> owned s' = (owned s)(Master := None)"
    using assms(6) by (auto simp: fun_eq_iff)
  then have "own_ok (owned s') (int_st (q s)) es"
    using inv own_ok_drop [of "owned s"] by (auto simp: inv_heap_def)
  then show ?thesis using assms by (auto simp: inv_heap_def)
qed

lemma master_heap:
  assumes step: "main_loop ev s = Some s'" and ok: "crash s' = None" and lock: "inv_lock s"
    and inv: "inv_heap s es" and log: "inv_log s es"
  shows "\<exists>e. inv_heap s' (if mpc s = M_enq then es @ [e] else es) \<and>
             inv_log s' (if mpc s = M_enq then es @ [e] else es)"
  using step ok lock
proof (cases rule: master_cases)
  case (accept p ist)
  with master_accept [OF inv accept(2)] log show ?thesis by (simp add: inv_log_def goto_m_def)
next
  case (refuse v ist)
  with master_refuse [OF inv _ refuse(2,3)] log show ?thesis
    by (simp add: inv_log_def goto_m_def holds_m_def)
next
  case (enq q')
  with master_enq [OF inv log enq] show ?thesis by simp
next
  case bcast
  have "inv_heap (goto_m M_unlock (s\<lparr>queue_size := queue_size s + 1\<rparr>)) es"
    by (intro inv_heap_master_keep [OF inv]) (simp_all add: goto_m_def holds_m_def)
  then have "inv_heap s' es"
    unfolding bcast(3) by (rule inv_heap_broadcast) (simp add: goto_m_def)
  then show ?thesis using bcast log by (simp add: inv_log_def goto_m_def broadcast_def)
qed (use inv log in \<open>auto simp: inv_log_def goto_m_def holds_m_def intro!: inv_heap_master_keep [OF inv]\<close>)

lemma no_worker_in_cs:
  "inv_lock s \<Longrightarrow> in_cs_m (mpc s) \<Longrightarrow> num (\<lambda>pc. pc = W_inc) (workers s) = 0"
  by (rule num_zero) (auto simp: inv_lock_def in_cs_w_def)

lemma master_count:
  assumes step: "main_loop ev s = Some s'" and ok: "crash s' = None" and lock: "inv_lock s"
    and inv: "inv_count s es"
  shows "inv_count s' (if mpc s = M_enq then es @ [e] else es)"
  using step ok lock
proof (cases rule: master_cases)
  case bcast
  with inv no_worker_in_cs [OF lock] show ?thesis
    by (simp add: inv_count_def goto_m_def broadcast_def num_wake pc_simps)
next
  case quiet
  with inv no_worker_in_cs [OF lock] show ?thesis
    by (simp add: inv_count_def goto_m_def pc_simps)
next
  case admit
  with inv num_ge0 [of "\<lambda>pc. pc = W_inc" "workers s"] show ?thesis
    by (auto simp: inv_count_def goto_m_def simp del: num_ge0)
qed (use inv in \<open>auto simp: inv_count_def goto_m_def\<close>)

lemma master_awake:
  assumes step: "main_loop ev s = Some s'" and ok: "crash s' = None" and lock: "inv_lock s"
    and inv: "inv_awake s es" and cnt: "inv_count s es"
  shows "inv_awake s' (if mpc s = M_enq then es @ [e] else es)"
  using step ok lock
proof (cases rule: master_cases)
  case bcast
  then show ?thesis
    by (cases "workers s") (auto simp: inv_awake_def goto_m_def broadcast_def)
next
  case quiet
  have "num P (workers s) = 0" if "list_all (\<lambda>w. wpc w = W_wait) (workers s)" "\<not> P W_wait" for P
    using that by (intro num_zero) (auto simp: list_all_length)
  with quiet inv cnt show ?thesis
    by (auto simp: inv_awake_def inv_count_def goto_m_def busy_def)
qed (use inv in \<open>auto simp: inv_awake_def goto_m_def\<close>)

lemma master_dt_inv:
  assumes "main_loop ev s = Some s'" and "crash s' = None" and "dt_inv s es"
  shows "\<exists>es'. dt_inv s' es'"
proof -
  have inv: "inv_lock s" "inv_heap s es" "inv_count s es" "inv_awake s es" "inv_log s es"
    using assms(3) by (auto simp: dt_inv_def)
  obtain e where "inv_heap s' (if mpc s = M_enq then es @ [e] else es)"
      "inv_log s' (if mpc s = M_enq then es @ [e] else es)"
    using master_heap [OF assms(1,2) inv(1,2,5)] by blast
  then show ?thesis
    using master_lock [OF assms(1,2) inv(1)] master_count [OF assms(1,2) inv(1,3)]
      master_awake [OF assms(1,2) inv(1,4,3)]
    unfolding dt_inv_def by blast
qed

lemma spurious_dt_inv:
  assumes inv: "dt_inv s es" and "i < length (workers s)" and "wpc (workers s ! i) = W_wait"
  shows "dt_inv (goto_w i W_wake s) es"
proof -
  have "inv_lock (goto_w i W_wake s)" "inv_heap (goto_w i W_wake s) es"
    using assms by (auto simp: dt_inv_def goto_w_def pc_simps
        intro!: inv_lock_keep [of s _ i] inv_heap_keep [of s es _ i])
  then show ?thesis
    using assms by (auto simp: dt_inv_def inv_count_def inv_awake_def inv_log_def goto_w_def
        num_update pc_simps list_all_update_other)
qed

lemma step_dt_inv:
  assumes "srv_step s s'" and "crash s' = None" and "dt_inv s es"
  shows "\<exists>es'. dt_inv s' es'"
  using assms(1)
proof cases
  case (master ev)
  with assms show ?thesis by (intro master_dt_inv)
next
  case (worker i ev)
  with assms show ?thesis by (intro worker_dt_inv)
next
  case (spurious_worker i)
  with assms show ?thesis using spurious_dt_inv by blast
next
  case spurious_master
  with assms show ?thesis by (auto simp: dt_inv_def inv_lock_def)
qed

lemma srv_init_dt_inv: "0 \<le> qmax \<Longrightarrow> dt_inv (srv_init ''dt'' poolSize qmax lim) []"
proof -
  assume "0 \<le> qmax"
  have "owned (srv_init ''dt'' poolSize qmax lim) t = None" for t
    by (cases t) (simp_all add: srv_init_def Create_thread_pool_def pc_simps)
  then have "own_ok (owned (srv_init ''dt'' poolSize qmax lim)) (int_st (init_fifo lim)) []"
    by (simp add: own_ok_def)
  with \<open>0 \<le> qmax\<close> show ?thesis
    by (auto simp: dt_inv_def inv_defs srv_init_def Create_thread_pool_def pc_simps num_def
        fifo_inv_init filter_empty_conv)
qed

lemma step_constants:
  assumes "srv_step s s'" and "crash s' = None" and "inv_lock s"
  shows "QmaxSize s' = QmaxSize s \<and> length (workers s') = length (workers s)"
  using assms(1)
proof cases
  case (master ev)
  from this assms(2,3) show ?thesis
    by (cases rule: master_cases) (auto simp: goto_m_def broadcast_def)
next
  case (worker i ev)
  from this assms(2) refl show ?thesis
    by (cases rule: worker_cases) (auto simp: goto_w_def broadcast_def)
qed (auto simp: goto_w_def goto_m_def)

lemma srv_step_running: "srv_step s s' \<Longrightarrow> crash s = None"
  by (cases rule: srv_step.cases) (auto dest: master_runs worker_runs)

lemma reachable_dt_inv:
  assumes "srv_reachable s0 s" and "s0 = srv_init ''dt'' poolSize qmax lim" and "0 \<le> qmax"
  shows "crash s = None \<Longrightarrow>
    \<exists>es. dt_inv s es \<and> QmaxSize s = qmax \<and> length (workers s) = nat poolSize"
  using assms
proof (induction rule: srv_reachable.induct)
  case start
  then show ?case
    using srv_init_dt_inv by (auto simp: srv_init_def Create_thread_pool_def)
next
  case (step s s')
  then obtain es where "dt_inv s es" "QmaxSize s = qmax" "length (workers s) = nat poolSize"
    using step.IH [OF srv_step_running [OF step.hyps(2)] step.prems(2,3)] by blast
  then show ?case
    using step_dt_inv [OF step.hyps(2) step.prems(1)] step_constants [OF step.hyps(2) step.prems(1)]
    by (auto simp: dt_inv_def)
qed

section \<open>Properties of the drop-tail server\<close>

text \<open>
  C1. Under the policy \<open>dt\<close>, whatever the interleaving: when no thread holds the mutex,
  \<open>queue_size\<close> is the length of the queue, \<open>currently_handled\<close> the number of workers that
  serve a request, and together they never exceed \<open>QmaxSize\<close>.
\<close>

theorem server_dt_counters:
  assumes "srv_reachable (srv_init ''dt'' poolSize qmax lim) s" and "0 \<le> qmax"
    and "crash s = None" and "mutex s = None"
  shows "\<exists>xs. queue_rep (q s) xs \<and> queue_size s = int (length xs) \<and>
           currently_handled s = num busy (workers s) \<and>
           queue_size s + currently_handled s \<le> qmax"
proof -
  obtain es where inv: "dt_inv s es" "QmaxSize s = qmax"
    using reachable_dt_inv [OF assms(1) refl assms(2,3)] by blast
  then have "mpc s \<noteq> M_count" using assms(4) by (auto simp: dt_inv_def inv_lock_def in_cs_m_def)
  moreover have "num (\<lambda>pc. pc = W_dec) (workers s) = 0" "num (\<lambda>pc. pc = W_inc) (workers s) = 0"
    using inv(1) assms(4)
    by (auto intro!: num_zero simp: dt_inv_def inv_lock_def in_cs_w_def)
  ultimately show ?thesis
    using inv unfolding dt_inv_def inv_count_def queue_rep_def
    by (intro exI [of _ "requests_of es"]) (auto simp: inv_heap_def)
qed

text \<open>A connection accepted, queued and taken by worker 0, as a concrete schedule.\<close>

definition a_world :: world where
  "a_world = \<lparr>accepted = 5, arrival = \<lparr>tv_sec = 1, tv_usec = 2\<rparr>, rands = \<lambda>_. 0, close_rc = 0\<rparr>"

definition no_call :: "nat \<times> req_env \<times> conn" where
  "no_call = (0, empty_site, fresh_conn [])"

lemmas play_simps = srv_init_def Create_thread_pool_def main_loop_def thread_function_def
  srv_ops a_world_def no_call_def malloc_init_def enqueue_def dequeue_def init_fifo_def empty_store_def
  deref_def assign_def free_ptr_def wake_worker_def Let_def upt_rec handle_overload_def close_free_def

lemma admit_run:
  "\<exists>s. play (replicate 6 (Main a_world)) (srv_init ''dt'' 2 1 9) = Some s \<and>
     crash s = None \<and> mutex s = None \<and> queue_size s = 1 \<and> enqueued s = [(5, \<lparr>tv_sec = 1, tv_usec = 2\<rparr>)]"
  by (simp add: eval_nat_numeral play_simps)

theorem server_dt_counters_witness:
  "\<exists>s. srv_reachable (srv_init ''dt'' 2 1 9) s \<and> queue_size s = 1 \<and>
     queue_size s + currently_handled s \<le> 1"
proof -
  obtain s where s: "play (replicate 6 (Main a_world)) (srv_init ''dt'' 2 1 9) = Some s"
      "crash s = None" "mutex s = None" "queue_size s = 1"
    using admit_run by blast
  have "srv_reachable (srv_init ''dt'' 2 1 9) s"
    using play_reachable [OF srv_reachable.start s(1)] .
  with server_dt_counters [OF this _ s(2,3)] s(4) show ?thesis by auto
qed

text \<open>
  C12. Under \<open>dt\<close> the threads exclude each other: at most one of them, master included, is
  inside a critical section, and it is the one that holds the mutex.
\<close>

theorem server_dt_exclusion:
  assumes "srv_reachable (srv_init ''dt'' poolSize qmax lim) s" and "0 \<le> qmax" and "crash s = None"
  shows "(in_cs_m (mpc s) \<longleftrightarrow> mutex s = Some Master) \<and>
         (\<forall>i. i < nat poolSize \<and> in_cs_w (wpc (workers s ! i)) \<longleftrightarrow> mutex s = Some (Worker i))"
proof -
  obtain es where "dt_inv s es" "length (workers s) = nat poolSize"
    using reachable_dt_inv [OF assms(1) refl assms(2,3)] by blast
  then show ?thesis unfolding dt_inv_def inv_lock_def by metis
qed

theorem server_dt_exclusion_witness:
  "\<exists>s. srv_reachable (srv_init ''dt'' 2 1 9) s \<and> mpc s = M_lock \<and>
     mutex s = Some (Worker 0) \<and> in_cs_w (wpc (workers s ! 0)) \<and>
     \<not> in_cs_m (mpc s) \<and> \<not> in_cs_w (wpc (workers s ! 1)) \<and> main_loop a_world s = None"
proof -
  let ?run = "replicate 7 (Main a_world) @ replicate 2 (Thread 0 no_call)"
  have "\<exists>s. play ?run (srv_init ''dt'' 2 1 9) = Some s \<and> crash s = None \<and> mpc s = M_lock \<and>
      mutex s = Some (Worker 0) \<and> main_loop a_world s = None"
    by (simp add: eval_nat_numeral play_simps)
  then obtain s where s: "play ?run (srv_init ''dt'' 2 1 9) = Some s" "crash s = None"
      "mpc s = M_lock" "mutex s = Some (Worker 0)" "main_loop a_world s = None" by blast
  have r: "srv_reachable (srv_init ''dt'' 2 1 9) s"
    using play_reachable [OF srv_reachable.start s(1)] .
  from server_dt_exclusion [OF r _ s(2)]
  have cs: "in_cs_m (mpc s) \<longleftrightarrow> mutex s = Some Master"
      "i < nat 2 \<and> in_cs_w (wpc (workers s ! i)) \<longleftrightarrow> mutex s = Some (Worker i)" for i
    by auto
  from cs(2) [of 0] cs(2) [of 1] cs(1) s(4) r s(3,5) show ?thesis by auto
qed

text \<open>
  C6. Under \<open>dt\<close> requests leave the queue in the order in which they were admitted, none is
  lost and none is served twice: what was enqueued is what was dispatched followed by the
  content of the queue.
\<close>

theorem server_dt_order:
  assumes "srv_reachable (srv_init ''dt'' poolSize qmax lim) s" and "0 \<le> qmax" and "crash s = None"
  shows "\<exists>xs. queue_rep (q s) xs \<and> enqueued s = dispatched s @ xs"
proof -
  obtain es where "dt_inv s es"
    using reachable_dt_inv [OF assms(1) refl assms(2,3)] by blast
  then show ?thesis
    unfolding dt_inv_def inv_heap_def inv_log_def queue_rep_def by blast
qed

theorem server_dt_order_witness:
  "\<exists>s xs. srv_reachable (srv_init ''dt'' 2 1 9) s \<and> queue_rep (q s) xs \<and>
     [(5, \<lparr>tv_sec = 1, tv_usec = 2\<rparr>)] = dispatched s @ xs"
proof -
  obtain s where s: "play (replicate 6 (Main a_world)) (srv_init ''dt'' 2 1 9) = Some s"
      "crash s = None" "enqueued s = [(5, \<lparr>tv_sec = 1, tv_usec = 2\<rparr>)]"
    using admit_run by blast
  have "srv_reachable (srv_init ''dt'' 2 1 9) s"
    using play_reachable [OF srv_reachable.start s(1)] .
  with server_dt_order [OF this _ s(2)] s(3) show ?thesis by auto
qed

text \<open>
  C16. Under \<open>dt\<close> the server never sleeps as a whole while a request waits: whenever a request
  is in the queue, some worker is not asleep on the condition variable, or the master stands
  between \<open>enqueue\<close> and its broadcast and its next step wakes every worker. A single idle
  worker may well stay asleep beside a waiting request (\<open>idle_worker_sleeps\<close> below): the master
  broadcasts only for the first request of an empty server.
\<close>

theorem server_dt_awake:
  assumes "srv_reachable (srv_init ''dt'' poolSize qmax lim) s" and "0 \<le> qmax" and "crash s = None"
    and "0 < poolSize" and "head (q s) \<noteq> None"
  shows "(\<exists>i < nat poolSize. wpc (workers s ! i) \<noteq> W_wait) \<or>
         mpc s = M_count \<and> (\<forall>ev. \<exists>s'. main_loop ev s = Some s' \<and> length (workers s') = nat poolSize \<and>
           (\<forall>i < nat poolSize. wpc (workers s' ! i) = W_wake))"
proof (cases "list_all (\<lambda>w. wpc w = W_wait) (workers s)")
  case asleep: True
  obtain es where inv: "dt_inv s es" and len: "length (workers s) = nat poolSize"
    using reachable_dt_inv [OF assms(1) refl assms(2,3)] by blast
  then have "es \<noteq> []"
    using assms(5) fifo_inv_head_None [of "q s" es] by (auto simp: dt_inv_def inv_heap_def)
  moreover have "workers s \<noteq> []" using len assms(4) by auto
  ultimately have pc: "mpc s = M_count" and one: "length es = 1"
    using inv asleep unfolding dt_inv_def inv_awake_def by blast+
  have "num (\<lambda>pc. pc = W_dec) (workers s) = 0" "num busy (workers s) = 0"
    using asleep by (auto intro!: num_zero simp: list_all_length busy_def)
  then have "queue_size s = 0" "currently_handled s = 0"
    using inv pc one unfolding dt_inv_def inv_count_def by auto
  with asleep pc len assms(3) show ?thesis
    by (simp add: main_loop_def Let_def goto_m_def broadcast_def wake_worker_def list_all_length)
next
  case False
  obtain es where "length (workers s) = nat poolSize"
    using reachable_dt_inv [OF assms(1) refl assms(2,3)] by blast
  with False show ?thesis by (auto simp: list_all_length)
qed

theorem server_dt_awake_witness:
  "\<exists>s s'. srv_reachable (srv_init ''dt'' 2 1 9) s \<and> head (q s) \<noteq> None \<and>
     wpc (workers s ! 0) = W_wait \<and> wpc (workers s ! 1) = W_wait \<and>
     main_loop a_world s = Some s' \<and> wpc (workers s' ! 0) = W_wake \<and> wpc (workers s' ! 1) = W_wake"
proof -
  let ?run = "replicate 2 (Thread 0 no_call) @ replicate 2 (Thread 1 no_call) @ replicate 4 (Main a_world)"
  have "\<exists>s. play ?run (srv_init ''dt'' 2 1 9) = Some s \<and> crash s = None \<and> head (q s) \<noteq> None \<and>
      wpc (workers s ! 0) = W_wait \<and> wpc (workers s ! 1) = W_wait"
    by (simp add: eval_nat_numeral play_simps)
  then obtain s where s: "play ?run (srv_init ''dt'' 2 1 9) = Some s" "crash s = None"
      "head (q s) \<noteq> None" "wpc (workers s ! 0) = W_wait" "wpc (workers s ! 1) = W_wait" by blast
  have r: "srv_reachable (srv_init ''dt'' 2 1 9) s"
    using play_reachable [OF srv_reachable.start s(1)] .
  have "\<not> (\<exists>i < nat 2. wpc (workers s ! i) \<noteq> W_wait)"
  proof (intro notI, elim exE conjE)
    fix i
    assume "i < nat 2" and i: "wpc (workers s ! i) \<noteq> W_wait"
    then have "i = 0 \<or> i = 1" by auto
    with i s(4,5) show False by auto
  qed
  with server_dt_awake [OF r _ s(2) _ s(3)] have
    wake: "\<exists>s'. main_loop a_world s = Some s' \<and> (\<forall>i < nat 2. wpc (workers s' ! i) = W_wake)" by force
  from wake obtain s' where s': "main_loop a_world s = Some s'"
      "\<forall>i < nat 2. wpc (workers s' ! i) = W_wake" by blast
  from s'(2) have "wpc (workers s' ! 0) = W_wake" "wpc (workers s' ! 1) = W_wake" by auto
  with r s(3-5) s'(1) show ?thesis by blast
qed

section \<open>Faults of the drop-tail server\<close>

definition memory_exhausted :: "fifo \<Rightarrow> bool" where
  "memory_exhausted f \<longleftrightarrow> limit (node_st f) \<le> fresh (node_st f) \<or> limit (int_st f) \<le> fresh (int_st f)"

definition allowed_fault :: "srv \<Rightarrow> bool" where
  "allowed_fault s \<longleftrightarrow>
     (case crash s of None \<Rightarrow> True
      | Some (w, e) \<Rightarrow> w = In_handler \<or> e = NullDeref \<and> memory_exhausted (q s) \<or>
          (\<exists>code msg. e = Exited code msg))"

lemma dequeue_fault:
  assumes "fifo_inv f es" and "dequeue t f = Inl e"
  shows "e = NullDeref \<and> memory_exhausted f"
proof (cases es)
  case Nil
  with assms dequeue_empty show ?thesis by (auto simp: dequeue_empty)
next
  case (Cons x es')
  obtain a c v tm where "x = (a, c, v, tm)" by (cases x)
  with Cons assms(1) have inv: "fifo_inv f ((a, c, v, tm) # es')" by simp
  have full: "\<not> fresh (int_st f) < limit (int_st f)"
    using dequeue_fifo_inv [OF inv, of t] assms(2) by auto
  have "e = NullDeref"
    using assms(2) inv full by (auto simp: dequeue_def fifo_inv_def store_simps malloc_init_def)
  with full show ?thesis by (simp add: memory_exhausted_def)
qed

lemma enqueue_fault:
  assumes "fifo_inv f es" and "cells (int_st f) c = Some v" and "c \<notin> set (fds_of es)"
    and "enqueue (Some c) t f = Inl e"
  shows "e = NullDeref \<and> memory_exhausted f"
proof -
  have full: "\<not> fresh (node_st f) < limit (node_st f)"
    using enqueue_fifo_inv [OF assms(1-3), of t] assms(4) by auto
  then show ?thesis
    using assms(4) by (auto simp: enqueue_def malloc_init_def memory_exhausted_def)
qed

lemma dequeue_deref:
  assumes "fifo_inv f es" and "dequeue t f = Inr (Some p, t', f')"
  shows "\<exists>v. deref (int_st f') (Some p) = Inr v"
proof -
  have "head f \<noteq> None" using assms(2) by (cases "head f") (auto simp: dequeue_def)
  then obtain a c v tm es' where es: "es = (a, c, v, tm) # es'"
    using fifo_inv_head_None [OF assms(1)] by (cases es) auto
  have "fresh (int_st f) < limit (int_st f)"
    using assms(2) \<open>head f \<noteq> None\<close>
    by (auto simp: dequeue_def malloc_init_def result_simps split: if_splits)
  from dequeue_fifo_inv [OF assms(1) [unfolded es] this, of t] assms(2) show ?thesis
    by (auto simp: deref_def)
qed

lemma worker_owns:
  assumes "inv_heap s es" and "i < length (workers s)" and "holds_w (wpc (workers s ! i))"
  obtains a v where "fd_request (workers s ! i) = Some a" "cells (int_st (q s)) a = Some v"
proof -
  obtain a where a: "fd_request (workers s ! i) = Some a"
    using assms by (auto simp: inv_heap_def)
  then have "owned s (Worker i) = Some a" using assms(2,3) by simp
  then have "cells (int_st (q s)) a \<noteq> None"
    using assms(1) unfolding inv_heap_def own_ok_def by blast
  with a that show thesis by auto
qed

lemma worker_fault:
  assumes step: "thread_function i ev s = Some s'" and inv: "dt_inv s es"
  shows "allowed_fault s'"
proof -
  have run: "crash s = None" and i: "i < length (workers s)"
    using worker_runs [OF step] by simp_all
  have heap: "inv_heap s es" and fi: "fifo_inv (q s) es" and lock: "inv_lock s"
    using inv by (auto simp: dt_inv_def inv_heap_def)
  have owner: "mutex s = Some (Worker i)" if "in_cs_w (wpc (workers s ! i))"
    using lock i that by (auto simp: inv_lock_def)
  note simps = thread_function_def srv_ops allowed_fault_def Let_def
  show ?thesis
  proof (cases "wpc (workers s ! i)")
    case W_deq
    show ?thesis
    proof (cases "dequeue (Some (wtime (workers s ! i))) (q s)")
      case (Inl e)
      with dequeue_fault [OF fi Inl] W_deq step run i show ?thesis by (auto simp: simps)
    next
      case (Inr r)
      then obtain p t f' where deq: "dequeue (Some (wtime (workers s ! i))) (q s) = Inr (p, t, f')"
        by (cases r) auto
      show ?thesis
      proof (cases p)
        case (Some a)
        then obtain v where "deref (int_st f') (Some a) = Inr v" using dequeue_deref [OF fi] deq by blast
        with Some deq W_deq step run i show ?thesis by (auto simp: simps)
      qed (use deq W_deq step run i in \<open>auto simp: simps\<close>)
    qed
  next
    case W_handle
    obtain a v where "fd_request (workers s ! i) = Some a" "cells (int_st (q s)) a = Some v"
      using worker_owns [OF heap i] W_handle by (auto simp: holds_w_def)
    with W_handle step run i show ?thesis
      by (auto simp: simps store_simps split: prod.splits sum.splits abort.splits)
  next
    case W_close
    obtain a v where "fd_request (workers s ! i) = Some a" "cells (int_st (q s)) a = Some v"
      using worker_owns [OF heap i] W_close by (auto simp: holds_w_def)
    with W_close step run i close_free_owned show ?thesis by (auto simp: simps)
  qed (use step run i owner in \<open>auto simp: simps in_cs_w_def split: if_splits\<close>)
qed

lemma master_fault:
  assumes step: "main_loop ev s = Some s'" and inv: "dt_inv s es"
  shows "allowed_fault s'"
proof -
  note run = master_runs [OF step]
  have heap: "inv_heap s es" and fi: "fifo_inv (q s) es" and lock: "inv_lock s"
    using inv by (auto simp: dt_inv_def inv_heap_def)
  have dt: "policy s = Some ''dt''" using lock by (simp add: inv_lock_def)
  note simps = main_loop_def srv_ops allowed_fault_def Let_def
  show ?thesis
  proof (cases "mpc s")
    case M_accept
    with step run show ?thesis
      by (auto simp: simps unix_error_def malloc_init_def memory_exhausted_def)
  next
    case M_check
    obtain a where "fdConnec s = Some a" "cells (int_st (q s)) a = Some (connfd s)"
      using master_owns [OF heap] M_check by (auto simp: holds_m_def)
    with M_check step run dt show ?thesis
      by (auto simp: simps store_simps Close_def unix_error_def close_free_def split: if_splits)
  next
    case (M_overload pc)
    with lock show ?thesis by (auto simp: inv_lock_def)
  next
    case M_enq
    obtain a where "fdConnec s = Some a" "cells (int_st (q s)) a = Some (connfd s)"
        "a \<notin> set (fds_of es)"
      using master_owns [OF heap] M_enq by (auto simp: holds_m_def)
    with M_enq step run enqueue_fault [OF fi] show ?thesis
      by (auto simp: simps split: sum.splits)
  next
    case M_unlock
    with lock have "mutex s = Some Master" by (auto simp: inv_lock_def in_cs_m_def)
    with M_unlock step run show ?thesis by (auto simp: simps)
  qed (use step run in \<open>auto simp: simps split: if_splits\<close>)
qed

text \<open>
  C17. Under \<open>dt\<close> the threads themselves never fail: the server stops only for an error
  inside the handling of a request, for a failed system call of the master, or when memory is
  exhausted; never for a misused mutex, a dangling pointer or a double free.
\<close>

theorem server_dt_faults:
  assumes "srv_reachable (srv_init ''dt'' poolSize qmax lim) s" and "0 \<le> qmax"
  shows "allowed_fault s"
  using assms(1)
proof (cases rule: srv_reachable.cases)
  case start
  then show ?thesis by (simp add: allowed_fault_def srv_init_def)
next
  case (step s1)
  then obtain es where inv: "dt_inv s1 es"
    using reachable_dt_inv [OF step(1) refl assms(2) srv_step_running [OF step(2)]] by blast
  from step(2) show ?thesis
  proof cases
    case master
    then show ?thesis using master_fault inv by blast
  next
    case worker
    then show ?thesis using worker_fault inv by blast
  qed (auto simp: allowed_fault_def goto_w_def goto_m_def)
qed

theorem server_dt_faults_witness:
  "\<exists>s. srv_reachable (srv_init ''dt'' 2 1 0) s \<and> crash s = Some (In_main, NullDeref) \<and>
     memory_exhausted (q s)"
proof -
  have "\<exists>s. play [Main a_world] (srv_init ''dt'' 2 1 0) = Some s \<and> crash s = Some (In_main, NullDeref)"
    by (simp add: play_simps)
  then obtain s where s: "play [Main a_world] (srv_init ''dt'' 2 1 0) = Some s"
      "crash s = Some (In_main, NullDeref)" by blast
  have "srv_reachable (srv_init ''dt'' 2 1 0) s"
    using play_reachable [OF srv_reachable.start s(1)] .
  with server_dt_faults [OF this] s(2) show ?thesis by (auto simp: allowed_fault_def)
qed

section \<open>The other policies\<close>

text \<open>Where the master may hold the mutex, under every policy.\<close>

definition master_may_hold :: "master_pc \<Rightarrow> bool" where
  "master_may_hold pc \<longleftrightarrow> pc \<in> {M_check, M_overload HO_block_test, M_overload HO_dh,
     M_overload HO_random, M_overload HO_unlock, M_enq, M_count, M_unlock}"

lemma worker_mutex:
  assumes "thread_function i ev s = Some s'" and "crash s' = None"
  shows "mutex s' = Some Master \<Longrightarrow> mutex s = Some Master"
    and "mpc s' = mpc s \<or> mpc s = M_overload HO_block_wait \<and> mpc s' = M_overload HO_block_wake"
  using assms refl
  by (cases rule: worker_cases; auto simp: goto_w_def broadcast_def)+

lemma overload_mutex:
  assumes "handle_overload pol rnd pc s = Some s'" and "crash s' = None"
    and "mutex s = Some Master \<longrightarrow> master_may_hold (M_overload pc)"
  shows "mutex s' = Some Master \<longrightarrow> master_may_hold (mpc s')"
    and "mpc s' = M_enq \<Longrightarrow> mutex s' \<noteq> Some Master"
proof -
  have "(mutex s' = Some Master \<longrightarrow> master_may_hold (mpc s')) \<and>
      (mpc s' = M_enq \<longrightarrow> mutex s' \<noteq> Some Master)"
    using assms
    by (cases pc) (auto simp: handle_overload_def srv_ops master_may_hold_def
      split: if_splits sum.splits)
  then show "mutex s' = Some Master \<longrightarrow> master_may_hold (mpc s')"
    and "mpc s' = M_enq \<Longrightarrow> mutex s' \<noteq> Some Master" by blast+
qed

lemma master_mutex:
  assumes step: "main_loop ev s = Some s'" and ok: "crash s' = None"
    and inv: "mutex s = Some Master \<longrightarrow> master_may_hold (mpc s)"
  shows "mutex s' = Some Master \<longrightarrow> master_may_hold (mpc s')"
proof (cases "mpc s")
  case (M_overload pc)
  then obtain pol where "handle_overload pol (rands ev) pc s = Some s'"
    using step master_runs [OF step] by (auto simp: main_loop_def split: option.splits)
  with overload_mutex(1) ok inv M_overload show ?thesis by simp
next
  case M_check
  then have "mutex s' = Some Master \<Longrightarrow> mpc s' \<in> {M_check, M_unlock, M_enq}"
    using step ok master_runs [OF step]
    by (auto simp: main_loop_def srv_ops split: if_splits sum.splits option.splits)
  then show ?thesis by (auto simp: master_may_hold_def)
qed (use step ok inv master_runs [OF step] in
    \<open>auto simp: main_loop_def srv_ops master_may_hold_def Let_def split: if_splits sum.splits\<close>)

lemma reachable_master_may_hold:
  assumes "srv_reachable (srv_init pol poolSize qmax lim) s"
  shows "crash s = None \<Longrightarrow> mutex s = Some Master \<longrightarrow> master_may_hold (mpc s)"
  using assms
proof (induction rule: srv_reachable.induct)
  case start
  then show ?case by (simp add: srv_init_def)
next
  case (step s s')
  have run: "crash s = None" by (rule srv_step_running [OF step.hyps(2)])
  with step have inv: "mutex s = Some Master \<longrightarrow> master_may_hold (mpc s)" by simp
  from step.hyps(2) show ?case
  proof cases
    case master
    then show ?thesis using master_mutex step.prems inv by blast
  next
    case (worker i ev)
    have "mutex s' = Some Master \<Longrightarrow> mutex s = Some Master"
      "mpc s' = mpc s \<or> mpc s = M_overload HO_block_wait"
      using worker_mutex [OF worker step.prems] by auto
    then show ?thesis using inv by (auto simp: master_may_hold_def)
  qed (use inv in \<open>auto simp: goto_w_def goto_m_def master_may_hold_def\<close>)
qed

text \<open>The master inserts a request, or is about to unlock, without holding the mutex.\<close>

definition exposed :: "srv \<Rightarrow> bool" where
  "exposed s \<longleftrightarrow> mpc s \<in> {M_enq, M_count, M_unlock} \<and> mutex s \<noteq> Some Master"

lemma exposed_step:
  assumes "exposed s" and "srv_step s s'"
  shows "crash s' \<noteq> None \<or> exposed s' \<and> mpc s \<noteq> M_unlock \<or> exposed s' \<and> mpc s' = mpc s"
  using assms(2)
proof cases
  case (master ev)
  have free: "mutex s \<noteq> Some Master" and run: "crash s = None"
    using assms(1) master_runs [OF master] by (auto simp: exposed_def)
  from assms(1) consider "mpc s = M_enq" | "mpc s = M_count" | "mpc s = M_unlock"
    by (auto simp: exposed_def)
  then show ?thesis
  proof cases
    case 1
    with master free run show ?thesis
      by (auto simp: exposed_def main_loop_def srv_ops split: sum.splits)
  next
    case 2
    with master free run show ?thesis
      by (cases "queue_size s + currently_handled s = 0")
        (auto simp: exposed_def main_loop_def srv_ops Let_def)
  next
    case 3
    with master free run show ?thesis by (auto simp: main_loop_def srv_ops)
  qed
next
  case (worker i ev)
  show ?thesis
  proof (cases "crash s' = None")
    case True
    with worker_mutex [OF worker] assms(1) show ?thesis by (auto simp: exposed_def)
  qed simp
qed (use assms(1) in \<open>auto simp: exposed_def goto_w_def\<close>)

text \<open>
  C39. The overload path leaves the critical section: whatever the policy, when
  \<open>handle_overload\<close> returns, the master does not hold the mutex, although it goes on to
  modify the queue and the counter. From then on every step keeps it unprotected, and the
  \<open>pthread_mutex_unlock\<close> at the end of the iteration unlocks a mutex it does not own.
\<close>

theorem overload_unprotected:
  assumes "srv_reachable (srv_init pol poolSize qmax lim) s" and "mpc s = M_overload pc"
    and "srv_step s s'" and "mpc s' = M_enq" and "crash s' = None"
  shows "exposed s' \<and>
         (\<forall>t t'. exposed t \<longrightarrow> srv_step t t' \<longrightarrow> crash t' = None \<longrightarrow> exposed t') \<and>
         (\<forall>t t' ev. exposed t \<longrightarrow> mpc t = M_unlock \<longrightarrow> main_loop ev t = Some t' \<longrightarrow>
            crash t' = Some (In_main, MutexMisuse))"
proof -
  have inv: "mutex s = Some Master \<longrightarrow> master_may_hold (M_overload pc)"
    using reachable_master_may_hold [OF assms(1) srv_step_running [OF assms(3)]] assms(2) by simp
  have "mutex s' \<noteq> Some Master"
    using assms(3)
  proof cases
    case (master ev)
    then obtain p where "handle_overload p (rands ev) pc s = Some s'"
      using assms(2) master_runs [OF master] by (auto simp: main_loop_def split: option.splits)
    then show ?thesis using overload_mutex(2) assms(4,5) inv by blast
  next
    case (worker i ev)
    then show ?thesis using worker_mutex(2) [OF worker assms(5)] assms(2,4) by auto
  qed (use assms(2,4) in \<open>auto simp: goto_w_def goto_m_def\<close>)
  then have "exposed s'" using assms(4) by (simp add: exposed_def)
  moreover have "crash t' = Some (In_main, MutexMisuse)"
    if "exposed t" "mpc t = M_unlock" "main_loop ev t = Some t'" for t t' ev
    using that master_runs [OF that(3)] by (auto simp: main_loop_def exposed_def srv_ops)
  ultimately show ?thesis using exposed_step by blast
qed

theorem overload_unprotected_witness:
  "\<exists>s. srv_reachable (srv_init ''dh'' 1 1 9) s \<and> crash s = Some (In_main, MutexMisuse)"
proof -
  let ?s0 = "srv_init ''dh'' 1 1 9"
  have "\<exists>s s' u t t'. play (replicate 12 (Main a_world)) ?s0 = Some s \<and> mpc s = M_overload HO_unlock \<and>
      main_loop a_world s = Some s' \<and> mpc s' = M_enq \<and> crash s' = None \<and>
      main_loop a_world s' = Some u \<and>
      main_loop a_world u = Some t \<and> mpc t = M_unlock \<and> crash t = None \<and>
      main_loop a_world t = Some t'"
    by (simp add: eval_nat_numeral play_simps)
  then obtain s s' u t t' where
    s: "play (replicate 12 (Main a_world)) ?s0 = Some s" "mpc s = M_overload HO_unlock"
    and s': "main_loop a_world s = Some s'" "mpc s' = M_enq" "crash s' = None"
    and u: "main_loop a_world s' = Some u" "main_loop a_world u = Some t"
    and t: "mpc t = M_unlock" "crash t = None" and t': "main_loop a_world t = Some t'"
    by blast
  have r: "srv_reachable ?s0 s" using play_reachable [OF srv_reachable.start s(1)] .
  note ex = overload_unprotected [OF r s(2) srv_step.master [OF s'(1)] s'(2,3)]
  have "exposed u" using ex u srv_step.master master_runs [OF u(2)] by blast
  then have "exposed t" using ex srv_step.master [OF u(2)] t(2) by blast
  then have "crash t' = Some (In_main, MutexMisuse)" using ex t(1) t' by blast
  moreover have "srv_reachable ?s0 t'"
    using r s'(1) u t' srv_step.master srv_reachable.step by meson
  ultimately show ?thesis by blast
qed

lemma random_count_arith:
  "(if int n smod 4 = 0 then 3 * (int n sdiv 4) else int n - int n sdiv 4 + 1) =
     int (3 * n div 4) + (if 4 dvd n then 0 else 2)"
proof -
  have "int n smod 4 = int n mod 4" "int n sdiv 4 = int n div 4"
    by (simp_all add: signed_modulo_int_def signed_divide_int_def sgn_if)
  moreover obtain k r where n: "n = 4 * k + r" "r < 4"
    by (metis mod_less_divisor mult_div_mod_eq zero_less_numeral)
  moreover from n(2) have "r \<in> {0, 1, 2, 3}" by auto
  ultimately show ?thesis by auto presburger+
qed

text \<open>
  The policy \<open>random\<close> loses count: when the queue holds \<open>n \<ge> 2\<close> requests and \<open>n\<close> is not
  a multiple of four, \<open>random_drop\<close> removes \<open>n div 4 + 1\<close> of them but \<open>queue_size\<close>
  becomes \<open>n - n div 4 + 1\<close>, two more than the length of the queue; for a multiple of four
  the counter is right.
\<close>

theorem overload_random_count:
  assumes "crash s = None" and "mpc s = M_overload HO_random" and "policy s = Some ''random''"
    and "queue_rep (q s) xs" and "queue_size s = int (length xs)" and "2 \<le> length xs"
    and "queue_size s + currently_handled s = QmaxSize s"
  shows "\<exists>s' ys. main_loop ev s = Some s' \<and> crash s' = None \<and> queue_rep (q s') ys \<and>
           length ys = 3 * length xs div 4 \<and>
           queue_size s' = int (length ys) + (if 4 dvd length xs then 0 else 2)"
proof -
  obtain f ys where drop: "random_drop (rands ev) (int (length xs)) (q s) = Inr (1, f)"
      "queue_rep f ys" "length ys = 3 * length xs div 4"
    using random_drop_shortens [OF assms(4,6)] by blast
  define s' where "s' = goto_m (M_overload HO_unlock) (s\<lparr>q := f, queue_size :=
      int (3 * length xs div 4) + (if 4 dvd length xs then 0 else 2)\<rparr>)"
  have "main_loop ev s = Some s'"
    using assms drop(1)
    by (simp only: main_loop_def handle_overload_def run_def s'_def random_count_arith [symmetric]) simp
  moreover have "crash s' = None" "q s' = f"
      "queue_size s' = int (length ys) + (if 4 dvd length xs then 0 else 2)"
    using assms(1) drop(3) by (simp_all add: s'_def goto_m_def)
  ultimately show ?thesis using drop(2,3) by blast
qed

theorem overload_random_count_witness:
  "\<exists>s s' ys. main_loop a_world s = Some s' \<and> queue_rep (q s') ys \<and> length ys = 3 \<and> queue_size s' = 5"
proof -
  let ?xs = "replicate 5 (7, \<lparr>tv_sec = 1, tv_usec = 0\<rparr>) :: (int \<times> timeval) list"
  obtain f where f: "queue_rep f ?xs"
    using fq.enq_all_appends [OF queue_rep_init, of 5 ?xs 0] by (auto simp: room_init)
  let ?s = "(srv_init ''random'' 1 5 9)\<lparr>q := f, queue_size := 5, mpc := M_overload HO_random,
      mutex := Some Master\<rparr>"
  from overload_random_count [of ?s ?xs a_world] f
  have "\<exists>s' ys. main_loop a_world ?s = Some s' \<and> queue_rep (q s') ys \<and> length ys = 3 \<and>
      queue_size s' = 5"
    by (auto simp: srv_init_def)
  then show ?thesis by blast
qed

text \<open>
  The policy \<open>dh\<close> trusts a test made before the mutex was released: a worker can empty
  the queue in between, and the master then reads through the null result of \<open>dequeue\<close>.
\<close>

theorem overload_dh_null:
  "\<exists>s. srv_reachable (srv_init ''dh'' 1 1 9) s \<and> crash s = Some (In_main, NullDeref) \<and>
     \<not> memory_exhausted (q s)"
proof -
  let ?run = "replicate 9 (Main a_world) @ replicate 5 (Thread 0 no_call) @ replicate 3 (Main a_world)"
  have "\<exists>s. play ?run (srv_init ''dh'' 1 1 9) = Some s \<and> crash s = Some (In_main, NullDeref) \<and>
      \<not> memory_exhausted (q s)"
    by (simp add: eval_nat_numeral play_simps memory_exhausted_def)
  then show ?thesis using play_reachable [OF srv_reachable.start] by blast
qed

text \<open>
  A broadcast for the first request only: with two workers, one busy and one asleep, a
  second request stays in the queue although a worker is idle.
\<close>

theorem idle_worker_sleeps:
  "\<exists>s. srv_reachable (srv_init ''dt'' 2 9 9) s \<and> crash s = None \<and> mpc s = M_accept \<and>
     head (q s) \<noteq> None \<and> wpc (workers s ! 0) = W_handle \<and> wpc (workers s ! 1) = W_wait"
proof -
  let ?run = "replicate 2 (Thread 0 no_call) @ replicate 6 (Main a_world) @
    replicate 5 (Thread 0 no_call) @ replicate 2 (Thread 1 no_call) @ replicate 6 (Main a_world)"
  have "\<exists>s. play ?run (srv_init ''dt'' 2 9 9) = Some s \<and> crash s = None \<and> mpc s = M_accept \<and>
     head (q s) \<noteq> None \<and> wpc (workers s ! 0) = W_handle \<and> wpc (workers s ! 1) = W_wait"
    by (simp add: eval_nat_numeral play_simps)
  then show ?thesis using play_reachable [OF srv_reachable.start] by blast
qed

end
