(* ===== verification/Kernel_Weights.thy ===== *)
theory Kernel_Weights
  imports Prelude
begin

text \<open>
  The weight system calls, \<^verbatim>\<open>newSyscalls_imp.c\<close>, over the fields of \<open>task_struct\<close> that they
  use. Tasks live at addresses; the intrusive lists of \<^verbatim>\<open>list.h\<close> are kept as the pointers they
  are: a \<open>list_head\<close> is either the field \<open>children\<close> of a task (the head of its list) or the
  field \<open>sibling\<close> of a task (an element). Weights are of type \<open>int\<close>; their sums are integers
  here, since they stay in the range of \<open>long\<close> (\<open>total_fits_long\<close>).
\<close>

section \<open>State\<close>

datatype list_head = Children nat | Sibling nat

record task_struct =
  weight :: int
  pid :: int
  real_parent :: nat
  children :: list_head        \<comment> \<open>\<open>children.next\<close>\<close>
  sibling :: list_head         \<comment> \<open>\<open>sibling.next\<close>\<close>

type_synonym tasks = "nat \<rightharpoonup> task_struct"

definition task :: "tasks \<Rightarrow> nat \<Rightarrow> task_struct res" where
  "task ts p = (case ts p of None \<Rightarrow> Inl BadPointer | Some t \<Rightarrow> Inr t)"

definition EINVAL :: int where "EINVAL = 22"
definition ECHILD :: int where "ECHILD = 10"

text \<open>The static initialiser of the first task: process 0, its own parent, no children.\<close>

definition INIT_TASK :: "nat \<Rightarrow> task_struct" where
  "INIT_TASK tsk = \<lparr>weight = 0, pid = 0, real_parent = tsk, children = Children tsk,
                    sibling = Sibling tsk\<rparr>"

section \<open>System calls\<close>

definition sys_hello :: "string list \<Rightarrow> int \<times> string list" where
  "sys_hello log = (0, log @ [''Hello, World!'' @ [CHR 0x0A]])"

definition sys_set_weight :: "int \<Rightarrow> nat \<Rightarrow> tasks \<Rightarrow> (int \<times> tasks) res" where
  "sys_set_weight w current ts =
     (if w < 0 then Inr (- EINVAL, ts)
      else rbind (task ts current) (\<lambda>t. Inr (0, ts(current \<mapsto> t\<lparr>weight := w\<rparr>))))"

definition sys_get_weight :: "nat \<Rightarrow> tasks \<Rightarrow> int res" where
  "sys_get_weight current ts = rbind (task ts current) (\<lambda>t. Inr (weight t))"

text \<open>
  The recursion over the tree of processes and its loop \<open>list_for_each\<close>; \<open>list_entry\<close> turns
  an element of the list into its task. An element that is the head of another list would be
  a corrupted list. One unit of fuel per call and per iteration.
\<close>

fun traverse_children_sum_weight :: "nat \<Rightarrow> tasks \<Rightarrow> nat \<Rightarrow> int res"
  and children_loop :: "nat \<Rightarrow> tasks \<Rightarrow> nat \<Rightarrow> list_head \<Rightarrow> int \<Rightarrow> int res" where
  "traverse_children_sum_weight 0 ts root_task = Inl OutOfFuel"
| "traverse_children_sum_weight (Suc fuel) ts root_task =
     rbind (task ts root_task) (\<lambda>t. children_loop fuel ts root_task (children t) (weight t))"
| "children_loop 0 ts root_task l acc = Inl OutOfFuel"
| "children_loop (Suc fuel) ts root_task l acc =
     (if l = Children root_task then Inr acc
      else case l of
        Children _ \<Rightarrow> Inl BadPointer
      | Sibling c \<Rightarrow>
          rbind (traverse_children_sum_weight fuel ts c) (\<lambda>w.
          rbind (task ts c) (\<lambda>t.
            children_loop fuel ts root_task (sibling t) (acc + w))))"

definition sys_get_children_sum :: "nat \<Rightarrow> nat \<Rightarrow> tasks \<Rightarrow> int res" where
  "sys_get_children_sum fuel current ts =
     rbind (task ts current) (\<lambda>cur.
       if children cur = Children current then Inr (- ECHILD)
       else rbind (traverse_children_sum_weight fuel ts current) (\<lambda>s. Inr (s - weight cur)))"

fun ancestor_loop :: "nat \<Rightarrow> tasks \<Rightarrow> nat \<Rightarrow> int \<Rightarrow> int \<Rightarrow> int res" where
  "ancestor_loop 0 ts p max_p max_w = Inl OutOfFuel"
| "ancestor_loop (Suc fuel) ts p max_p max_w =
     rbind (task ts p) (\<lambda>t.
       if pid t = 0 then Inr max_p
       else if weight t > max_w then ancestor_loop fuel ts (real_parent t) (pid t) (weight t)
       else ancestor_loop fuel ts (real_parent t) max_p max_w)"

definition sys_get_heaviest_ancestor :: "nat \<Rightarrow> nat \<Rightarrow> tasks \<Rightarrow> int res" where
  "sys_get_heaviest_ancestor fuel current ts =
     rbind (task ts current) (\<lambda>cur.
       ancestor_loop fuel ts (real_parent cur) (pid cur) (weight cur))"

section \<open>Weights\<close>

lemma task_Inr [simp]: "task ts p = Inr t \<longleftrightarrow> ts p = Some t"
  by (auto simp: task_def split: option.splits)

lemma task_Some [simp]: "ts p = Some t \<Longrightarrow> task ts p = Inr t"
  by simp

definition weights_ok :: "tasks \<Rightarrow> bool" where
  "weights_ok ts \<longleftrightarrow> (\<forall>p t. ts p = Some t \<longrightarrow> 0 \<le> weight t)"

text \<open>
  C29. \<open>set_weight\<close> and \<open>get_weight\<close>: a negative weight is refused with \<open>-EINVAL\<close> and changes
  nothing; any other weight is read back by the same process, no other task and no other
  field changes, and weights stay non-negative.
\<close>

theorem set_get_weight:
  assumes "ts current = Some t" and "weights_ok ts"
  shows "\<exists>rc ts'. sys_set_weight w current ts = Inr (rc, ts') \<and> weights_ok ts' \<and>
           (if w < 0 then rc = -22 \<and> ts' = ts
            else rc = 0 \<and> sys_get_weight current ts' = Inr w \<and>
                 ts' current = Some (t\<lparr>weight := w\<rparr>) \<and> (\<forall>p. p \<noteq> current \<longrightarrow> ts' p = ts p))"
  using assms by (auto simp: sys_set_weight_def sys_get_weight_def weights_ok_def EINVAL_def)

theorem set_get_weight_witness:
  "\<exists>ts'. sys_set_weight 7 0 [0 \<mapsto> INIT_TASK 0] = Inr (0, ts') \<and> sys_get_weight 0 ts' = Inr 7"
proof -
  have "weights_ok [0 \<mapsto> INIT_TASK 0]" by (auto simp: weights_ok_def INIT_TASK_def split: if_splits)
  then show ?thesis
    using set_get_weight [of "[0 \<mapsto> INIT_TASK 0]" 0 "INIT_TASK 0" 7] by auto
qed

section \<open>The tree of processes\<close>

datatype ptree = PNode (root: nat) (subs: "ptree list")

text \<open>
  \<open>tree_rep ts t\<close>: the task at the root is linked to its children as the tree says;
  \<open>list_rep ts p l cs\<close>: from \<open>l\<close> the list of children of \<open>p\<close> holds the trees \<open>cs\<close>.
\<close>

fun tree_rep :: "tasks \<Rightarrow> ptree \<Rightarrow> bool"
  and list_rep :: "tasks \<Rightarrow> nat \<Rightarrow> list_head \<Rightarrow> ptree list \<Rightarrow> bool" where
  "tree_rep ts (PNode p cs) =
     (case ts p of None \<Rightarrow> False | Some t \<Rightarrow> list_rep ts p (children t) cs)"
| "list_rep ts p l [] = (l = Children p)"
| "list_rep ts p l (c # cs) =
     (l = Sibling (root c) \<and> tree_rep ts c \<and>
      (case ts (root c) of None \<Rightarrow> False | Some t \<Rightarrow> list_rep ts p (sibling t) cs))"

fun tasks_of :: "ptree \<Rightarrow> nat list" and tasks_of_list :: "ptree list \<Rightarrow> nat list" where
  "tasks_of (PNode p cs) = p # tasks_of_list cs"
| "tasks_of_list [] = []"
| "tasks_of_list (c # cs) = tasks_of c @ tasks_of_list cs"

definition weight_of :: "tasks \<Rightarrow> nat \<Rightarrow> int" where
  "weight_of ts p = (case ts p of None \<Rightarrow> 0 | Some t \<Rightarrow> weight t)"

abbreviation total :: "tasks \<Rightarrow> nat list \<Rightarrow> int" where
  "total ts ps \<equiv> sum_list (map (weight_of ts) ps)"

lemma traverse_total:
  "tree_rep ts t \<Longrightarrow> 2 * length (tasks_of t) \<le> fuel \<Longrightarrow>
     traverse_children_sum_weight fuel ts (root t) = Inr (total ts (tasks_of t))"
  "list_rep ts p l cs \<Longrightarrow> 2 * length (tasks_of_list cs) < fuel \<Longrightarrow>
     children_loop fuel ts p l s = Inr (s + total ts (tasks_of_list cs))"
proof (induction ts t and ts p l cs arbitrary: fuel and fuel s rule: tree_rep_list_rep.induct)
  case (1 ts p cs)
  then obtain fuel' t where "fuel = Suc fuel'" "2 * length (tasks_of_list cs) < fuel'"
      "ts p = Some t" "list_rep ts p (children t) cs"
    by (cases fuel) (auto split: option.splits)
  with "1.IH" show ?case by (simp add: weight_of_def)
next
  case (2 ts p l)
  then show ?case by (cases fuel) auto
next
  case (3 ts p l c cs)
  obtain t where t: "l = Sibling (root c)" "tree_rep ts c" "ts (root c) = Some t"
      "list_rep ts p (sibling t) cs"
    using "3.prems"(1) by (auto split: option.splits)
  obtain q gs where c: "c = PNode q gs" by (cases c)
  obtain fuel' where fuel: "fuel = Suc fuel'" "2 * length (tasks_of c) \<le> fuel'"
      "2 * length (tasks_of_list cs) < fuel'"
    using "3.prems"(2) c by (cases fuel) auto
  have "traverse_children_sum_weight fuel' ts (root c) = Inr (total ts (tasks_of c))"
    using "3.IH"(1) [OF t(2) fuel(2)] .
  moreover have "children_loop fuel' ts p (sibling t) s' = Inr (s' + total ts (tasks_of_list cs))" for s'
    using "3.IH"(2) [OF t(3,4) fuel(3)] .
  ultimately show ?case using t fuel(1) by simp
qed

text \<open>
  C13. \<open>get_children_sum\<close> returns the sum of the weights of all proper descendants of the
  caller, or \<open>-ECHILD\<close> when it has no child; two units of fuel per process are enough.
  With non-negative weights the error cannot be confused with a sum.
\<close>

theorem get_children_sum_correct:
  assumes "tree_rep ts (PNode current cs)" and "2 * length (tasks_of (PNode current cs)) \<le> fuel"
    and "weights_ok ts"
  shows "sys_get_children_sum fuel current ts =
           Inr (if cs = [] then -10 else total ts (tasks_of_list cs)) \<and>
         0 \<le> total ts (tasks_of_list cs)"
proof -
  obtain t where t: "ts current = Some t" "list_rep ts current (children t) cs"
    using assms(1) by (auto split: option.splits)
  have "0 \<le> total ts ps" for ps
    using assms(3) by (auto intro!: sum_list_nonneg simp: weights_ok_def weight_of_def split: option.splits)
  moreover have "children t = Children current \<longleftrightarrow> cs = []" using t(2) by (cases cs) auto
  ultimately show ?thesis
    using t traverse_total(1) [OF assms(1,2)]
    by (auto simp: sys_get_children_sum_def ECHILD_def weight_of_def)
qed

text \<open>
  Why the sums are integers here: with weights of type \<open>int\<close> and fewer than \<open>2 ^ 32\<close> tasks, every
  partial sum of the recursion stays below \<open>2 ^ 63\<close>, so that a \<open>long\<close> of 64 bits never overflows.
  A kernel whose \<open>long\<close> has 32 bits is out of range as soon as two weights add up to \<open>2 ^ 31\<close>.
\<close>

lemma total_fits_long:
  assumes "weights_ok ts" and "\<And>p t. ts p = Some t \<Longrightarrow> weight t < 2 ^ 31" and "length ps < 2 ^ 32"
  shows "0 \<le> total ts ps \<and> total ts ps < 2 ^ 63"
proof -
  have w: "0 \<le> weight_of ts p \<and> weight_of ts p \<le> 2 ^ 31" for p
    using assms(1,2) by (force simp: weights_ok_def weight_of_def split: option.splits)
  have "total ts ps \<le> int (length ps) * 2 ^ 31 \<and> 0 \<le> total ts ps"
  proof (induction ps)
    case (Cons p ps)
    then show ?case using w [of p] by (simp add: distrib_right)
  qed simp
  moreover have "int (length ps) * 2 ^ 31 < 2 ^ 32 * 2 ^ 31" using assms(3) by simp
  ultimately show ?thesis by simp
qed

text \<open>Process 0 with a child of weight 5 and a grandchild of weight 8.\<close>

definition family :: tasks where
  "family = [0 \<mapsto> (INIT_TASK 0)\<lparr>children := Sibling 1\<rparr>,
     1 \<mapsto> \<lparr>weight = 5, pid = 1, real_parent = 0, children = Sibling 2, sibling = Children 0\<rparr>,
     2 \<mapsto> \<lparr>weight = 8, pid = 40, real_parent = 1, children = Children 2, sibling = Children 1\<rparr>]"

theorem get_children_sum_correct_witness:
  "sys_get_children_sum 6 0 family = Inr 13"
  using get_children_sum_correct [of family 0 "[PNode 1 [PNode 2 []]]" 6]
  by (auto simp: family_def weights_ok_def weight_of_def INIT_TASK_def)

section \<open>Ancestors\<close>

text \<open>\<open>ancestors ts p as\<close>: from \<open>p\<close> upwards the tasks before process 0 are \<open>as\<close>.\<close>

fun ancestors :: "tasks \<Rightarrow> nat \<Rightarrow> task_struct list \<Rightarrow> bool" where
  "ancestors ts p [] = (\<exists>t. ts p = Some t \<and> pid t = 0)"
| "ancestors ts p (a # as) = (ts p = Some a \<and> pid a \<noteq> 0 \<and> ancestors ts (real_parent a) as)"

text \<open>The first task of maximal weight.\<close>

fun heaviest :: "task_struct \<Rightarrow> task_struct list \<Rightarrow> task_struct" where
  "heaviest m [] = m"
| "heaviest m (a # as) = (if weight a > weight m then heaviest a as else heaviest m as)"

lemma ancestor_loop_heaviest:
  "ancestors ts p as \<Longrightarrow> length as < fuel \<Longrightarrow>
   ancestor_loop fuel ts p (pid m) (weight m) = Inr (pid (heaviest m as))"
proof (induction as arbitrary: p m fuel)
  case Nil
  then show ?case by (cases fuel) auto
next
  case (Cons a as)
  then show ?case by (cases fuel) auto
qed

lemma heaviest_first_max:
  "\<exists>i < Suc (length as). heaviest m as = (m # as) ! i \<and>
     (\<forall>j < Suc (length as). weight ((m # as) ! j) \<le> weight ((m # as) ! i)) \<and>
     (\<forall>j < i. weight ((m # as) ! j) < weight ((m # as) ! i))"
proof (induction as arbitrary: m)
  case (Cons a as)
  show ?case
  proof (cases "weight a > weight m")
    case True
    obtain i where i: "i < Suc (length as)" "heaviest a as = (a # as) ! i"
        "\<forall>j < Suc (length as). weight ((a # as) ! j) \<le> weight ((a # as) ! i)"
        "\<forall>j < i. weight ((a # as) ! j) < weight ((a # as) ! i)"
      using Cons.IH [of a] by blast
    have "weight m < weight ((a # as) ! i)" using True i(3) by (auto dest!: spec [of _ 0])
    with True i show ?thesis
      by (intro exI [of _ "Suc i"]) (auto simp: less_Suc_eq_0_disj)
  next
    case False
    obtain i where i: "i < Suc (length as)" "heaviest m as = (m # as) ! i"
        "\<forall>j < Suc (length as). weight ((m # as) ! j) \<le> weight ((m # as) ! i)"
        "\<forall>j < i. weight ((m # as) ! j) < weight ((m # as) ! i)"
      using Cons.IH [of m] by blast
    show ?thesis
    proof (cases i)
      case 0
      with False i show ?thesis by (intro exI [of _ 0]) (auto simp: less_Suc_eq_0_disj)
    next
      case (Suc k)
      have "weight m < weight (as ! k)" using i(4) Suc by auto
      with False i Suc show ?thesis
        by (intro exI [of _ "Suc (Suc k)"]) (auto simp: less_Suc_eq_0_disj)
    qed
  qed
qed simp

text \<open>
  C28. \<open>get_heaviest_ancestor\<close> returns the pid of the nearest task of maximal weight among the
  caller and its ancestors below process 0; process 0 itself is never considered, and one
  unit of fuel per ancestor is enough.
\<close>

theorem get_heaviest_ancestor_correct:
  assumes "ts current = Some cur" and "ancestors ts (real_parent cur) as" and "length as < fuel"
  shows "\<exists>i \<le> length as. sys_get_heaviest_ancestor fuel current ts = Inr (pid ((cur # as) ! i)) \<and>
           (\<forall>j \<le> length as. weight ((cur # as) ! j) \<le> weight ((cur # as) ! i)) \<and>
           (\<forall>j < i. weight ((cur # as) ! j) < weight ((cur # as) ! i))"
proof -
  have "sys_get_heaviest_ancestor fuel current ts = Inr (pid (heaviest cur as))"
    using assms ancestor_loop_heaviest by (simp add: sys_get_heaviest_ancestor_def)
  then show ?thesis
    using heaviest_first_max [of as cur] by (auto simp: less_Suc_eq_le)
qed

theorem get_heaviest_ancestor_correct_witness:
  "sys_get_heaviest_ancestor 9 2 family = Inr 40"
proof -
  let ?a = "\<lparr>weight = 5, pid = 1, real_parent = 0, children = Sibling 2, sibling = Children 0\<rparr>"
  let ?c = "\<lparr>weight = 8, pid = 40, real_parent = 1, children = Children 2, sibling = Children 1\<rparr>"
  have "family 2 = Some ?c" "ancestors family (real_parent ?c) [?a]"
    by (simp_all add: family_def INIT_TASK_def)
  from get_heaviest_ancestor_correct [OF this, of 9]
  obtain i where i: "i \<le> 1" "sys_get_heaviest_ancestor 9 2 family = Inr (pid ([?c, ?a] ! i))"
      "weight ([?c, ?a] ! 0) \<le> weight ([?c, ?a] ! i)" by auto
  then have "i = 0" by (cases i) auto
  with i(2) show ?thesis by simp
qed

end
