(* ===== verification/Kernel_Sched.thy ===== *)
theory Kernel_Sched
  imports Kernel_Weights "HOL-Library.Word"
begin

text \<open>
  The inline functions and macros of \<^verbatim>\<open>sched.h\<close> that compute on the fields of a task: states
  and how they are reported, process flags, atomic flags, and identifiers. Fields have their
  width on a 64-bit kernel with \<^verbatim>\<open>CONFIG_SMP\<close>, without \<^verbatim>\<open>CONFIG_DEBUG_ATOMIC_SLEEP\<close>. What the
  header takes from others (\<open>fls\<close>, the bit operations, \<open>__task_pid_nr_ns\<close>) is an argument.
\<close>

unbundle bit_operations_syntax

section \<open>Fields\<close>

datatype pid_type = PIDTYPE_PID | PIDTYPE_PGID | PIDTYPE_SID | PIDTYPE_TGID

record sched_task = task_struct +
  state :: "64 word"
  flags :: "32 word"
  nr_cpus_allowed :: int
  exit_state :: "32 word"
  atomic_flags :: "64 word"
  tgid :: int
  group_leader :: nat
  pids :: "pid_type \<Rightarrow> ptr"      \<comment> \<open>\<open>pids[type].pid\<close>\<close>

type_synonym sched_tasks = "nat \<rightharpoonup> sched_task"

definition sched_task_at :: "sched_tasks \<Rightarrow> nat \<Rightarrow> sched_task res" where
  "sched_task_at ts p = (case ts p of None \<Rightarrow> Inl BadPointer | Some t \<Rightarrow> Inr t)"

section \<open>States\<close>

definition TASK_RUNNING :: "32 word" where "TASK_RUNNING = 0x0000"
definition TASK_INTERRUPTIBLE :: "32 word" where "TASK_INTERRUPTIBLE = 0x0001"
definition TASK_UNINTERRUPTIBLE :: "32 word" where "TASK_UNINTERRUPTIBLE = 0x0002"
definition TASK_STOPPED_bit :: "32 word" where "TASK_STOPPED_bit = 0x0004"
definition TASK_TRACED_bit :: "32 word" where "TASK_TRACED_bit = 0x0008"
definition EXIT_DEAD :: "32 word" where "EXIT_DEAD = 0x0010"
definition EXIT_ZOMBIE :: "32 word" where "EXIT_ZOMBIE = 0x0020"
definition TASK_PARKED :: "32 word" where "TASK_PARKED = 0x0040"
definition TASK_WAKEKILL :: "32 word" where "TASK_WAKEKILL = 0x0100"
definition TASK_NOLOAD :: "32 word" where "TASK_NOLOAD = 0x0400"

definition TASK_KILLABLE :: "32 word" where "TASK_KILLABLE = TASK_WAKEKILL OR TASK_UNINTERRUPTIBLE"
definition TASK_STOPPED :: "32 word" where "TASK_STOPPED = TASK_WAKEKILL OR TASK_STOPPED_bit"
definition TASK_TRACED :: "32 word" where "TASK_TRACED = TASK_WAKEKILL OR TASK_TRACED_bit"
definition TASK_IDLE :: "32 word" where "TASK_IDLE = TASK_UNINTERRUPTIBLE OR TASK_NOLOAD"

definition TASK_REPORT :: "32 word" where
  "TASK_REPORT = TASK_RUNNING OR TASK_INTERRUPTIBLE OR TASK_UNINTERRUPTIBLE OR TASK_STOPPED_bit OR
     TASK_TRACED_bit OR EXIT_DEAD OR EXIT_ZOMBIE OR TASK_PARKED"

definition TASK_REPORT_IDLE :: "32 word" where "TASK_REPORT_IDLE = TASK_REPORT + 1"

lemmas task_bits = TASK_RUNNING_def TASK_INTERRUPTIBLE_def TASK_UNINTERRUPTIBLE_def TASK_STOPPED_bit_def
  TASK_TRACED_bit_def EXIT_DEAD_def EXIT_ZOMBIE_def TASK_PARKED_def TASK_WAKEKILL_def TASK_NOLOAD_def
  TASK_KILLABLE_def TASK_STOPPED_def TASK_TRACED_def TASK_IDLE_def TASK_REPORT_def TASK_REPORT_IDLE_def

definition PF_IDLE :: "32 word" where "PF_IDLE = 0x00000002"
definition PF_USED_MATH :: "32 word" where "PF_USED_MATH = 0x00002000"
definition PF_FROZEN :: "32 word" where "PF_FROZEN = 0x00010000"
definition PF_KTHREAD :: "32 word" where "PF_KTHREAD = 0x00200000"
definition PF_NO_SETAFFINITY :: "32 word" where "PF_NO_SETAFFINITY = 0x04000000"

text \<open>The constants are converted to the type of the field they are compared with.\<close>

definition task_is_traced :: "sched_task \<Rightarrow> bool" where
  "task_is_traced t \<longleftrightarrow> state t AND ucast TASK_TRACED_bit \<noteq> 0"

definition task_is_stopped :: "sched_task \<Rightarrow> bool" where
  "task_is_stopped t \<longleftrightarrow> state t AND ucast TASK_STOPPED_bit \<noteq> 0"

definition task_is_stopped_or_traced :: "sched_task \<Rightarrow> bool" where
  "task_is_stopped_or_traced t \<longleftrightarrow> state t AND ucast (TASK_STOPPED_bit OR TASK_TRACED_bit) \<noteq> 0"

definition task_contributes_to_load :: "sched_task \<Rightarrow> bool" where
  "task_contributes_to_load t \<longleftrightarrow> state t AND ucast TASK_UNINTERRUPTIBLE \<noteq> 0 \<and>
     flags t AND PF_FROZEN = 0 \<and> state t AND ucast TASK_NOLOAD = 0"

definition set_current_state :: "64 word \<Rightarrow> sched_task \<Rightarrow> sched_task" where
  "set_current_state v current = current\<lparr>state := v\<rparr>"

text \<open>The state as a letter, for \<^verbatim>\<open>/proc\<close>.\<close>

definition task_state_index :: "(32 word \<Rightarrow> nat) \<Rightarrow> sched_task \<Rightarrow> nat" where
  "task_state_index fls tsk =
     (let tsk_state = ucast (state tsk) :: 32 word;
          st = (tsk_state OR exit_state tsk) AND TASK_REPORT;
          st = (if tsk_state = TASK_IDLE then TASK_REPORT_IDLE else st)
      in fls st)"

definition task_index_to_char :: "nat \<Rightarrow> char res" where
  "task_index_to_char n =
     (let state_char = ''RSDTtXZPI'' @ [CHR 0x00]
      in if n < length state_char then Inr (state_char ! n) else Inl BadPointer)"

definition task_state_to_char :: "(32 word \<Rightarrow> nat) \<Rightarrow> sched_task \<Rightarrow> char res" where
  "task_state_to_char fls tsk = task_index_to_char (task_state_index fls tsk)"

section \<open>Process flags\<close>

definition clear_stopped_child_used_math :: "sched_task \<Rightarrow> sched_task" where
  "clear_stopped_child_used_math child = child\<lparr>flags := flags child AND NOT PF_USED_MATH\<rparr>"

definition set_stopped_child_used_math :: "sched_task \<Rightarrow> sched_task" where
  "set_stopped_child_used_math child = child\<lparr>flags := flags child OR PF_USED_MATH\<rparr>"

definition conditional_stopped_child_used_math :: "bool \<Rightarrow> sched_task \<Rightarrow> sched_task" where
  "conditional_stopped_child_used_math condition child =
     (let child = child\<lparr>flags := flags child AND NOT PF_USED_MATH\<rparr>
      in child\<lparr>flags := flags child OR (if condition then PF_USED_MATH else 0)\<rparr>)"

definition copy_to_stopped_child_used_math :: "sched_task \<Rightarrow> sched_task \<Rightarrow> sched_task" where
  "copy_to_stopped_child_used_math current child =
     (let child = child\<lparr>flags := flags child AND NOT PF_USED_MATH\<rparr>
      in child\<lparr>flags := flags child OR (flags current AND PF_USED_MATH)\<rparr>)"

definition tsk_used_math :: "sched_task \<Rightarrow> 32 word" where
  "tsk_used_math p = flags p AND PF_USED_MATH"

definition is_percpu_thread :: "sched_task \<Rightarrow> bool" where
  "is_percpu_thread current \<longleftrightarrow> flags current AND PF_NO_SETAFFINITY \<noteq> 0 \<and> nr_cpus_allowed current = 1"

definition is_idle_task :: "sched_task \<Rightarrow> bool" where
  "is_idle_task p \<longleftrightarrow> flags p AND PF_IDLE \<noteq> 0"

text \<open>The arguments are \<open>unsigned long\<close>, the field is \<open>unsigned int\<close>.\<close>

definition current_restore_flags :: "64 word \<Rightarrow> 64 word \<Rightarrow> sched_task \<Rightarrow> sched_task" where
  "current_restore_flags orig_flags fl current =
     (let current = current\<lparr>flags := ucast ((ucast (flags current) :: 64 word) AND NOT fl)\<rparr>
      in current\<lparr>flags := ucast ((ucast (flags current) :: 64 word) OR (orig_flags AND fl))\<rparr>)"

section \<open>Atomic flags\<close>

datatype pfa = NO_NEW_PRIVS | SPREAD_PAGE | SPREAD_SLAB | SPEC_SSB_DISABLE
  | SPEC_SSB_FORCE_DISABLE | SPEC_IB_DISABLE | SPEC_IB_FORCE_DISABLE

primrec PFA :: "pfa \<Rightarrow> nat" where
  "PFA NO_NEW_PRIVS = 0"
| "PFA SPREAD_PAGE = 1"
| "PFA SPREAD_SLAB = 2"
| "PFA SPEC_SSB_DISABLE = 3"
| "PFA SPEC_SSB_FORCE_DISABLE = 4"
| "PFA SPEC_IB_DISABLE = 5"
| "PFA SPEC_IB_FORCE_DISABLE = 6"

text \<open>The operations \<open>test_bit\<close>, \<open>set_bit\<close> and \<open>clear_bit\<close> of the architecture.\<close>

record bitops =
  test_bit_op :: "nat \<Rightarrow> 64 word \<Rightarrow> bool"
  set_bit_op :: "nat \<Rightarrow> 64 word \<Rightarrow> 64 word"
  clear_bit_op :: "nat \<Rightarrow> 64 word \<Rightarrow> 64 word"

definition TASK_PFA_TEST :: "bitops \<Rightarrow> pfa \<Rightarrow> sched_task \<Rightarrow> bool" where
  "TASK_PFA_TEST ops name p = test_bit_op ops (PFA name) (atomic_flags p)"

definition TASK_PFA_SET :: "bitops \<Rightarrow> pfa \<Rightarrow> sched_task \<Rightarrow> sched_task" where
  "TASK_PFA_SET ops name p = p\<lparr>atomic_flags := set_bit_op ops (PFA name) (atomic_flags p)\<rparr>"

definition TASK_PFA_CLEAR :: "bitops \<Rightarrow> pfa \<Rightarrow> sched_task \<Rightarrow> sched_task" where
  "TASK_PFA_CLEAR ops name p = p\<lparr>atomic_flags := clear_bit_op ops (PFA name) (atomic_flags p)\<rparr>"

text \<open>
  The functions the header declares with these macros: \<open>task_set_\<close> for every flag, \<open>task_clear_\<close>
  for four of them.
\<close>

datatype pfa_call = Task_set pfa | Task_clear pfa

fun pfa_declared :: "pfa_call \<Rightarrow> bool" where
  "pfa_declared (Task_set f) = True"
| "pfa_declared (Task_clear f) = (f \<in> {SPREAD_PAGE, SPREAD_SLAB, SPEC_SSB_DISABLE, SPEC_IB_DISABLE})"

primrec pfa_exec :: "bitops \<Rightarrow> pfa_call \<Rightarrow> sched_task \<Rightarrow> sched_task" where
  "pfa_exec ops (Task_set f) t = TASK_PFA_SET ops f t"
| "pfa_exec ops (Task_clear f) t = TASK_PFA_CLEAR ops f t"

section \<open>Identifiers\<close>

text \<open>\<open>nr_ns\<close> stands for \<open>__task_pid_nr_ns\<close>, a null namespace for that of the caller.\<close>

type_synonym nr_ns = "nat \<Rightarrow> pid_type \<Rightarrow> ptr \<Rightarrow> int"

definition task_pid :: "sched_task \<Rightarrow> ptr" where
  "task_pid t = pids t PIDTYPE_PID"

definition task_tgid :: "sched_tasks \<Rightarrow> sched_task \<Rightarrow> ptr res" where
  "task_tgid ts t = rbind (sched_task_at ts (group_leader t)) (\<lambda>l. Inr (pids l PIDTYPE_PID))"

definition task_pgrp :: "sched_tasks \<Rightarrow> sched_task \<Rightarrow> ptr res" where
  "task_pgrp ts t = rbind (sched_task_at ts (group_leader t)) (\<lambda>l. Inr (pids l PIDTYPE_PGID))"

definition task_session :: "sched_tasks \<Rightarrow> sched_task \<Rightarrow> ptr res" where
  "task_session ts t = rbind (sched_task_at ts (group_leader t)) (\<lambda>l. Inr (pids l PIDTYPE_SID))"

definition pid_alive :: "sched_task \<Rightarrow> bool" where
  "pid_alive p \<longleftrightarrow> pids p PIDTYPE_PID \<noteq> None"

definition task_tgid_nr :: "sched_task \<Rightarrow> int" where
  "task_tgid_nr t = tgid t"

definition is_global_init :: "sched_task \<Rightarrow> bool" where
  "is_global_init t \<longleftrightarrow> task_tgid_nr t = 1"

definition task_tgid_nr_ns :: "nr_ns \<Rightarrow> nat \<Rightarrow> ptr \<Rightarrow> int" where
  "task_tgid_nr_ns nr_ns t ns = nr_ns t PIDTYPE_TGID ns"

definition task_ppid_nr_ns :: "nr_ns \<Rightarrow> sched_task \<Rightarrow> ptr \<Rightarrow> int" where
  "task_ppid_nr_ns nr_ns t ns = (if pid_alive t then task_tgid_nr_ns nr_ns (real_parent t) ns else 0)"

section \<open>The first task\<close>

text \<open>The fields \<open>INIT_TASK\<close> sets, and those it leaves to be zero.\<close>

definition INIT_SCHED_TASK :: "int \<Rightarrow> nat \<Rightarrow> nat \<Rightarrow> sched_task" where
  "INIT_SCHED_TASK NR_CPUS init_struct_pid tsk =
     \<lparr>weight = 0, pid = 0, real_parent = tsk, children = Children tsk, sibling = Sibling tsk,
      state = 0, flags = PF_KTHREAD, nr_cpus_allowed = NR_CPUS, exit_state = 0, atomic_flags = 0,
      tgid = 0, group_leader = tsk,
      pids = (\<lambda>ty. if ty = PIDTYPE_TGID then None else Some init_struct_pid)\<rparr>"

section \<open>Reporting\<close>

text \<open>\<open>fls\<close> returns the position of the most significant set bit, counted from one, or zero.\<close>

definition fls_ok :: "(32 word \<Rightarrow> nat) \<Rightarrow> bool" where
  "fls_ok fls \<longleftrightarrow> fls 0 = 0 \<and>
     (\<forall>x i. bit x i \<longrightarrow> (\<forall>j. i < j \<longrightarrow> \<not> bit x j) \<longrightarrow> fls x = Suc i)"

lemma and_bit: "x AND 2 ^ k \<noteq> 0 \<longleftrightarrow> bit x k" for x :: "'a::len word"
  by (simp add: and_exp_eq_0_iff_not_bit)

lemma report_mask: "TASK_REPORT = mask 7"
  by (simp add: task_bits mask_numeral)

lemma fls_below:
  assumes "fls_ok fls" and "bit x i" and "\<forall>j. i < j \<longrightarrow> \<not> bit x j"
  shows "fls x = Suc i"
  using assms by (auto simp: fls_ok_def)

text \<open>The letter as a table: the first line that applies.\<close>

definition report_char :: "32 word \<Rightarrow> 32 word \<Rightarrow> char" where
  "report_char st ex =
     (let on = (\<lambda>b. (st OR ex) AND b \<noteq> 0) in
      if st = TASK_IDLE then CHR ''I''
      else if on TASK_PARKED then CHR ''P''
      else if on EXIT_ZOMBIE then CHR ''Z''
      else if on EXIT_DEAD then CHR ''X''
      else if on TASK_TRACED_bit then CHR ''t''
      else if on TASK_STOPPED_bit then CHR ''T''
      else if on TASK_UNINTERRUPTIBLE then CHR ''D''
      else if on TASK_INTERRUPTIBLE then CHR ''S''
      else CHR ''R'')"

lemma fls_report:
  assumes "fls_ok fls"
  shows "fls (w AND TASK_REPORT) =
    (if bit w 6 then 7 else if bit w 5 then 6 else if bit w 4 then 5 else if bit w 3 then 4
     else if bit w 2 then 3 else if bit w 1 then 2 else if bit w 0 then 1 else 0)"
proof -
  let ?x = "w AND TASK_REPORT"
  have b: "bit ?x i \<longleftrightarrow> bit w i \<and> i < 7" for i
    by (auto simp: report_mask bit_and_iff bit_mask_iff dest: bit_imp_le_length)
  have top: "fls ?x = i + 1" if "bit w i" "i < 7" "\<And>j. i < j \<Longrightarrow> j < 7 \<Longrightarrow> \<not> bit w j" for i
    using that fls_below [OF assms, of ?x i] by (auto simp: b)
  have none: "fls ?x = 0" if "\<And>j. j < 7 \<Longrightarrow> \<not> bit w j"
  proof -
    have "?x = 0" by (rule bit_word_eqI) (use b that in auto)
    then show ?thesis using assms by (simp add: fls_ok_def)
  qed
  have seven: "j < 7 \<longleftrightarrow> j \<in> {0, 1, 2, 3, 4, 5, 6}" for j :: nat by auto
  show ?thesis using top [of 6] top [of 5] top [of 4] top [of 3] top [of 2] top [of 1] top [of 0] none
    by (auto simp: seven simp del: One_nat_def)
qed

text \<open>
  C38. \<open>task_state_to_char\<close> never reads outside its table of letters, for any bits in \<open>state\<close>
  and \<open>exit_state\<close>, and the letter is that of the most severe condition: \<open>I\<close> for an idle kernel
  thread, then \<open>P\<close> parked, \<open>Z\<close> zombie, \<open>X\<close> dead, \<open>t\<close> traced, \<open>T\<close> stopped, \<open>D\<close>, \<open>S\<close> asleep, \<open>R\<close>.
\<close>

theorem task_state_char:
  assumes "fls_ok fls"
  shows "task_state_to_char fls t = Inr (report_char (ucast (state t)) (exit_state t))"
proof -
  let ?w = "ucast (state t) OR exit_state t"
  have "fls (2 ^ 7) = Suc 7" by (rule fls_below [OF assms]; unfold bit_exp_iff; auto)
  moreover have "TASK_REPORT_IDLE = 2 ^ 7" by (simp add: task_bits)
  ultimately have idle: "fls TASK_REPORT_IDLE = 8" by simp
  have on: "?w AND TASK_PARKED \<noteq> 0 \<longleftrightarrow> bit ?w 6" "?w AND EXIT_ZOMBIE \<noteq> 0 \<longleftrightarrow> bit ?w 5"
    "?w AND EXIT_DEAD \<noteq> 0 \<longleftrightarrow> bit ?w 4" "?w AND TASK_TRACED_bit \<noteq> 0 \<longleftrightarrow> bit ?w 3"
    "?w AND TASK_STOPPED_bit \<noteq> 0 \<longleftrightarrow> bit ?w 2" "?w AND TASK_UNINTERRUPTIBLE \<noteq> 0 \<longleftrightarrow> bit ?w 1"
    "?w AND TASK_INTERRUPTIBLE \<noteq> 0 \<longleftrightarrow> bit ?w 0"
    using and_bit [of ?w 6] and_bit [of ?w 5] and_bit [of ?w 4] and_bit [of ?w 3] and_bit [of ?w 2]
      and_bit [of ?w 1] and_bit [of ?w 0] by (simp_all add: task_bits)
  show ?thesis
    unfolding task_state_to_char_def task_state_index_def task_index_to_char_def report_char_def Let_def
      if_distrib [of fls] idle fls_report [OF assms] on
    by (simp add: numeral_nat)
qed

text \<open>A search from the top, as an instance of \<open>fls\<close>.\<close>

fun fls_search :: "nat \<Rightarrow> 32 word \<Rightarrow> nat" where
  "fls_search 0 x = 0"
| "fls_search (Suc n) x = (if bit x n then Suc n else fls_search n x)"

lemma fls_search_top:
  "bit x i \<Longrightarrow> \<forall>j. i < j \<longrightarrow> \<not> bit x j \<Longrightarrow> i < n \<Longrightarrow> fls_search n x = Suc i"
  by (induction n) (auto simp: less_Suc_eq)

lemma fls_search_ok: "fls_ok (fls_search 32)"
proof -
  have "fls_search n 0 = 0" for n by (induction n) auto
  moreover have "fls_search 32 x = Suc i" if "bit x i" "\<forall>j. i < j \<longrightarrow> \<not> bit x j" for x i
    using fls_search_top [OF that] bit_imp_le_length [OF that(1)] by simp
  ultimately show ?thesis unfolding fls_ok_def by blast
qed

theorem task_state_char_witness:
  "task_state_to_char (fls_search 32)
     ((INIT_SCHED_TASK 4 1 0)\<lparr>state := ucast TASK_KILLABLE, exit_state := EXIT_ZOMBIE\<rparr>) = Inr (CHR ''Z'')"
  by (simp add: task_state_char [OF fls_search_ok] report_char_def task_bits Let_def)

section \<open>Flags\<close>

text \<open>What the bit operations do, below the width of the word.\<close>

definition bitops_ok :: "bitops \<Rightarrow> bool" where
  "bitops_ok ops \<longleftrightarrow> (\<forall>n w. n < 64 \<longrightarrow> test_bit_op ops n w = bit w n \<and>
     (\<forall>i < 64. bit (set_bit_op ops n w) i = (i = n \<or> bit w i)) \<and>
     (\<forall>i < 64. bit (clear_bit_op ops n w) i = (i \<noteq> n \<and> bit w i)))"

lemma PFA_less [simp]: "PFA f < 64"
  by (cases f) simp_all

lemma PFA_inj [simp]: "PFA f = PFA g \<longleftrightarrow> f = g"
  by (cases f; cases g) simp_all

primrec pfa_of :: "pfa_call \<Rightarrow> pfa" where
  "pfa_of (Task_set f) = f"
| "pfa_of (Task_clear f) = f"

lemma pfa_exec_test:
  "bitops_ok ops \<Longrightarrow> TASK_PFA_TEST ops f (pfa_exec ops c t) =
     (if pfa_of c = f then c = Task_set f else TASK_PFA_TEST ops f t)"
  by (cases c) (auto simp: TASK_PFA_TEST_def TASK_PFA_SET_def TASK_PFA_CLEAR_def bitops_ok_def)

text \<open>
  After any sequence of calls an atomic flag is set if the last call on it set it, or if there
  was none and it was set before. Flags without a clearing function, which revoke privileges
  and speculation for good, are never lost.
\<close>

theorem pfa_calls:
  assumes "bitops_ok ops" and "list_all pfa_declared cs"
  shows "TASK_PFA_TEST ops f (fold (pfa_exec ops) cs t) =
           (case filter (\<lambda>c. pfa_of c = f) cs of
              [] \<Rightarrow> TASK_PFA_TEST ops f t
            | c # cs' \<Rightarrow> last (c # cs') = Task_set f)"
    and "f \<in> {NO_NEW_PRIVS, SPEC_SSB_FORCE_DISABLE, SPEC_IB_FORCE_DISABLE} \<Longrightarrow> TASK_PFA_TEST ops f t \<Longrightarrow>
           TASK_PFA_TEST ops f (fold (pfa_exec ops) cs t)"
  using assms(2)
proof (induction cs arbitrary: t)
  case (Cons c cs)
  {
    case 1
    then show ?case using Cons.IH(1) [of "pfa_exec ops c t"]
      by (auto simp: pfa_exec_test [OF assms(1)] split: list.splits)
  next
    case 2
    then have "TASK_PFA_TEST ops f (pfa_exec ops c t)"
      by (cases c) (auto simp: pfa_exec_test [OF assms(1)] simp del: pfa_exec.simps)
    with 2 Cons.IH(2) show ?case by simp
  }
qed simp_all

text \<open>
  \<open>current_restore_flags\<close> undoes any change of the flags under the mask, as its callers rely on:
  they save the flags, change those of the mask, and restore them.
\<close>

theorem current_restore_flags_roundtrip:
  assumes "flags t' AND NOT (ucast fl) = flags t AND NOT (ucast fl)"
  shows "current_restore_flags (ucast (flags t)) fl t' = t'\<lparr>flags := flags t\<rparr>"
proof -
  have "bit (flags t') i = bit (flags t) i" if "i < 32" "\<not> bit fl i" for i
    using arg_cong [OF assms, of "\<lambda>w. bit w i"] that by (auto simp: bit_simps)
  then have "ucast ((ucast (ucast ((ucast (flags t') :: 64 word) AND NOT fl) :: 32 word) :: 64 word) OR
      (ucast (flags t) AND fl)) = flags t"
    by (intro bit_word_eqI) (auto simp: bit_simps)
  then show ?thesis by (simp add: current_restore_flags_def Let_def)
qed

text \<open>
  The state of the mathematics unit follows its flag: a copy makes child and parent agree and
  leaves every other flag of the child alone.
\<close>

lemma copy_used_math:
  "tsk_used_math (copy_to_stopped_child_used_math current child) = tsk_used_math current"
  "flags (copy_to_stopped_child_used_math current child) AND NOT PF_USED_MATH =
     flags child AND NOT PF_USED_MATH"
  by (rule bit_word_eqI; auto simp: copy_to_stopped_child_used_math_def tsk_used_math_def bit_simps)+

text \<open>An idle kernel thread sleeps like \<open>D\<close> but does not count as load, and shows as \<open>I\<close>.\<close>

lemma idle_no_load:
  "flags t AND PF_FROZEN = 0 \<Longrightarrow>
     task_contributes_to_load (set_current_state (ucast TASK_UNINTERRUPTIBLE) t) \<and>
     \<not> task_contributes_to_load (set_current_state (ucast TASK_IDLE) t)"
  by (simp add: task_contributes_to_load_def set_current_state_def task_bits)

lemma stopped_or_traced:
  "task_is_stopped_or_traced t \<longleftrightarrow> task_is_stopped t \<or> task_is_traced t"
  by (simp only: task_is_stopped_or_traced_def task_is_stopped_def task_is_traced_def unsigned_or_eq
      bit.conj_disj_distrib or_eq_0_iff de_Morgan_conj)

text \<open>The first task runs, is a kernel thread and its own group leader.\<close>

lemma init_task_facts:
  assumes "t = INIT_SCHED_TASK n p tsk" and "ts tsk = Some t"
  shows "\<not> task_is_stopped_or_traced t \<and> \<not> is_idle_task t \<and> \<not> is_global_init t \<and> pid_alive t"
    and "task_tgid ts t = Inr (task_pid t)"
    and "task_struct.truncate t = INIT_TASK tsk"
  using assms
  by (simp_all add: INIT_SCHED_TASK_def task_is_stopped_or_traced_def is_idle_task_def is_global_init_def
      task_tgid_nr_def pid_alive_def task_tgid_def task_pid_def sched_task_at_def PF_KTHREAD_def PF_IDLE_def
      rbind_def INIT_TASK_def task_struct.truncate_def)

end
