(* ===== verification/Malloc_Heap.thy ===== *)
theory Malloc_Heap
  imports Prelude
begin

text \<open>
  What the two allocators of \<^verbatim>\<open>Virtual memory\<close> share: the metadata that stands before every
  block, the program break, and the list of blocks. Metadata and payload share one address
  space: payload bytes written over a metadata structure destroy it (\<open>clobber\<close>), so that a
  later use of the structure is an error of the model rather than a silent success. The other
  way round, \<open>bytes\<close> describes the payload bytes only: where a metadata structure stands, its
  fields are in \<open>md\<close>, and writing them leaves \<open>bytes\<close> alone; so a statement that \<open>bytes\<close> is
  unchanged speaks about the addresses outside the metadata, and what a new area contains
  where a structure stood before is not determined by the code either.
\<close>

section \<open>Memory\<close>

record MallocMetadata =
  bsize :: nat
  is_free :: bool
  next_md :: ptr
  prev_md :: ptr

definition sizeof_md :: nat where "sizeof_md = 32"

record heap =
  md :: "nat \<rightharpoonup> MallocMetadata"
  bytes :: "nat \<Rightarrow> nat"
  base :: nat                   \<comment> \<open>the break before the first allocation\<close>
  brk :: nat
  brk_limit :: nat
  root :: ptr
  end_ptr :: ptr                \<comment> \<open>the global \<open>end\<close>\<close>

definition get_md :: "'a heap_scheme \<Rightarrow> ptr \<Rightarrow> MallocMetadata res" where
  "get_md h p =
     (case p of None \<Rightarrow> Inl NullDeref
      | Some a \<Rightarrow> (case md h a of None \<Rightarrow> Inl BadPointer | Some m \<Rightarrow> Inr m))"

definition set_md ::
    "ptr \<Rightarrow> (MallocMetadata \<Rightarrow> MallocMetadata) \<Rightarrow> 'a heap_scheme \<Rightarrow> 'a heap_scheme res" where
  "set_md p f h =
     rbind (get_md h p) (\<lambda>m. Inr (h\<lparr>md := (md h)(the p \<mapsto> f m)\<rparr>))"

text \<open>\<open>sbrk\<close>: \<^term>\<open>None\<close> stands for \<open>(void*)-1\<close>.\<close>

definition sbrk :: "nat \<Rightarrow> 'a heap_scheme \<Rightarrow> (nat \<times> 'a heap_scheme) option" where
  "sbrk n h = (if brk h + n \<le> brk_limit h then Some (brk h, h\<lparr>brk := brk h + n\<rparr>) else None)"

text \<open>The payload of a block and back.\<close>

definition payload :: "nat \<Rightarrow> nat" where "payload a = a + sizeof_md"

definition metadata_of :: "nat \<Rightarrow> nat" where "metadata_of p = p - sizeof_md"

definition clobber :: "nat \<Rightarrow> nat \<Rightarrow> (nat \<rightharpoonup> MallocMetadata) \<Rightarrow> (nat \<rightharpoonup> MallocMetadata)" where
  "clobber lo n m = (\<lambda>a. if 0 < n \<and> lo < a + sizeof_md \<and> a < lo + n then None else m a)"

definition memset_md :: "ptr \<Rightarrow> nat \<Rightarrow> nat \<Rightarrow> 'a heap_scheme \<Rightarrow> 'a heap_scheme res" where
  "memset_md p v n h =
     (case p of None \<Rightarrow> Inl NullDeref
      | Some a \<Rightarrow> Inr (h\<lparr>bytes := (\<lambda>x. if a \<le> x \<and> x < a + n then v else bytes h x),
                         md := clobber a n (md h)\<rparr>))"

text \<open>\<open>memmove(dst, src, n)\<close>: the source is read before the destination is written.\<close>

definition memmove_md :: "ptr \<Rightarrow> nat \<Rightarrow> nat \<Rightarrow> 'a heap_scheme \<Rightarrow> 'a heap_scheme res" where
  "memmove_md dst src n h =
     (case dst of None \<Rightarrow> Inl NullDeref
      | Some a \<Rightarrow>
          Inr (h\<lparr>bytes := (\<lambda>x. if a \<le> x \<and> x < a + n then bytes h (src + (x - a)) else bytes h x),
                 md := clobber a n (md h)\<rparr>))"

text \<open>
  The search loop of \<open>smalloc\<close>: the first free block that is large enough. One unit of fuel
  per block and one for the end of the list.
\<close>

fun find_free :: "nat \<Rightarrow> 'a heap_scheme \<Rightarrow> ptr \<Rightarrow> nat \<Rightarrow> ptr res" where
  "find_free 0 h tmp n = Inl OutOfFuel"
| "find_free (Suc fuel) h tmp n =
     (if tmp = None then Inr None
      else rbind (get_md h tmp) (\<lambda>m.
        if n \<le> bsize m \<and> is_free m then Inr tmp else find_free fuel h (next_md m) n))"

text \<open>The loops of the statistics functions: \<open>acc\<close> is updated by every block in turn.\<close>

fun fold_blocks :: "nat \<Rightarrow> 'a heap_scheme \<Rightarrow> (MallocMetadata \<Rightarrow> nat \<Rightarrow> nat) \<Rightarrow> ptr \<Rightarrow> nat \<Rightarrow> nat res" where
  "fold_blocks 0 h f it acc = Inl OutOfFuel"
| "fold_blocks (Suc fuel) h f it acc =
     (if it = None then Inr acc
      else rbind (get_md h it) (\<lambda>m. fold_blocks fuel h f (next_md m) (f m acc)))"

section \<open>Representation of the block list\<close>

text \<open>A block: address of its metadata, size of its payload, and whether it is free.\<close>

type_synonym block = "nat \<times> nat \<times> bool"

fun first_of :: "block list \<Rightarrow> ptr \<Rightarrow> ptr" where
  "first_of [] r = r"
| "first_of (b # bs) r = Some (fst b)"

fun last_of :: "ptr \<Rightarrow> block list \<Rightarrow> ptr" where
  "last_of p [] = p"
| "last_of p (b # bs) = last_of (Some (fst b)) bs"

text \<open>\<open>dseg m p bs r\<close>: the doubly linked segment of blocks between \<open>p\<close> and \<open>r\<close>.\<close>

fun dseg :: "(nat \<rightharpoonup> MallocMetadata) \<Rightarrow> ptr \<Rightarrow> block list \<Rightarrow> ptr \<Rightarrow> bool" where
  "dseg m p [] r = True"
| "dseg m p ((a, n, f) # bs) r =
     (m a = Some \<lparr>bsize = n, is_free = f, next_md = first_of bs r, prev_md = p\<rparr> \<and>
      dseg m (Some a) bs r)"

text \<open>\<open>tiles x bs y\<close>: the blocks fill the addresses from \<open>x\<close> to \<open>y\<close> without gap or overlap.\<close>

fun tiles :: "nat \<Rightarrow> block list \<Rightarrow> nat \<Rightarrow> bool" where
  "tiles x [] y = (x = y)"
| "tiles x ((a, n, f) # bs) y = (a = x \<and> tiles (x + sizeof_md + n) bs y)"

definition heap_ok :: "'a heap_scheme \<Rightarrow> block list \<Rightarrow> bool" where
  "heap_ok h bs \<longleftrightarrow> dseg (md h) None bs None \<and> root h = first_of bs None \<and>
     end_ptr h = last_of None bs \<and> tiles (base h) bs (brk h)"

definition free_for :: "nat \<Rightarrow> block \<Rightarrow> bool" where
  "free_for n b \<longleftrightarrow> snd (snd b) \<and> n \<le> fst (snd b)"

text \<open>The blocks in use, as address ranges of their payloads.\<close>

definition in_use :: "block list \<Rightarrow> (nat \<times> nat) list" where
  "in_use bs = map (\<lambda>(a, n, f). (payload a, n)) (filter (\<lambda>(a, n, f). \<not> f) bs)"

section \<open>Segments and tilings\<close>

lemma sizeof_md_pos [simp]: "0 < sizeof_md" "sizeof_md \<noteq> 0"
  by (simp_all add: sizeof_md_def)

lemma get_md_None [simp]: "get_md h None = Inl NullDeref"
  by (simp add: get_md_def)

lemma get_md_Some [simp]: "md h a = Some m \<Longrightarrow> get_md h (Some a) = Inr m"
  by (simp add: get_md_def)

lemma set_md_Some [simp]: "md h a = Some m \<Longrightarrow> set_md (Some a) f h = Inr (h\<lparr>md := (md h)(a \<mapsto> f m)\<rparr>)"
  by (simp add: set_md_def)

lemma first_of_append [simp]: "first_of (xs @ ys) r = first_of xs (first_of ys r)"
  by (cases xs) auto

lemma last_of_append [simp]: "last_of p (xs @ ys) = last_of (last_of p xs) ys"
  by (induction xs arbitrary: p) auto

lemma last_of_ne: "bs \<noteq> [] \<Longrightarrow> last_of p bs = Some (fst (last bs))"
  by (induction bs arbitrary: p) auto

lemma dseg_append [simp]:
  "dseg m p (xs @ ys) r \<longleftrightarrow> dseg m p xs (first_of ys r) \<and> dseg m (last_of p xs) ys r"
  by (induction m p xs r rule: dseg.induct) auto

lemma dseg_frame:
  "(\<And>a. a \<in> set (map fst bs) \<Longrightarrow> m' a = m a) \<Longrightarrow> dseg m' p bs r = dseg m p bs r"
  by (induction m p bs r rule: dseg.induct) auto

lemma tiles_append [simp]:
  "tiles x (xs @ ys) y \<longleftrightarrow> (\<exists>z. tiles x xs z \<and> tiles z ys y)"
  by (induction x xs y rule: tiles.induct) auto

lemma tiles_le: "tiles x bs y \<Longrightarrow> x \<le> y"
  by (induction x bs y rule: tiles.induct) auto

lemma tiles_range:
  "tiles x bs y \<Longrightarrow> (a, n, f) \<in> set bs \<Longrightarrow> x \<le> a \<and> a + sizeof_md + n \<le> y"
proof (induction x bs y rule: tiles.induct)
  case (2 x b m g bs y)
  then have "tiles (x + sizeof_md + m) bs y" "b = x" by auto
  with 2 tiles_le [OF \<open>tiles (x + sizeof_md + m) bs y\<close>] show ?case by auto
qed simp

lemma tiles_fst_range: "tiles x bs y \<Longrightarrow> a \<in> set (map fst bs) \<Longrightarrow> x \<le> a \<and> a < y"
  using tiles_range [of x bs y] by (fastforce simp: sizeof_md_def)

text \<open>Neighbours of a block in a tiling have other addresses.\<close>

lemma tiles_other:
  assumes "tiles x (xs @ (a, n, f) # ys) y"
  shows "a \<notin> set (map fst xs)" and "a \<notin> set (map fst ys)"
    and "b \<in> set (map fst xs) \<Longrightarrow> b < a" and "b \<in> set (map fst ys) \<Longrightarrow> a + sizeof_md + n \<le> b"
proof -
  have t: "tiles x xs a" "tiles (a + sizeof_md + n) ys y" using assms by auto
  show "b \<in> set (map fst xs) \<Longrightarrow> b < a" "b \<in> set (map fst ys) \<Longrightarrow> a + sizeof_md + n \<le> b"
    using tiles_fst_range [OF t(1), of b] tiles_fst_range [OF t(2), of b] by auto
  show "a \<notin> set (map fst xs)" "a \<notin> set (map fst ys)"
    using tiles_fst_range [OF t(1), of a] tiles_fst_range [OF t(2), of a] by (auto simp: sizeof_md_def)
qed

text \<open>Distinct blocks of a tiling have disjoint payloads.\<close>

lemma tiles_disjoint:
  assumes "tiles x bs y" and "(a, n, f) \<in> set bs" and "(b, k, g) \<in> set bs" and "a \<noteq> b"
  shows "a + sizeof_md + n \<le> b \<or> b + sizeof_md + k \<le> a"
proof -
  obtain xs ys where bs: "bs = xs @ (a, n, f) # ys"
    using assms(2) by (meson split_list)
  note t = assms(1) [unfolded bs]
  from assms(3,4) bs consider "(b, k, g) \<in> set xs" | "(b, k, g) \<in> set ys" by auto
  then show ?thesis
  proof cases
    case 1
    with t tiles_range [of x xs a b k g] show ?thesis by auto
  next
    case 2
    with t tiles_range [of "a + sizeof_md + n" ys y b k g] show ?thesis by auto
  qed
qed

lemma find_free_first:
  "dseg (md h) p bs None \<Longrightarrow> length bs < fuel \<Longrightarrow>
   find_free fuel h (first_of bs None) n =
     Inr (first_of (filter (free_for n) bs) None)"
proof (induction bs arbitrary: p fuel)
  case Nil
  then show ?case by (cases fuel) auto
next
  case (Cons b bs)
  obtain a k f where "b = (a, k, f)" by (cases b)
  with Cons show ?case by (cases fuel) (auto simp: free_for_def)
qed

lemma fold_blocks_list:
  "dseg (md h) p bs None \<Longrightarrow> length bs < fuel \<Longrightarrow> (\<And>m acc. g m acc = acc + w (bsize m) (is_free m)) \<Longrightarrow>
   fold_blocks fuel h g (first_of bs None) acc = Inr (acc + sum_list (map (\<lambda>(a, n, f). w n f) bs))"
proof (induction bs arbitrary: p fuel acc)
  case Nil
  then show ?case by (cases fuel) auto
next
  case (Cons b bs)
  obtain a k f where "b = (a, k, f)" by (cases b)
  with Cons show ?case by (cases fuel) auto
qed

text \<open>The first block that fits, and the list around it.\<close>

lemma first_fit_split:
  "first_of (filter P bs) None = Some a \<Longrightarrow>
   \<exists>xs n f ys. bs = xs @ (a, n, f) # ys \<and> P (a, n, f) \<and> list_all (\<lambda>b. \<not> P b) xs"
proof (induction bs)
  case (Cons b bs)
  show ?case
  proof (cases "P b")
    case True
    with Cons.prems show ?thesis by (intro exI [of _ "[]"]) (cases b, auto)
  next
    case False
    with Cons obtain xs n f ys where "bs = xs @ (a, n, f) # ys" "P (a, n, f)"
        "list_all (\<lambda>b. \<not> P b) xs" by auto
    with False show ?thesis by (intro exI [of _ "b # xs"]) auto
  qed
qed simp

lemma first_fit_none: "first_of (filter P bs) None = None \<longleftrightarrow> list_all (\<lambda>b. \<not> P b) bs"
  by (induction bs) auto

text \<open>Payload writes inside one block destroy no metadata of the list.\<close>

lemma dseg_clobber:
  assumes "tiles x (xs @ (a, k, f) # ys) y" and "dseg m None (xs @ (a, k, f) # ys) None" and "n \<le> k"
  shows "dseg (clobber (payload a) n m) None (xs @ (a, k, f) # ys) None"
proof -
  have "clobber (payload a) n m b = m b" if "b \<in> set (map fst (xs @ (a, k, f) # ys))" for b
  proof -
    from that consider "b \<in> set (map fst xs)" | "b = a" | "b \<in> set (map fst ys)" by auto
    then have "b \<le> a \<or> a + sizeof_md + k \<le> b"
      using tiles_other(3,4) [OF assms(1), of b] by cases linarith+
    then show ?thesis using assms(3) by (auto simp: clobber_def payload_def)
  qed
  then show ?thesis using assms(2) dseg_frame by blast
qed

lemma heap_ok_write:
  assumes "heap_ok h (xs @ (a, k, f) # ys)" and "n \<le> k"
  shows "heap_ok (h\<lparr>bytes := w, md := clobber (payload a) n (md h)\<rparr>) (xs @ (a, k, f) # ys)"
  using assms dseg_clobber [of "base h" xs a k f ys "brk h" "md h" n] by (simp add: heap_ok_def)

section \<open>Statistics of a list\<close>

lemma count_free_blocks:
  assumes "dseg (md h) None bs None" and "length bs < fuel"
  shows "fold_blocks fuel h (\<lambda>m c. if is_free m then c + 1 else c) (first_of bs None) 0 =
           Inr (length (filter (\<lambda>(a, n, f). f) bs))"
proof -
  have "sum_list (map (\<lambda>(a, n, f). if f then 1 else 0) bs) = length (filter (\<lambda>(a, n, f). f) bs)"
    by (induction bs) auto
  moreover have "fold_blocks fuel h (\<lambda>m c. if is_free m then c + 1 else c) (first_of bs None) 0 =
      Inr (0 + sum_list (map (\<lambda>(a, n, f). if f then 1 else 0) bs))"
    by (rule fold_blocks_list [OF assms, where w = "\<lambda>n f. if f then 1 else 0"]) simp
  ultimately show ?thesis by simp
qed

lemma count_free_bytes:
  assumes "dseg (md h) None bs None" and "length bs < fuel"
  shows "fold_blocks fuel h (\<lambda>m c. if is_free m then c + bsize m else c) (first_of bs None) 0 =
           Inr (sum_list (map (\<lambda>(a, n, f). if f then n else 0) bs))"
proof -
  have "fold_blocks fuel h (\<lambda>m c. if is_free m then c + bsize m else c) (first_of bs None) 0 =
      Inr (0 + sum_list (map (\<lambda>(a, n, f). if f then n else 0) bs))"
    by (rule fold_blocks_list [OF assms, where w = "\<lambda>n f. if f then n else 0"]) simp
  then show ?thesis by simp
qed

lemma count_blocks:
  assumes "dseg (md h) None bs None" and "length bs < fuel"
  shows "fold_blocks fuel h (\<lambda>m c. c + 1) (first_of bs None) 0 = Inr (length bs)"
proof -
  have "sum_list (map (\<lambda>(a, n, f). 1) bs) = length bs" by (induction bs) auto
  then show ?thesis using fold_blocks_list [OF assms, where w = "\<lambda>n f. 1"] by simp
qed

lemma count_bytes:
  assumes "dseg (md h) None bs None" and "length bs < fuel"
  shows "fold_blocks fuel h (\<lambda>m c. c + bsize m) (first_of bs None) 0 =
           Inr (sum_list (map (\<lambda>(a, n, f). n) bs))"
  using fold_blocks_list [OF assms, where w = "\<lambda>n f. n"] by simp

lemma tiles_total:
  "tiles x bs y \<Longrightarrow> x + sum_list (map (\<lambda>(a, n, f). n) bs) + sizeof_md * length bs = y"
  by (induction x bs y rule: tiles.induct) auto

section \<open>The allocator contract\<close>

text \<open>A batch of requests; the result of each is kept.\<close>

fun alloc_all :: "(nat \<Rightarrow> 'h \<Rightarrow> (ptr \<times> 'h) res) \<Rightarrow> nat list \<Rightarrow> 'h \<Rightarrow> (ptr list \<times> 'h) res" where
  "alloc_all al [] h = Inr ([], h)"
| "alloc_all al (n # ns) h =
     rbind (al n h) (\<lambda>(p, h). rbind (alloc_all al ns h) (\<lambda>(ps, h). Inr (p # ps, h)))"

definition used :: "block list \<Rightarrow> block set" where
  "used bs = {b \<in> set bs. \<not> snd (snd b)}"

text \<open>
  What a client may rely on: the blocks tile a range of addresses; an allocation returns; a
  null result leaves the blocks alone; any other result is a block of sufficient size next to
  which every block in use is kept.
\<close>

locale block_allocator =
  fixes alloc :: "nat \<Rightarrow> nat \<Rightarrow> 'h \<Rightarrow> (ptr \<times> 'h) res"
    and rep :: "'h \<Rightarrow> block list \<Rightarrow> bool"
  assumes rep_tiles: "rep h bs \<Longrightarrow> \<exists>x y. tiles x bs y"
    and alloc_total: "rep h bs \<Longrightarrow> length bs < fuel \<Longrightarrow> returns (alloc fuel n h)"
    and alloc_null: "rep h bs \<Longrightarrow> length bs < fuel \<Longrightarrow> alloc fuel n h = Inr (None, h') \<Longrightarrow> rep h' bs"
    and alloc_block: "rep h bs \<Longrightarrow> length bs < fuel \<Longrightarrow> alloc fuel n h = Inr (Some p, h') \<Longrightarrow>
      \<exists>xs a k ys. p = payload a \<and> n \<le> k \<and> rep h' (xs @ (a, k, False) # ys) \<and>
        length (xs @ ys) \<le> length bs \<and> used bs \<subseteq> set (xs @ ys)"
begin

lemma alloc_step:
  assumes "rep h bs" and "length bs < fuel"
  obtains p h' bs' where "alloc fuel n h = Inr (p, h')" "rep h' bs'" "length bs' \<le> Suc (length bs)"
    "used bs \<subseteq> used bs'"
    "\<And>q. p = Some q \<Longrightarrow> \<exists>a k. q = payload a \<and> n \<le> k \<and> (a, k, False) \<in> used bs' \<and> a \<notin> fst ` used bs"
proof -
  obtain p h' where run: "alloc fuel n h = Inr (p, h')"
    using alloc_total [OF assms, of n] by (cases "alloc fuel n h") auto
  show thesis
  proof (cases p)
    case None
    then show thesis using that [OF run alloc_null [OF assms]] run by simp
  next
    case (Some q)
    obtain xs a k ys where blk: "q = payload a" "n \<le> k" "rep h' (xs @ (a, k, False) # ys)"
        "length (xs @ ys) \<le> length bs" "used bs \<subseteq> set (xs @ ys)"
      using alloc_block [OF assms run [unfolded Some]] by blast
    obtain x y where t: "tiles x (xs @ (a, k, False) # ys) y" using rep_tiles [OF blk(3)] by blast
    have "a \<notin> fst ` set (xs @ ys)" using tiles_other(1,2) [OF t] by (simp add: image_Un)
    then have "a \<notin> fst ` used bs" using blk(5) by blast
    moreover have "used bs \<subseteq> used (xs @ (a, k, False) # ys)" using blk(5) by (auto simp: used_def)
    moreover have "(a, k, False) \<in> used (xs @ (a, k, False) # ys)" by (simp add: used_def)
    ultimately show thesis using that [OF run blk(3)] blk(1,2,4) Some by auto
  qed
qed

lemma alloc_all_blocks:
  "rep h bs \<Longrightarrow> length bs + length ns \<le> fuel \<Longrightarrow>
   \<exists>ps h' bs'. alloc_all (alloc fuel) ns h = Inr (ps, h') \<and> rep h' bs' \<and> length ps = length ns \<and>
     used bs \<subseteq> used bs' \<and>
     (\<forall>i < length ns. \<forall>q. ps ! i = Some q \<longrightarrow>
        (\<exists>a k. q = payload a \<and> ns ! i \<le> k \<and> (a, k, False) \<in> used bs' \<and> a \<notin> fst ` used bs)) \<and>
     (\<forall>i < length ns. \<forall>j < i. ps ! i \<noteq> None \<longrightarrow> ps ! i \<noteq> ps ! j)"
proof (induction ns arbitrary: h bs)
  case Nil
  then show ?case by auto
next
  case (Cons n ns)
  then have "length bs < fuel" by simp
  then obtain p h1 bs1 where run: "alloc fuel n h = Inr (p, h1)" and rep1: "rep h1 bs1"
      and len: "length bs1 \<le> Suc (length bs)" and sub: "used bs \<subseteq> used bs1"
      and new: "\<And>q. p = Some q \<Longrightarrow>
        \<exists>a k. q = payload a \<and> n \<le> k \<and> (a, k, False) \<in> used bs1 \<and> a \<notin> fst ` used bs"
    using alloc_step [OF Cons.prems(1)] by metis
  have "length bs1 + length ns \<le> fuel" using len Cons.prems(2) by simp
  from Cons.IH [OF rep1 this] obtain ps h' bs' where
    all: "alloc_all (alloc fuel) ns h1 = Inr (ps, h')" "rep h' bs'" "length ps = length ns"
      "used bs1 \<subseteq> used bs'"
    and each: "\<forall>i < length ns. \<forall>q. ps ! i = Some q \<longrightarrow>
        (\<exists>a k. q = payload a \<and> ns ! i \<le> k \<and> (a, k, False) \<in> used bs' \<and> a \<notin> fst ` used bs1)"
    and dist: "\<forall>i < length ns. \<forall>j < i. ps ! i \<noteq> None \<longrightarrow> ps ! i \<noteq> ps ! j"
    by blast
  have "ps ! i \<noteq> p" if i: "i < length ns" "ps ! i = Some q" for i q
  proof
    assume "ps ! i = p"
    with i new obtain a k where a: "q = payload a" "(a, k, False) \<in> used bs1" by blast
    from each i obtain b where "q = payload b" "b \<notin> fst ` used bs1" by blast
    with a show False by (force simp: payload_def)
  qed
  then have "\<forall>i < length (n # ns). \<forall>j < i. (p # ps) ! i \<noteq> None \<longrightarrow> (p # ps) ! i \<noteq> (p # ps) ! j"
    using dist by (fastforce simp: nth_Cons split: nat.splits)
  moreover have "\<forall>i < length (n # ns). \<forall>q. (p # ps) ! i = Some q \<longrightarrow>
      (\<exists>a k. q = payload a \<and> (n # ns) ! i \<le> k \<and> (a, k, False) \<in> used bs' \<and> a \<notin> fst ` used bs)"
  proof -
    have "\<exists>a k. q = payload a \<and> n \<le> k \<and> (a, k, False) \<in> used bs' \<and> a \<notin> fst ` used bs" if "p = Some q" for q
      using new [OF that] all(4) by blast
    moreover have "\<exists>a k. q = payload a \<and> ns ! i \<le> k \<and> (a, k, False) \<in> used bs' \<and> a \<notin> fst ` used bs"
      if "i < length ns" "ps ! i = Some q" for i q
      using each that sub by blast
    ultimately show ?thesis by (simp add: All_less_Suc2)
  qed
  moreover have "alloc_all (alloc fuel) (n # ns) h = Inr (p # ps, h')" using run all(1) by simp
  ultimately show ?case
    using all(2,3,4) sub by (intro exI [of _ "p # ps"] exI [of _ h'] exI [of _ bs']) auto
qed

lemma alloc_all_disjoint:
  assumes "rep h bs" and "length bs + length ns \<le> fuel"
  shows "\<exists>ps h' bs'. alloc_all (alloc fuel) ns h = Inr (ps, h') \<and> rep h' bs' \<and> length ps = length ns \<and>
     used bs \<subseteq> used bs' \<and>
     (\<forall>i < length ns. \<forall>j < i. \<forall>p q. ps ! i = Some p \<longrightarrow> ps ! j = Some q \<longrightarrow>
        p + ns ! i \<le> q \<or> q + ns ! j \<le> p)"
proof -
  obtain ps h' bs' where all: "alloc_all (alloc fuel) ns h = Inr (ps, h')" "rep h' bs'"
      "length ps = length ns" "used bs \<subseteq> used bs'"
    and each: "\<forall>i < length ns. \<forall>q. ps ! i = Some q \<longrightarrow>
        (\<exists>a k. q = payload a \<and> ns ! i \<le> k \<and> (a, k, False) \<in> used bs' \<and> a \<notin> fst ` used bs)"
    and dist: "\<forall>i < length ns. \<forall>j < i. ps ! i \<noteq> None \<longrightarrow> ps ! i \<noteq> ps ! j"
    using alloc_all_blocks [OF assms] by blast
  obtain x y where t: "tiles x bs' y" using rep_tiles [OF all(2)] by blast
  have "p + ns ! i \<le> r \<or> r + ns ! j \<le> p"
    if ij: "i < length ns" "j < i" "ps ! i = Some p" "ps ! j = Some r" for i j p r
  proof -
    have sub: "used bs' \<subseteq> set bs'" by (auto simp: used_def)
    have "j < length ns" using ij by simp
    obtain a k where a: "p = payload a" "ns ! i \<le> k" "(a, k, False) \<in> set bs'"
      using each ij(1,3) sub by blast
    obtain b l where b: "r = payload b" "ns ! j \<le> l" "(b, l, False) \<in> set bs'"
      using each \<open>j < length ns\<close> ij(4) sub by blast
    have "ps ! i \<noteq> ps ! j" using dist ij by blast
    then have "a \<noteq> b" using ij a(1) b(1) by auto
    with tiles_disjoint [OF t a(3) b(3)] a(1,2) b(1,2) show ?thesis by (auto simp: payload_def)
  qed
  then show ?thesis using all by blast
qed

end

end
