(* ===== verification/Malloc1.thy ===== *)
theory Malloc1
  imports Malloc_Heap
begin

text \<open>
  The first allocator, \<^verbatim>\<open>malloc_1.cpp\<close>: first fit over a list of all blocks, without splitting
  or merging. Requests are numbers below \<open>2 ^ 64\<close>; the only arithmetic that can wrap is the
  product in \<open>scalloc\<close>.
\<close>

section \<open>Operations\<close>

definition too_big :: "nat \<Rightarrow> bool" where
  "too_big n \<longleftrightarrow> n = 0 \<or> 100000000 < n"

definition smalloc :: "nat \<Rightarrow> nat \<Rightarrow> heap \<Rightarrow> (ptr \<times> heap) res" where
  "smalloc fuel n h =
     (if too_big n then Inr (None, h)
      else if root h = None then
        (case sbrk (n + sizeof_md) h of
           None \<Rightarrow> Inr (None, h)
         | Some (p, h) \<Rightarrow>
             Inr (Some (payload p),
               h\<lparr>md := (md h)(p \<mapsto> \<lparr>bsize = n, is_free = False, next_md = None, prev_md = None\<rparr>),
                 root := Some p, end_ptr := Some p\<rparr>))
      else
        rbind (find_free fuel h (root h) n) (\<lambda>tmp.
          case tmp of
            Some a \<Rightarrow>
              rbind (set_md tmp (\<lambda>m. m\<lparr>is_free := False\<rparr>) h) (\<lambda>h. Inr (Some (payload a), h))
          | None \<Rightarrow>
              (case sbrk (n + sizeof_md) h of
                 None \<Rightarrow> Inr (None, h)
               | Some (p, h) \<Rightarrow>
                   let h = h\<lparr>md := (md h)(p \<mapsto> \<lparr>bsize = n, is_free = False, next_md = None,
                                              prev_md = end_ptr h\<rparr>)\<rparr>
                   in rbind (set_md (end_ptr h) (\<lambda>m. m\<lparr>next_md := Some p\<rparr>) h) (\<lambda>h.
                        Inr (Some (payload p), h\<lparr>end_ptr := Some p\<rparr>)))))"

definition scalloc :: "nat \<Rightarrow> nat \<Rightarrow> nat \<Rightarrow> heap \<Rightarrow> (ptr \<times> heap) res" where
  "scalloc fuel num n h =
     rbind (smalloc fuel (n * num mod 2 ^ 64) h) (\<lambda>(p, h).
       if p = None then Inr (None, h)
       else rbind (memset_md p 0 (n * num mod 2 ^ 64) h) (\<lambda>h. Inr (p, h)))"

definition sfree :: "ptr \<Rightarrow> heap \<Rightarrow> heap res" where
  "sfree p h =
     (case p of None \<Rightarrow> Inr h
      | Some a \<Rightarrow>
          rbind (get_md h (Some (metadata_of a))) (\<lambda>m.
            if is_free m then Inr h
            else set_md (Some (metadata_of a)) (\<lambda>m. m\<lparr>is_free := True\<rparr>) h))"

text \<open>
  The result of \<open>smalloc\<close> is compared with \<open>(void*)-1\<close>, which it never returns, and the copy
  reads \<open>size\<close> bytes although the old block is shorter.
\<close>

definition srealloc :: "nat \<Rightarrow> ptr \<Rightarrow> nat \<Rightarrow> heap \<Rightarrow> (ptr \<times> heap) res" where
  "srealloc fuel oldp n h =
     (if too_big n then Inr (None, h)
      else case oldp of
        None \<Rightarrow> smalloc fuel n h
      | Some old \<Rightarrow>
          rbind (get_md h (Some (metadata_of old))) (\<lambda>m.
            if n \<le> bsize m then Inr (oldp, h)
            else
              rbind (smalloc fuel n h) (\<lambda>(tmp, h).
              rbind (memmove_md tmp old n h) (\<lambda>h.
              rbind (sfree oldp h) (\<lambda>h. Inr (tmp, h))))))"

definition num_free_blocks :: "nat \<Rightarrow> heap \<Rightarrow> nat res" where
  "num_free_blocks fuel h = fold_blocks fuel h (\<lambda>m c. if is_free m then c + 1 else c) (root h) 0"

definition num_free_bytes :: "nat \<Rightarrow> heap \<Rightarrow> nat res" where
  "num_free_bytes fuel h = fold_blocks fuel h (\<lambda>m c. if is_free m then c + bsize m else c) (root h) 0"

definition num_allocated_blocks :: "nat \<Rightarrow> heap \<Rightarrow> nat res" where
  "num_allocated_blocks fuel h = fold_blocks fuel h (\<lambda>m c. c + 1) (root h) 0"

definition num_allocated_bytes :: "nat \<Rightarrow> heap \<Rightarrow> nat res" where
  "num_allocated_bytes fuel h = fold_blocks fuel h (\<lambda>m c. c + bsize m) (root h) 0"

definition num_meta_data_bytes :: "nat \<Rightarrow> heap \<Rightarrow> nat res" where
  "num_meta_data_bytes fuel h = rbind (num_allocated_blocks fuel h) (\<lambda>r. Inr (sizeof_md * r))"

definition size_meta_data :: nat where "size_meta_data = sizeof_md"

definition fresh_heap :: heap where
  "fresh_heap = \<lparr>md = Map.empty, bytes = (\<lambda>_. 0), base = 4096, brk = 4096, brk_limit = 200000000,
     root = None, end_ptr = None\<rparr>"

section \<open>Allocation\<close>

text \<open>
  The abstract allocator: reuse the first block that fits, otherwise append one at the break.
\<close>

fun take_first :: "nat \<Rightarrow> block list \<Rightarrow> block list" where
  "take_first n [] = []"
| "take_first n ((a, k, f) # bs) =
     (if free_for n (a, k, f) then (a, k, False) # bs else (a, k, f) # take_first n bs)"

lemma take_first_split:
  "list_all (\<lambda>b. \<not> free_for n b) xs \<Longrightarrow> free_for n (a, k, f) \<Longrightarrow>
   take_first n (xs @ (a, k, f) # ys) = xs @ (a, k, False) # ys"
  by (induction xs) auto

lemma smalloc_reuse:
  assumes "heap_ok h bs" and "\<not> too_big n" and "length bs < fuel"
    and "first_of (filter (free_for n) bs) None = Some a"
  shows "\<exists>h'. smalloc fuel n h = Inr (Some (payload a), h') \<and> heap_ok h' (take_first n bs) \<and>
           brk h' = brk h \<and> bytes h' = bytes h"
proof -
  obtain xs k f ys where bs: "bs = xs @ (a, k, f) # ys" and fit: "free_for n (a, k, f)"
      "list_all (\<lambda>b. \<not> free_for n b) xs"
    using first_fit_split [OF assms(4)] by blast
  have seg: "dseg (md h) None bs None" and t: "tiles (base h) (xs @ (a, k, f) # ys) (brk h)"
    using assms(1) bs by (auto simp: heap_ok_def)
  have m: "md h a = Some \<lparr>bsize = k, is_free = f, next_md = first_of ys None, prev_md = last_of None xs\<rparr>"
    using seg bs by simp
  have find: "find_free fuel h (root h) n = Inr (Some a)"
    using find_free_first [OF seg assms(3), of n] assms(1,4) by (simp add: heap_ok_def)
  obtain r where "root h = Some r" using assms(1) bs by (cases xs) (auto simp: heap_ok_def)
  with find m assms(2) have run: "smalloc fuel n h = Inr (Some (payload a), h\<lparr>md := (md h)
      (a \<mapsto> \<lparr>bsize = k, is_free = False, next_md = first_of ys None, prev_md = last_of None xs\<rparr>)\<rparr>)"
    by (simp add: smalloc_def)
  have "dseg ((md h)(a \<mapsto> v)) p xs r = dseg (md h) p xs r"
    "dseg ((md h)(a \<mapsto> v)) p ys r = dseg (md h) p ys r" for v p r
    using tiles_other(1,2) [OF t] by (auto intro!: dseg_frame)
  with run assms(1) bs fit show ?thesis
    by (auto simp: heap_ok_def take_first_split)
qed

lemma smalloc_extend:
  assumes "heap_ok h bs" and "\<not> too_big n" and "length bs < fuel"
    and "first_of (filter (free_for n) bs) None = None" and "brk h + n + sizeof_md \<le> brk_limit h"
  shows "\<exists>h'. smalloc fuel n h = Inr (Some (payload (brk h)), h') \<and>
           heap_ok h' (bs @ [(brk h, n, False)]) \<and> brk h' = brk h + n + sizeof_md \<and>
           bytes h' = bytes h"
proof (cases bs rule: rev_cases)
  case Nil
  with assms show ?thesis
    by (auto simp: smalloc_def sbrk_def heap_ok_def)
next
  case (snoc xs b)
  obtain a k f where b: "b = (a, k, f)" by (cases b)
  have seg: "dseg (md h) None bs None" and t: "tiles (base h) bs (brk h)"
    using assms(1) by (auto simp: heap_ok_def)
  have find: "find_free fuel h (root h) n = Inr None"
    using find_free_first [OF seg assms(3), of n] assms(1,4) by (simp add: heap_ok_def)
  have en: "end_ptr h = Some a" and m: "md h a = Some \<lparr>bsize = k, is_free = f, next_md = None,
      prev_md = last_of None xs\<rparr>"
    using assms(1) snoc b by (auto simp: heap_ok_def)
  obtain r where "root h = Some r" using assms(1) snoc by (cases xs) (auto simp: heap_ok_def)
  have other: "c \<in> set (map fst bs) \<Longrightarrow> c \<noteq> brk h" for c
    using tiles_fst_range [OF t, of c] by auto
  then have "a \<noteq> brk h" using snoc b by auto
  define md' where "md' = (md h)(brk h \<mapsto> \<lparr>bsize = n, is_free = False, next_md = None, prev_md = Some a\<rparr>,
      a \<mapsto> \<lparr>bsize = k, is_free = f, next_md = Some (brk h), prev_md = last_of None xs\<rparr>)"
  have run: "smalloc fuel n h = Inr (Some (payload (brk h)),
      h\<lparr>brk := brk h + n + sizeof_md, md := md', end_ptr := Some (brk h)\<rparr>)"
    using find m en \<open>root h = Some r\<close> assms(2,5) \<open>a \<noteq> brk h\<close>
    by (simp add: smalloc_def sbrk_def Let_def md'_def add.assoc)
  have "dseg md' p xs r = dseg (md h) p xs r" for p r
    using other snoc b t tiles_other(1) [of "base h" xs a k f "[]" "brk h"]
    by (intro dseg_frame) (auto simp: md'_def)
  then have "dseg md' None (bs @ [(brk h, n, False)]) None"
    using seg snoc b \<open>a \<noteq> brk h\<close> by (auto simp: md'_def)
  with run assms(1) snoc b show ?thesis
    by (auto simp: heap_ok_def add.commute add.left_commute)
qed

text \<open>
  \<open>smalloc\<close> refines the abstract allocator: a request of 0 or of more than \<open>10 ^ 8\<close> bytes is
  refused; otherwise the first free block that is large enough is reused; if there is none, a
  block is appended at the break; if the break cannot grow, the result is null and the heap is
  unchanged. The heap stays a gapless list of disjoint blocks, and no payload byte changes.
\<close>

theorem smalloc1_refines:
  assumes "heap_ok h bs" and "length bs < fuel"
  shows "\<exists>p h' bs'. smalloc fuel n h = Inr (p, h') \<and> heap_ok h' bs' \<and> bytes h' = bytes h \<and>
           (p, bs') =
             (if too_big n then (None, bs)
              else case first_of (filter (free_for n) bs) None of
                Some a \<Rightarrow> (Some (payload a), take_first n bs)
              | None \<Rightarrow>
                  if brk h + n + sizeof_md \<le> brk_limit h
                  then (Some (payload (brk h)), bs @ [(brk h, n, False)])
                  else (None, bs))"
proof (cases "too_big n")
  case True
  with assms show ?thesis by (auto simp: smalloc_def)
next
  case False
  show ?thesis
  proof (cases "first_of (filter (free_for n) bs) None")
    case (Some a)
    with smalloc_reuse [OF assms(1) False assms(2) Some] False show ?thesis by auto
  next
    case None
    show ?thesis
    proof (cases "brk h + n + sizeof_md \<le> brk_limit h")
      case True
      with smalloc_extend [OF assms(1) False assms(2) None True] None False show ?thesis by auto
    next
      case full: False
      have "find_free fuel h (root h) n = Inr None"
        using find_free_first [of h None bs fuel n] assms None by (simp add: heap_ok_def)
      with False full None assms(1) show ?thesis
        by (auto simp: smalloc_def sbrk_def add.assoc)
    qed
  qed
qed

theorem smalloc1_refines_witness:
  "\<exists>h'. smalloc 1 100 fresh_heap = Inr (Some 4128, h') \<and> heap_ok h' [(4096, 100, False)]"
  using smalloc1_refines [of fresh_heap "[]" 1 100]
  by (auto simp: fresh_heap_def heap_ok_def too_big_def payload_def sizeof_md_def)

lemma take_first_use:
  "first_of (filter (free_for n) bs) None = Some a \<Longrightarrow>
   \<exists>xs k ys. bs = xs @ (a, k, True) # ys \<and> take_first n bs = xs @ (a, k, False) # ys \<and> n \<le> k"
  using first_fit_split [of "free_for n" bs a] take_first_split [of n]
  by (fastforce simp: free_for_def)

lemma smalloc_outcome:
  assumes "heap_ok h bs" and "length bs < fuel" and "smalloc fuel n h = Inr (Some p, h')"
  obtains xs a k ys where "p = payload a" "n \<le> k" "heap_ok h' (xs @ (a, k, False) # ys)"
    "bs = xs @ (a, k, True) # ys \<or> bs = xs \<and> ys = [] \<and> a = brk h" "bytes h' = bytes h"
    "brk_limit h' = brk_limit h"
proof (cases "first_of (filter (free_for n) bs) None")
  case (Some a)
  have "\<not> too_big n" using assms(3) by (auto simp: smalloc_def)
  then obtain h1 where h1: "smalloc fuel n h = Inr (Some (payload a), h1)"
      "heap_ok h1 (take_first n bs)" "bytes h1 = bytes h"
    using smalloc_reuse [OF assms(1) _ assms(2) Some] by blast
  obtain xs k ys where "bs = xs @ (a, k, True) # ys" "take_first n bs = xs @ (a, k, False) # ys" "n \<le> k"
    using take_first_use [OF Some] by blast
  moreover have "brk_limit h' = brk_limit h"
    using assms(3) by (auto simp: smalloc_def sbrk_def set_md_def result_simps Let_def
        split: if_splits option.splits)
  ultimately show thesis using that h1 assms(3) by auto
next
  case None
  have "\<not> too_big n" using assms(3) by (auto simp: smalloc_def)
  moreover have "find_free fuel h (root h) n = Inr None"
    using find_free_first [of h None bs fuel n] assms(1,2) None by (simp add: heap_ok_def)
  ultimately have room: "brk h + n + sizeof_md \<le> brk_limit h"
    using assms(3) by (auto simp: smalloc_def sbrk_def split: if_splits)
  then obtain h1 where h1: "smalloc fuel n h = Inr (Some (payload (brk h)), h1)"
      "heap_ok h1 (bs @ [(brk h, n, False)])" "bytes h1 = bytes h"
    using smalloc_extend [OF assms(1) \<open>\<not> too_big n\<close> assms(2) None room] by blast
  moreover have "brk_limit h' = brk_limit h"
    using assms(3) by (auto simp: smalloc_def sbrk_def set_md_def result_simps Let_def
        split: if_splits option.splits)
  ultimately show thesis using that [of "brk h" n bs "[]"] assms(3) by auto
qed

text \<open>
  Memory that \<open>smalloc\<close> returns is usable: its \<open>n\<close> bytes lie between the old base and the
  break of the heap, and overlap no block that was in use.
\<close>

theorem smalloc1_disjoint:
  assumes "heap_ok h bs" and "length bs < fuel" and "smalloc fuel n h = Inr (Some p, h')"
    and "(b, k, False) \<in> set bs"
  shows "base h' \<le> p \<and> p + n \<le> brk h' \<and> (p + n \<le> payload b \<or> payload b + k \<le> p)"
proof -
  obtain xs a j ys where p: "p = payload a" "n \<le> j" "heap_ok h' (xs @ (a, j, False) # ys)"
      and bs: "bs = xs @ (a, j, True) # ys \<or> bs = xs \<and> ys = [] \<and> a = brk h"
    using smalloc_outcome [OF assms(1-3)] by metis
  let ?bs' = "xs @ (a, j, False) # ys"
  have t: "tiles (base h') ?bs' (brk h')" using p(3) by (simp add: heap_ok_def)
  have b: "(b, k, False) \<in> set xs \<or> (b, k, False) \<in> set ys" using bs assms(4) by auto
  then have "b \<in> set (map fst xs) \<or> b \<in> set (map fst ys)" by force
  then have "a \<noteq> b" using tiles_other(1,2) [OF t] by auto
  with b tiles_disjoint [OF t, of a j False b k False] tiles_range [OF t, of a j False] p(1,2)
  show ?thesis by (auto simp: payload_def)
qed

theorem smalloc1_disjoint_witness:
  "\<exists>h h'. smalloc 1 100 fresh_heap = Inr (Some 4128, h) \<and> smalloc 2 50 h = Inr (Some 4260, h') \<and>
     4260 + 50 \<le> brk h'"
proof -
  have "\<exists>h h'. smalloc 1 100 fresh_heap = Inr (Some 4128, h) \<and> heap_ok h [(4096, 100, False)] \<and>
      smalloc 2 50 h = Inr (Some 4260, h')"
    by (simp add: smalloc_def fresh_heap_def too_big_def sbrk_def sizeof_md_def payload_def heap_ok_def
        Let_def numeral_2_eq_2 free_for_def)
  then obtain h h' where "smalloc 1 100 fresh_heap = Inr (Some 4128, h)" "heap_ok h [(4096, 100, False)]"
      "smalloc 2 50 h = Inr (Some 4260, h')" by blast
  with smalloc1_disjoint [of h "[(4096, 100, False)]" 2 50 4260 h' 4096 100] show ?thesis by auto
qed

section \<open>Release, growth, statistics\<close>

lemma sfree_block:
  assumes "heap_ok h (xs @ (a, k, f) # ys)"
  shows "\<exists>h'. sfree (Some (payload a)) h = Inr h' \<and> heap_ok h' (xs @ (a, k, True) # ys) \<and>
           bytes h' = bytes h"
proof -
  have m: "md h a = Some \<lparr>bsize = k, is_free = f, next_md = first_of ys None, prev_md = last_of None xs\<rparr>"
    using assms by (simp add: heap_ok_def)
  have t: "tiles (base h) (xs @ (a, k, f) # ys) (brk h)" using assms by (simp add: heap_ok_def)
  have "dseg ((md h)(a \<mapsto> v)) p xs r = dseg (md h) p xs r"
    "dseg ((md h)(a \<mapsto> v)) p ys r = dseg (md h) p ys r" for v p r
    using tiles_other(1,2) [OF t] by (auto intro!: dseg_frame)
  with assms m show ?thesis
    by (cases f) (auto simp: sfree_def metadata_of_def payload_def heap_ok_def)
qed

lemma heap_ok_unique:
  assumes "heap_ok h bs" and "(a, k, f) \<in> set bs" and "md h a = Some m"
  shows "bsize m = k \<and> is_free m = f"
proof -
  obtain xs ys where "bs = xs @ (a, k, f) # ys" using assms(2) by (meson split_list)
  with assms(1,3) show ?thesis by (auto simp: heap_ok_def)
qed

text \<open>
  \<open>srealloc\<close> that has to move a block in use: the first bytes of the new block are those
  of the old one, the old block is released and the heap stays well formed. The copy takes
  the \<open>n\<close> bytes of the request although the old block has only \<open>k < n\<close>, so that the rest of
  the new block is filled with whatever lies behind the old one. When no memory is left the
  null result is not noticed and the copy writes through it.
\<close>

theorem srealloc1_moves:
  assumes "heap_ok h bs" and "length bs < fuel" and "(a, k, False) \<in> set bs" and "k < n"
    and "\<not> too_big n"
  shows "(\<exists>h1. smalloc fuel n h = Inr (None, h1) \<and>
            srealloc fuel (Some (payload a)) n h = Inl NullDeref) \<or>
         (\<exists>p h' bs'. srealloc fuel (Some (payload a)) n h = Inr (Some p, h') \<and> heap_ok h' bs' \<and>
            (a, k, True) \<in> set bs' \<and> (\<forall>i < n. bytes h' (p + i) = bytes h (payload a + i)))"
proof -
  obtain us vs where bs: "bs = us @ (a, k, False) # vs" using assms(3) by (meson split_list)
  then have m: "md h a = Some \<lparr>bsize = k, is_free = False, next_md = first_of vs None,
      prev_md = last_of None us\<rparr>"
    using assms(1) by (simp add: heap_ok_def)
  have go: "srealloc fuel (Some (payload a)) n h =
      rbind (smalloc fuel n h) (\<lambda>(tmp, h).
        rbind (memmove_md tmp (payload a) n h) (\<lambda>h.
        rbind (sfree (Some (payload a)) h) (\<lambda>h. Inr (tmp, h))))"
    using m assms(4,5) by (simp add: srealloc_def metadata_of_def payload_def)
  obtain p h1 where sm: "smalloc fuel n h = Inr (p, h1)"
    using smalloc_reuse [OF assms(1,5,2)] smalloc_extend [OF assms(1,5,2)]
      find_free_first [of h None bs fuel n] assms(1,2)
    by (cases "smalloc fuel n h")
      (auto simp: heap_ok_def smalloc_def sbrk_def split: if_splits option.splits)
  show ?thesis
  proof (cases p)
    case None
    with go sm show ?thesis by (simp add: memmove_md_def)
  next
    case (Some q)
    obtain xs b j ys where q: "q = payload b" "n \<le> j" "heap_ok h1 (xs @ (b, j, False) # ys)"
        and old: "bs = xs @ (b, j, True) # ys \<or> bs = xs \<and> ys = [] \<and> b = brk h"
        and same: "bytes h1 = bytes h"
      using smalloc_outcome [OF assms(1,2) sm [unfolded Some]] by metis
    define h2 where "h2 = h1\<lparr>bytes := (\<lambda>x. if q \<le> x \<and> x < q + n then bytes h1 (payload a + (x - q))
        else bytes h1 x), md := clobber q n (md h1)\<rparr>"
    have h2: "heap_ok h2 (xs @ (b, j, False) # ys)"
      using heap_ok_write [OF q(3,2)] q(1) by (simp add: h2_def)
    have "(a, k, False) \<in> set (xs @ (b, j, False) # ys)" using old assms(3) by auto
    then obtain us' vs' where new: "xs @ (b, j, False) # ys = us' @ (a, k, False) # vs'"
      by (meson split_list)
    obtain h3 where h3: "sfree (Some (payload a)) h2 = Inr h3" "heap_ok h3 (us' @ (a, k, True) # vs')"
        "bytes h3 = bytes h2"
      using sfree_block [OF h2 [unfolded new]] by blast
    have "srealloc fuel (Some (payload a)) n h = Inr (Some q, h3)"
      using go sm Some h3(1) by (simp add: memmove_md_def h2_def)
    moreover have "\<forall>i < n. bytes h3 (q + i) = bytes h (payload a + i)"
      using h3(3) same by (simp add: h2_def)
    ultimately show ?thesis
      using h3(2) by (intro disjI2 exI [of _ q] exI [of _ h3] exI [of _ "us' @ (a, k, True) # vs'"]) simp
  qed
qed

text \<open>A heap with one block of 100 bytes in use.\<close>

definition one_block :: heap where
  "one_block = fresh_heap\<lparr>brk := 4228, root := Some 4096, end_ptr := Some 4096,
     md := [4096 \<mapsto> \<lparr>bsize = 100, is_free = False, next_md = None, prev_md = None\<rparr>]\<rparr>"

lemma one_block_ok: "heap_ok one_block [(4096, 100, False)]"
  by (simp add: one_block_def fresh_heap_def heap_ok_def sizeof_md_def)

theorem srealloc1_moves_witness:
  "\<exists>p h' bs'. srealloc 2 (Some 4128) 200 one_block = Inr (Some p, h') \<and> heap_ok h' bs' \<and>
     (4096, 100, True) \<in> set bs' \<and> bytes h' (p + 150) = bytes one_block (4128 + 150)"
proof -
  have "smalloc 2 200 one_block \<noteq> Inr (None, h1)" for h1
    using smalloc_extend [OF one_block_ok, of 200 2]
    by (auto simp: one_block_def fresh_heap_def too_big_def sizeof_md_def free_for_def)
  with srealloc1_moves [OF one_block_ok, of 2 4096 100 200] show ?thesis
    by (auto simp: too_big_def payload_def sizeof_md_def)
qed

text \<open>
  \<open>scalloc\<close> zeroes what it returns, but the product of its arguments is taken modulo
  \<open>2 ^ 64\<close>: the block has that many bytes, which is less than asked for when the product wraps.
\<close>

theorem scalloc1_zeroed:
  assumes "heap_ok h bs" and "length bs < fuel" and "scalloc fuel num n h = Inr (Some p, h')"
  shows "\<exists>a k bs'. p = payload a \<and> heap_ok h' bs' \<and> (a, k, False) \<in> set bs' \<and>
           n * num mod 2 ^ 64 \<le> k \<and> (\<forall>i < n * num mod 2 ^ 64. bytes h' (p + i) = 0)"
proof -
  let ?n = "n * num mod 2 ^ 64"
  obtain h1 where sm: "smalloc fuel ?n h = Inr (Some p, h1)"
    and h': "h' = h1\<lparr>bytes := (\<lambda>x. if p \<le> x \<and> x < p + ?n then 0 else bytes h1 x),
                    md := clobber p ?n (md h1)\<rparr>"
    using assms(3) by (auto simp: scalloc_def result_simps memset_md_def split: if_splits)
  obtain xs a k ys where q: "p = payload a" "?n \<le> k" "heap_ok h1 (xs @ (a, k, False) # ys)"
    using smalloc_outcome [OF assms(1,2) sm] by metis
  have "heap_ok h' (xs @ (a, k, False) # ys)"
    using heap_ok_write [OF q(3,2)] q(1) h' by simp
  moreover have "\<forall>i < ?n. bytes h' (p + i) = 0" using h' by simp
  ultimately show ?thesis
    using q(1,2) by (intro exI [of _ a] exI [of _ k] exI [of _ "xs @ (a, k, False) # ys"]) simp
qed

theorem scalloc1_zeroed_witness:
  "\<exists>h' a k bs'. scalloc 2 (2 ^ 60 + 1) 16 one_block = Inr (Some (payload a), h') \<and> heap_ok h' bs' \<and>
     (a, k, False) \<in> set bs' \<and> 16 \<le> k"
proof -
  have "\<exists>p h'. scalloc 2 (2 ^ 60 + 1) 16 one_block = Inr (Some p, h')"
    using smalloc_extend [OF one_block_ok, of 16 2]
    by (auto simp: scalloc_def one_block_def fresh_heap_def too_big_def sizeof_md_def free_for_def
        memset_md_def)
  then obtain p h' where run: "scalloc 2 (2 ^ 60 + 1) 16 one_block = Inr (Some p, h')" by blast
  from scalloc1_zeroed [OF one_block_ok _ run] run show ?thesis by fastforce
qed

text \<open>
  The statistics are exact: they count the blocks and bytes of the list, and the bytes of
  all blocks with their metadata make up the memory between the base and the break.
\<close>

theorem malloc1_statistics:
  assumes "heap_ok h bs" and "length bs < fuel"
  shows "num_free_blocks fuel h = Inr (length (filter (\<lambda>(a, n, f). f) bs)) \<and>
         num_free_bytes fuel h = Inr (sum_list (map (\<lambda>(a, n, f). if f then n else 0) bs)) \<and>
         num_allocated_blocks fuel h = Inr (length bs) \<and>
         num_allocated_bytes fuel h = Inr (sum_list (map (\<lambda>(a, n, f). n) bs)) \<and>
         num_meta_data_bytes fuel h = Inr (size_meta_data * length bs) \<and>
         base h + sum_list (map (\<lambda>(a, n, f). n) bs) + size_meta_data * length bs = brk h"
proof -
  have seg: "dseg (md h) None bs None" and r: "root h = first_of bs None"
    and t: "tiles (base h) bs (brk h)"
    using assms(1) by (auto simp: heap_ok_def)
  then show ?thesis
    using count_free_blocks [OF seg assms(2)] count_free_bytes [OF seg assms(2)]
      count_blocks [OF seg assms(2)] count_bytes [OF seg assms(2)] tiles_total [OF t]
    by (simp add: num_free_blocks_def num_free_bytes_def num_allocated_blocks_def
        num_allocated_bytes_def num_meta_data_bytes_def size_meta_data_def)
qed

theorem malloc1_statistics_witness:
  "num_allocated_bytes 2 one_block = Inr 100 \<and> num_meta_data_bytes 2 one_block = Inr 32"
  using malloc1_statistics [OF one_block_ok, of 2] by (simp add: size_meta_data_def sizeof_md_def)

section \<open>The allocator contract\<close>

lemma smalloc_total:
  assumes "heap_ok h bs" and "length bs < fuel"
  shows "returns (smalloc fuel n h)"
proof (cases "too_big n")
  case True
  then show ?thesis by (simp add: smalloc_def)
next
  case False
  have find: "find_free fuel h (root h) n = Inr (first_of (filter (free_for n) bs) None)"
    using find_free_first [of h None bs fuel n] assms by (simp add: heap_ok_def)
  show ?thesis
  proof (cases "first_of (filter (free_for n) bs) None")
    case (Some a)
    with smalloc_reuse [OF assms(1) False assms(2)] show ?thesis by auto
  next
    case None
    with smalloc_extend [OF assms(1) False assms(2) None] find False show ?thesis
      by (cases "brk h + n + sizeof_md \<le> brk_limit h") (auto simp: smalloc_def sbrk_def add.assoc)
  qed
qed

lemma smalloc_null:
  assumes "heap_ok h bs" and "length bs < fuel" and "smalloc fuel n h = Inr (None, h')"
  shows "h' = h"
  using assms(3)
  by (auto simp: smalloc_def result_simps Let_def sbrk_def set_md_def
      split: if_splits option.splits)

interpretation m1: block_allocator smalloc heap_ok
proof
  fix h :: heap and bs
  assume ok: "heap_ok h bs"
  then show "\<exists>x y. tiles x bs y" by (auto simp: heap_ok_def)
  fix fuel n
  assume fuel: "length bs < fuel"
  show "returns (smalloc fuel n h)" by (rule smalloc_total [OF ok fuel])
  show "heap_ok h' bs" if "smalloc fuel n h = Inr (None, h')" for h'
    using smalloc_null [OF ok fuel that] ok by simp
  show "\<exists>xs a k ys. p = payload a \<and> n \<le> k \<and> heap_ok h' (xs @ (a, k, False) # ys) \<and>
      length (xs @ ys) \<le> length bs \<and> used bs \<subseteq> set (xs @ ys)"
    if sm: "smalloc fuel n h = Inr (Some p, h')" for p h'
  proof -
    obtain xs a k ys where blk: "p = payload a" "n \<le> k" "heap_ok h' (xs @ (a, k, False) # ys)"
        "bs = xs @ (a, k, True) # ys \<or> bs = xs \<and> ys = [] \<and> a = brk h"
      using smalloc_outcome [OF ok fuel sm] by metis
    then have "length (xs @ ys) \<le> length bs" "used bs \<subseteq> set (xs @ ys)" by (auto simp: used_def)
    with blk(1-3) show ?thesis by blast
  qed
qed

text \<open>
  Any batch of requests to the first allocator is served: every request returns, null or
  a pointer, the memory areas returned are pairwise disjoint, and every block that was in use
  before stays in use.
\<close>

theorem smalloc1_batch:
  assumes "heap_ok h bs" and "length bs + length ns \<le> fuel"
  shows "\<exists>ps h' bs'. alloc_all (smalloc fuel) ns h = Inr (ps, h') \<and> heap_ok h' bs' \<and>
     length ps = length ns \<and> used bs \<subseteq> used bs' \<and>
     (\<forall>i < length ns. \<forall>j < i. \<forall>p q. ps ! i = Some p \<longrightarrow> ps ! j = Some q \<longrightarrow>
        p + ns ! i \<le> q \<or> q + ns ! j \<le> p)"
  using assms by (rule m1.alloc_all_disjoint)

theorem smalloc1_batch_witness:
  "\<exists>ps h' bs'. alloc_all (smalloc 9) [10, 20, 0, 30] one_block = Inr (ps, h') \<and> heap_ok h' bs' \<and>
     length ps = 4 \<and> (4096, 100, False) \<in> used bs'"
proof -
  have "(4096, 100, False) \<in> used [(4096, 100, False)]" by (simp add: used_def)
  moreover have "length [(4096 :: nat, 100 :: nat, False)] + length [10, 20, 0, 30 :: nat] \<le> 9" by simp
  ultimately show ?thesis using smalloc1_batch [OF one_block_ok, of "[10, 20, 0, 30]" 9] by fastforce
qed

end
