(* ===== verification/Malloc2.thy ===== *)
theory Malloc2
  imports Malloc_Heap
begin

text \<open>
  The second allocator, \<^verbatim>\<open>malloc_2.cpp\<close>: blocks are split and merged, the last block
  (the wilderness) is enlarged in place, and large requests go to \<open>mmap\<close>, whose blocks form a
  list of their own. The results of successive \<open>mmap\<close> calls are the list \<open>maps\<close>; when it is
  empty, or for an empty mapping, the call fails.
\<close>

section \<open>State\<close>

record heap2 = heap +
  mmap_head :: ptr
  mmap_end :: ptr
  maps :: "nat list"
  unmapped :: "(nat \<times> nat) list"       \<comment> \<open>arguments of the calls of \<open>munmap\<close>\<close>

definition MAX_ALLOCATION :: nat where "MAX_ALLOCATION = 100000000"
definition MMAP_ALLOCATION_LIMIT :: nat where "MMAP_ALLOCATION_LIMIT = 128 * 1024"

definition mmap :: "nat \<Rightarrow> heap2 \<Rightarrow> (nat \<times> heap2) option" where
  "mmap len h =
     (if len = 0 then None
      else case maps h of [] \<Rightarrow> None | a # as \<Rightarrow> Some (a, h\<lparr>maps := as\<rparr>))"

definition munmap :: "nat \<Rightarrow> nat \<Rightarrow> heap2 \<Rightarrow> heap2" where
  "munmap a len h = h\<lparr>unmapped := unmapped h @ [(a, len)], md := clobber a len (md h)\<rparr>"

section \<open>Splitting and merging\<close>

text \<open>\<open>split\<close> of the source.\<close>

definition split_md :: "nat \<Rightarrow> nat \<Rightarrow> heap2 \<Rightarrow> heap2 res" where
  "split_md place n h =
     rbind (get_md h (Some place)) (\<lambda>m.
       let new = place + n + sizeof_md;
           h = h\<lparr>md := (md h)(new \<mapsto> \<lparr>bsize = bsize m - n - sizeof_md, is_free = True,
                                     next_md = next_md m, prev_md = Some place\<rparr>)\<rparr>
       in rbind (if next_md m \<noteq> None then set_md (next_md m) (\<lambda>k. k\<lparr>prev_md := Some new\<rparr>) h
                 else Inr h) (\<lambda>h.
          rbind (set_md (Some place) (\<lambda>k. k\<lparr>next_md := Some new, bsize := n\<rparr>) h) (\<lambda>h.
            Inr (if end_ptr h = Some place then h\<lparr>end_ptr := Some new\<rparr> else h))))"

definition combine :: "ptr \<Rightarrow> ptr \<Rightarrow> heap2 \<Rightarrow> heap2 res" where
  "combine first second h =
     rbind (get_md h second) (\<lambda>s.
     rbind (set_md first (\<lambda>m. m\<lparr>bsize := bsize m + (bsize s + sizeof_md), next_md := next_md s\<rparr>) h) (\<lambda>h.
     rbind (if next_md s \<noteq> None then set_md (next_md s) (\<lambda>m. m\<lparr>prev_md := first\<rparr>) h else Inr h) (\<lambda>h.
       set_md first (\<lambda>m. m\<lparr>is_free := True\<rparr>)
         (if end_ptr h = second then h\<lparr>end_ptr := first\<rparr> else h))))"

section \<open>Allocation\<close>

text \<open>The branch that reuses a free block, common to the two lists.\<close>

definition reuse :: "nat \<Rightarrow> nat \<Rightarrow> heap2 \<Rightarrow> (ptr \<times> heap2) res" where
  "reuse a n h =
     rbind (get_md h (Some a)) (\<lambda>m.
     rbind (if 128 + sizeof_md + n \<le> bsize m then split_md a n h else Inr h) (\<lambda>h.
     rbind (set_md (Some a) (\<lambda>m. m\<lparr>is_free := False\<rparr>) h) (\<lambda>h.
       Inr (Some (payload a), h))))"

definition smallocSbrk :: "nat \<Rightarrow> nat \<Rightarrow> heap2 \<Rightarrow> (ptr \<times> heap2) res" where
  "smallocSbrk fuel n h =
     (if n = 0 \<or> MAX_ALLOCATION < n then Inr (None, h)
      else if root h = None then
        (case sbrk (n + sizeof_md) h of
           None \<Rightarrow> Inr (None, h)
         | Some (p, h) \<Rightarrow>
             Inr (Some (payload p),
               h\<lparr>md := (md h)(p \<mapsto> \<lparr>bsize = n, is_free = False, next_md = None, prev_md = None\<rparr>),
                 root := Some p, end_ptr := Some p\<rparr>))
      else
        rbind (find_free fuel h (root h) n) (\<lambda>tmp.
          case tmp of
            Some a \<Rightarrow> reuse a n h
          | None \<Rightarrow>
              rbind (get_md h (end_ptr h)) (\<lambda>e.
                if is_free e then
                  (case sbrk (n - bsize e) h of
                     None \<Rightarrow> Inr (None, h)
                   | Some (_, h) \<Rightarrow>
                       rbind (set_md (end_ptr h) (\<lambda>m. m\<lparr>bsize := n, is_free := False\<rparr>) h) (\<lambda>h.
                         Inr (map_option payload (end_ptr h), h)))
                else
                  (case sbrk (n + sizeof_md) h of
                     None \<Rightarrow> Inr (None, h)
                   | Some (p, h) \<Rightarrow>
                       let h = h\<lparr>md := (md h)(p \<mapsto> \<lparr>bsize = n, is_free = False, next_md = None,
                                                  prev_md = end_ptr h\<rparr>)\<rparr>
                       in rbind (set_md (end_ptr h) (\<lambda>m. m\<lparr>next_md := Some p\<rparr>) h) (\<lambda>h.
                            Inr (Some (payload p), h\<lparr>end_ptr := Some p\<rparr>))))))"

text \<open>
  \<open>smallocMmap\<close> follows the same pattern on the list of mappings, except that its last part
  uses \<open>end\<close>, the last block of the other list, where \<open>mmap_end\<close> is meant.
\<close>

definition smallocMmap :: "nat \<Rightarrow> nat \<Rightarrow> heap2 \<Rightarrow> (ptr \<times> heap2) res" where
  "smallocMmap fuel n h =
     (if mmap_head h = None then
        (case mmap (n + sizeof_md) h of
           None \<Rightarrow> Inr (None, h)
         | Some (p, h) \<Rightarrow>
             Inr (Some (payload p),
               h\<lparr>md := (md h)(p \<mapsto> \<lparr>bsize = n, is_free = False, next_md = None, prev_md = None\<rparr>),
                 mmap_head := Some p, mmap_end := Some p\<rparr>))
      else
        rbind (find_free fuel h (mmap_head h) n) (\<lambda>tmp.
          case tmp of
            Some a \<Rightarrow> reuse a n h
          | None \<Rightarrow>
              rbind (get_md h (mmap_end h)) (\<lambda>me.
                if is_free me then
                  rbind (get_md h (end_ptr h)) (\<lambda>e.
                    case mmap (nat ((int n - int (bsize e)) mod 2 ^ 64)) h of
                      None \<Rightarrow> Inr (None, h)
                    | Some (_, h) \<Rightarrow>
                        rbind (set_md (mmap_end h) (\<lambda>m. m\<lparr>bsize := n, is_free := False\<rparr>) h) (\<lambda>h.
                          Inr (map_option payload (mmap_end h), h)))
                else
                  (case mmap (n + sizeof_md) h of
                     None \<Rightarrow> Inr (None, h)
                   | Some (p, h) \<Rightarrow>
                       let h = h\<lparr>md := (md h)(p \<mapsto> \<lparr>bsize = n, is_free = False, next_md = None,
                                                  prev_md = end_ptr h\<rparr>)\<rparr>
                       in rbind (set_md (end_ptr h) (\<lambda>m. m\<lparr>next_md := Some p\<rparr>) h) (\<lambda>h.
                            Inr (Some (payload p), h\<lparr>end_ptr := Some p\<rparr>))))))"

definition smalloc :: "nat \<Rightarrow> nat \<Rightarrow> heap2 \<Rightarrow> (ptr \<times> heap2) res" where
  "smalloc fuel n h =
     (if n = 0 \<or> MAX_ALLOCATION < n then Inr (None, h)
      else if n < MMAP_ALLOCATION_LIMIT then smallocSbrk fuel n h
      else smallocMmap fuel n h)"

definition scalloc :: "nat \<Rightarrow> nat \<Rightarrow> nat \<Rightarrow> heap2 \<Rightarrow> (ptr \<times> heap2) res" where
  "scalloc fuel num n h =
     rbind (smalloc fuel (num * n mod 2 ^ 64) h) (\<lambda>(p, h).
       if p = None then Inr (None, h)
       else rbind (memset_md p 0 (num * n mod 2 ^ 64) h) (\<lambda>h. Inr (p, h)))"

section \<open>Release\<close>

text \<open>The merging at the end of the \<open>sbrk\<close> branch of \<open>sfree\<close>.\<close>

definition merge_next :: "ptr \<Rightarrow> heap2 \<Rightarrow> heap2 res" where
  "merge_next pm h =
     rbind (get_md h pm) (\<lambda>m.
       if next_md m \<noteq> None then
         rbind (get_md h (next_md m)) (\<lambda>k. if is_free k then combine pm (next_md m) h else Inr h)
       else Inr h)"

definition merge_prev :: "ptr \<Rightarrow> heap2 \<Rightarrow> heap2 res" where
  "merge_prev pm h =
     rbind (get_md h pm) (\<lambda>m.
       if prev_md m \<noteq> None then
         rbind (get_md h (prev_md m)) (\<lambda>k. if is_free k then combine (prev_md m) pm h else Inr h)
       else Inr h)"

definition sfree_merge :: "ptr \<Rightarrow> heap2 \<Rightarrow> heap2 res" where
  "sfree_merge pm h =
     rbind (merge_next pm h) (\<lambda>h.
     rbind (merge_prev pm h) (\<lambda>h.
       set_md pm (\<lambda>m. m\<lparr>is_free := True\<rparr>) h))"

definition sfree_mmap :: "nat \<Rightarrow> MallocMetadata \<Rightarrow> heap2 \<Rightarrow> heap2 res" where
  "sfree_mmap a m h =
     rbind
       (if prev_md m = None then
          (let h = h\<lparr>mmap_head := next_md m\<rparr>
           in if next_md m \<noteq> None then set_md (mmap_head h) (\<lambda>k. k\<lparr>prev_md := None\<rparr>) h else Inr h)
        else if next_md m = None then
          rbind (get_md h (mmap_end h)) (\<lambda>e.
            set_md (prev_md e) (\<lambda>k. k\<lparr>next_md := None\<rparr>) (h\<lparr>mmap_end := prev_md e\<rparr>))
        else
          rbind (set_md (prev_md m) (\<lambda>k. k\<lparr>next_md := next_md m\<rparr>) h) (\<lambda>h.
            set_md (next_md m) (\<lambda>k. k\<lparr>prev_md := prev_md m\<rparr>) h))
       (\<lambda>h. Inr (munmap a (bsize m + sizeof_md) h))"

definition sfree :: "ptr \<Rightarrow> heap2 \<Rightarrow> heap2 res" where
  "sfree p h =
     (case p of None \<Rightarrow> Inr h
      | Some x \<Rightarrow>
          let pm = Some (metadata_of x) in
          rbind (get_md h pm) (\<lambda>m.
            if is_free m then Inr h
            else if bsize m < MMAP_ALLOCATION_LIMIT then
              (if pm = root h then
                 (if next_md m = None then set_md pm (\<lambda>m. m\<lparr>is_free := True\<rparr>) (h\<lparr>end_ptr := root h\<rparr>)
                  else
                    rbind (get_md h (next_md m)) (\<lambda>k.
                      if is_free k then
                        rbind (combine pm (next_md m) h) (\<lambda>h.
                          set_md pm (\<lambda>m. m\<lparr>is_free := True\<rparr>) (h\<lparr>root := pm\<rparr>))
                      else sfree_merge pm h))
               else if pm = end_ptr h then
                 rbind (get_md h (prev_md m)) (\<lambda>k.
                   rbind (if is_free k
                          then rbind (combine (prev_md m) pm h) (\<lambda>h. Inr (h\<lparr>end_ptr := prev_md m\<rparr>))
                          else Inr h) (\<lambda>h.
                     set_md pm (\<lambda>m. m\<lparr>is_free := True\<rparr>) h))
               else sfree_merge pm h)
            else sfree_mmap (metadata_of x) m h))"

section \<open>Reallocation\<close>

text \<open>The attempts 1.b, 1.c and 1.d: the merged block and the heap, or \<^term>\<open>None\<close>.\<close>

definition try_merge :: "nat \<Rightarrow> MallocMetadata \<Rightarrow> nat \<Rightarrow> heap2 \<Rightarrow> (ptr \<times> heap2) res" where
  "try_merge a m n h =
     rbind (if prev_md m = None then Inr None else rbind (get_md h (prev_md m)) (\<lambda>k. Inr (Some k))) (\<lambda>pv.
     rbind (if next_md m = None then Inr None else rbind (get_md h (next_md m)) (\<lambda>k. Inr (Some k))) (\<lambda>nx.
       if (case pv of None \<Rightarrow> False
           | Some k \<Rightarrow> n \<le> bsize k + bsize m + sizeof_md \<and> is_free k) then
         rbind (combine (prev_md m) (Some a) h) (\<lambda>h.
         rbind (set_md (prev_md m) (\<lambda>k. k\<lparr>is_free := False\<rparr>) h) (\<lambda>h. Inr (prev_md m, h)))
       else
         (case nx of None \<Rightarrow> Inr (None, h)
          | Some k \<Rightarrow>
              if n \<le> bsize k + bsize m + sizeof_md \<and> is_free k then
                rbind (combine (Some a) (next_md m) h) (\<lambda>h.
                rbind (set_md (Some a) (\<lambda>k. k\<lparr>is_free := False\<rparr>) h) (\<lambda>h. Inr (Some a, h)))
              else
                (case pv of None \<Rightarrow> Inr (None, h)
                 | Some l \<Rightarrow>
                     if n \<le> bsize l + bsize k + bsize m + 2 * sizeof_md \<and> is_free l \<and> is_free k then
                       rbind (combine (prev_md m) (Some a) h) (\<lambda>h.
                       rbind (combine (prev_md m) (next_md m) h) (\<lambda>h.
                       rbind (set_md (prev_md m) (\<lambda>k. k\<lparr>is_free := False\<rparr>) h) (\<lambda>h.
                         Inr (prev_md m, h))))
                     else Inr (None, h)))))"

definition srealloc :: "nat \<Rightarrow> ptr \<Rightarrow> nat \<Rightarrow> heap2 \<Rightarrow> (ptr \<times> heap2) res" where
  "srealloc fuel oldp n h =
     (if n = 0 \<or> MAX_ALLOCATION < n then Inr (None, h)
      else case oldp of
        None \<Rightarrow> smalloc fuel n h
      | Some old \<Rightarrow>
          let a = metadata_of old in
          rbind (get_md h (Some a)) (\<lambda>m.
            if n \<le> bsize m then
              rbind (if 128 + sizeof_md \<le> bsize m - n then split_md a n h else Inr h) (\<lambda>h.
              rbind (set_md (Some a) (\<lambda>k. k\<lparr>bsize := (if is_free k then n else bsize k),
                                            is_free := False\<rparr>) h) (\<lambda>h.
                Inr (oldp, h)))
            else
              rbind (try_merge a m n h) (\<lambda>(merged, h).
                case merged of
                  Some d \<Rightarrow>
                    rbind (get_md h (Some d)) (\<lambda>dm.
                    rbind (if 128 + sizeof_md \<le> bsize dm - n then split_md d n h else Inr h) (\<lambda>h.
                    rbind (memmove_md (Some (payload d)) old (bsize m) h) (\<lambda>h.
                    rbind (if a \<noteq> d then sfree oldp h else Inr h) (\<lambda>h.
                      Inr (Some (payload d), h)))))
                | None \<Rightarrow>
                    rbind (smalloc fuel n h) (\<lambda>(dest, h).
                    rbind (memmove_md dest old (bsize m) h) (\<lambda>h.
                    rbind (if a \<noteq> metadata_of (the dest) then sfree oldp h else Inr h) (\<lambda>h.
                      Inr (dest, h)))))))"

section \<open>Statistics\<close>

definition num_free_blocks :: "nat \<Rightarrow> heap2 \<Rightarrow> nat res" where
  "num_free_blocks fuel h = fold_blocks fuel h (\<lambda>m c. if is_free m then c + 1 else c) (root h) 0"

definition num_free_bytes :: "nat \<Rightarrow> heap2 \<Rightarrow> nat res" where
  "num_free_bytes fuel h = fold_blocks fuel h (\<lambda>m c. if is_free m then c + bsize m else c) (root h) 0"

text \<open>The loops over both lists at once.\<close>

definition visit :: "heap2 \<Rightarrow> (MallocMetadata \<Rightarrow> nat) \<Rightarrow> ptr \<Rightarrow> (nat \<times> ptr) res" where
  "visit h w it = (if it = None then Inr (0, None) else rbind (get_md h it) (\<lambda>m. Inr (w m, next_md m)))"

fun fold_both :: "nat \<Rightarrow> heap2 \<Rightarrow> (MallocMetadata \<Rightarrow> nat) \<Rightarrow> ptr \<Rightarrow> ptr \<Rightarrow> nat \<Rightarrow> nat res" where
  "fold_both 0 h w it it2 acc = Inl OutOfFuel"
| "fold_both (Suc fuel) h w it it2 acc =
     (if it = None \<and> it2 = None then Inr acc
      else
        rbind (visit h w it) (\<lambda>(c1, it').
        rbind (visit h w it2) (\<lambda>(c2, it2').
          fold_both fuel h w it' it2' (acc + (c2 + c1)))))"

definition num_allocated_blocks :: "nat \<Rightarrow> heap2 \<Rightarrow> nat res" where
  "num_allocated_blocks fuel h = fold_both fuel h (\<lambda>_. 1) (root h) (mmap_head h) 0"

definition num_allocated_bytes :: "nat \<Rightarrow> heap2 \<Rightarrow> nat res" where
  "num_allocated_bytes fuel h = fold_both fuel h bsize (root h) (mmap_head h) 0"

definition num_meta_data_bytes :: "nat \<Rightarrow> heap2 \<Rightarrow> nat res" where
  "num_meta_data_bytes fuel h = rbind (num_allocated_blocks fuel h) (\<lambda>r. Inr (sizeof_md * r))"

definition size_meta_data :: nat where "size_meta_data = sizeof_md"

definition fresh_heap2 :: heap2 where
  "fresh_heap2 = \<lparr>md = Map.empty, bytes = (\<lambda>_. 0), base = 4096, brk = 4096, brk_limit = 200000000,
     root = None, end_ptr = None, mmap_head = None, mmap_end = None,
     maps = [1000000000, 2000000000], unmapped = []\<rparr>"

section \<open>Splitting and merging on the block list\<close>

lemma last_of_other:
  assumes "ys \<noteq> []" and "a \<notin> set (map fst ys)"
  shows "last_of p ys \<noteq> Some a"
proof -
  have "last_of p ys = Some (fst (last ys))" using assms(1) last_of_ne by auto
  moreover have "fst (last ys) \<in> set (map fst ys)" using assms(1) by auto
  ultimately show ?thesis using assms(2) by auto
qed

lemma split_md_last:
  assumes "heap_ok h (xs @ [(a, k, f)])" and "n + sizeof_md \<le> k"
  shows "\<exists>h'. split_md a n h = Inr h' \<and>
           heap_ok h' (xs @ [(a, n, f), (a + n + sizeof_md, k - n - sizeof_md, True)]) \<and>
           bytes h' = bytes h \<and> brk h' = brk h \<and> brk_limit h' = brk_limit h"
proof -
  let ?b = "a + n + sizeof_md" and ?j = "k - n - sizeof_md"
  have seg: "dseg (md h) None xs (Some a)"
    and m: "md h a = Some \<lparr>bsize = k, is_free = f, next_md = None, prev_md = last_of None xs\<rparr>"
    and t: "tiles (base h) (xs @ [(a, k, f)]) (brk h)"
    and r: "root h = first_of xs (Some a)" "end_ptr h = Some a"
    using assms(1) by (auto simp: heap_ok_def)
  have pos: "a < ?b" by (simp add: sizeof_md_def)
  have b: "c \<in> set (map fst xs) \<Longrightarrow> c < a" for c
    using tiles_other(3) [OF t, of c] by (auto simp: sizeof_md_def)
  define md' where "md' = (md h)(?b \<mapsto> \<lparr>bsize = ?j, is_free = True, next_md = None, prev_md = Some a\<rparr>,
      a \<mapsto> \<lparr>bsize = n, is_free = f, next_md = Some ?b, prev_md = last_of None xs\<rparr>)"
  have run: "split_md a n h = Inr (h\<lparr>md := md', end_ptr := Some ?b\<rparr>)"
    using m r pos by (simp add: split_md_def Let_def md'_def)
  have "dseg md' None xs (Some a)"
    using seg b pos dseg_frame [of xs md' "md h"] by (fastforce simp: md'_def)
  moreover have "tiles (base h) (xs @ [(a, n, f), (?b, ?j, True)]) (brk h)"
    using t assms(2) by (auto simp: add.commute add.left_commute)
  ultimately show ?thesis using run r pos by (simp add: heap_ok_def md'_def)
qed

lemma split_md_inner:
  assumes "heap_ok h (xs @ (a, k, f) # (c, j, g) # zs)" and "n + sizeof_md \<le> k"
  shows "\<exists>h'. split_md a n h = Inr h' \<and>
           heap_ok h' (xs @ (a, n, f) # (a + n + sizeof_md, k - n - sizeof_md, True) # (c, j, g) # zs) \<and>
           bytes h' = bytes h \<and> brk h' = brk h \<and> brk_limit h' = brk_limit h"
proof -
  let ?b = "a + n + sizeof_md" and ?j = "k - n - sizeof_md" and ?ys = "(c, j, g) # zs"
  have seg: "dseg (md h) None xs (Some a)" "dseg (md h) (Some c) zs None"
    and m: "md h a = Some \<lparr>bsize = k, is_free = f, next_md = Some c, prev_md = last_of None xs\<rparr>"
      "md h c = Some \<lparr>bsize = j, is_free = g, next_md = first_of zs None, prev_md = Some a\<rparr>"
    and t: "tiles (base h) (xs @ (a, k, f) # ?ys) (brk h)"
    and r: "root h = first_of xs (Some a)" "end_ptr h = last_of (Some a) ?ys"
    using assms(1) by (auto simp: heap_ok_def)
  have pos: "a < ?b" by (simp add: sizeof_md_def)
  have b: "x \<in> set (map fst xs) \<Longrightarrow> x < a" "x \<in> set (map fst ?ys) \<Longrightarrow> ?b < x" for x
    using tiles_other(3,4) [OF t, of x] assms(2) by (auto simp: sizeof_md_def)
  have c: "?b < c" "c \<notin> set (map fst zs)" "x \<in> set (map fst zs) \<Longrightarrow> ?b < x" for x
    using tiles_other(2) [of "base h" "xs @ [(a, k, f)]" c j g zs "brk h"] t b(2) by auto
  have e: "end_ptr h \<noteq> Some a" using r(2) last_of_other [of ?ys a] tiles_other(2) [OF t] by simp
  define md' where "md' = (md h)(?b \<mapsto> \<lparr>bsize = ?j, is_free = True, next_md = Some c, prev_md = Some a\<rparr>,
      c \<mapsto> \<lparr>bsize = j, is_free = g, next_md = first_of zs None, prev_md = Some ?b\<rparr>,
      a \<mapsto> \<lparr>bsize = n, is_free = f, next_md = Some ?b, prev_md = last_of None xs\<rparr>)"
  have run: "split_md a n h = Inr (h\<lparr>md := md'\<rparr>)"
    using m e c(1) pos by (simp add: split_md_def Let_def md'_def)
  have "dseg md' p xs q = dseg (md h) p xs q" "dseg md' p zs q = dseg (md h) p zs q" for p q
    using b(1) c pos by (force simp: md'_def intro!: dseg_frame)+
  then have "dseg md' None (xs @ (a, n, f) # (?b, ?j, True) # ?ys) None"
    using seg c(1) pos by (simp add: md'_def)
  moreover have "tiles (base h) (xs @ (a, n, f) # (?b, ?j, True) # ?ys) (brk h)"
    using t assms(2) by (auto simp: add.commute add.left_commute)
  ultimately show ?thesis using run r by (simp add: heap_ok_def)
qed

lemma split_md_ok:
  assumes "heap_ok h (xs @ (a, k, f) # ys)" and "n + sizeof_md \<le> k"
  shows "\<exists>h'. split_md a n h = Inr h' \<and>
           heap_ok h' (xs @ (a, n, f) # (a + n + sizeof_md, k - n - sizeof_md, True) # ys) \<and>
           bytes h' = bytes h \<and> brk h' = brk h \<and> brk_limit h' = brk_limit h"
proof (cases ys)
  case Nil
  with assms split_md_last show ?thesis by simp
next
  case (Cons y zs)
  with assms split_md_inner show ?thesis by (cases y) simp
qed

lemma tiles_pair:
  assumes "tiles x (xs @ (a, k, f) # (b, j, g) # ys) y"
  shows "b = a + sizeof_md + k" and "a \<notin> set (map fst xs)" and "b \<notin> set (map fst xs)"
    and "a \<notin> set (map fst ys)" and "b \<notin> set (map fst ys)" and "a \<noteq> b"
  using assms tiles_other(1,2) [OF assms] tiles_other(1,2) [of x "xs @ [(a, k, f)]" b j g ys y]
  by auto

lemma combine_ok:
  assumes "heap_ok h (xs @ (a, k, f) # (b, j, g) # ys)"
  shows "\<exists>h'. combine (Some a) (Some b) h = Inr h' \<and>
           heap_ok h' (xs @ (a, k + (j + sizeof_md), True) # ys) \<and>
           md h' b = md h b \<and> bytes h' = bytes h \<and> root h' = root h"
proof -
  have seg: "dseg (md h) None xs (Some a)" "dseg (md h) (Some b) ys None"
    and m: "md h a = Some \<lparr>bsize = k, is_free = f, next_md = Some b, prev_md = last_of None xs\<rparr>"
      "md h b = Some \<lparr>bsize = j, is_free = g, next_md = first_of ys None, prev_md = Some a\<rparr>"
    and t: "tiles (base h) (xs @ (a, k, f) # (b, j, g) # ys) (brk h)"
    and r: "root h = first_of xs (Some a)" "end_ptr h = last_of (Some b) ys"
    using assms by (auto simp: heap_ok_def)
  note ne = tiles_pair [OF t]
  have t': "tiles (base h) (xs @ (a, k + (j + sizeof_md), True) # ys) (brk h)"
    using t by (auto simp: add.commute add.left_commute)
  show ?thesis
  proof (cases ys)
    case Nil
    define md' where "md' = (md h)(a \<mapsto> \<lparr>bsize = k + (j + sizeof_md), is_free = True, next_md = None,
        prev_md = last_of None xs\<rparr>)"
    have run: "combine (Some a) (Some b) h = Inr (h\<lparr>md := md', end_ptr := Some a\<rparr>)"
      using m r Nil ne(6) by (simp add: combine_def md'_def)
    have "dseg md' None xs (Some a)"
      using seg(1) ne(2) by (subst dseg_frame [where m = "md h"]) (auto simp: md'_def)
    then show ?thesis using run r Nil t' ne(6) by (simp add: heap_ok_def md'_def)
  next
    case (Cons y zs)
    obtain c i l where y: "y = (c, i, l)" by (cases y)
    have c: "c \<noteq> a" "c \<noteq> b" "c \<notin> set (map fst xs)" "c \<notin> set (map fst zs)"
      using ne(4,5) Cons y t tiles_other(1,2) [of "base h" "xs @ [(a, k, f), (b, j, g)]" c i l zs "brk h"]
      by auto
    define md' where "md' = (md h)(a \<mapsto> \<lparr>bsize = k + (j + sizeof_md), is_free = True, next_md = Some c,
        prev_md = last_of None xs\<rparr>, c \<mapsto> \<lparr>bsize = i, is_free = l, next_md = first_of zs None,
        prev_md = Some a\<rparr>)"
    have e: "last_of (Some b) ys \<noteq> Some b" using last_of_other ne(5) Cons by blast
    have mc: "md h c = Some \<lparr>bsize = i, is_free = l, next_md = first_of zs None, prev_md = Some b\<rparr>"
      using seg(2) Cons y by simp
    have run: "combine (Some a) (Some b) h = Inr (h\<lparr>md := md'\<rparr>)"
      using m mc r e Cons y ne(6) c by (simp add: combine_def md'_def fun_upd_twist)
    have "dseg md' p xs q = dseg (md h) p xs q" "dseg md' p zs q = dseg (md h) p zs q" for p q
      using ne Cons c by (auto simp: md'_def intro!: dseg_frame)
    then have "dseg md' None (xs @ (a, k + (j + sizeof_md), True) # ys) None"
      using seg Cons y c by (simp add: md'_def)
    then show ?thesis using run r Cons y t' ne(6) c by (simp add: heap_ok_def md'_def)
  qed
qed

text \<open>Changing metadata that is not part of the list does not matter.\<close>

lemma heap_ok_stale:
  assumes "heap_ok h bs" and "b \<notin> set (map fst bs)"
  shows "heap_ok (h\<lparr>md := (md h)(b \<mapsto> v)\<rparr>) bs"
proof -
  have "dseg ((md h)(b \<mapsto> v)) None bs None = dseg (md h) None bs None"
    using assms(2) by (intro dseg_frame) auto
  then show ?thesis using assms(1) by (simp add: heap_ok_def)
qed

lemma heap_ok_set_free:
  assumes "heap_ok h (xs @ (a, k, f) # ys)"
  shows "\<exists>h'. set_md (Some a) (\<lambda>m. m\<lparr>is_free := g\<rparr>) h = Inr h' \<and> heap_ok h' (xs @ (a, k, g) # ys) \<and>
           bytes h' = bytes h \<and> brk h' = brk h \<and> brk_limit h' = brk_limit h"
proof -
  have m: "md h a = Some \<lparr>bsize = k, is_free = f, next_md = first_of ys None, prev_md = last_of None xs\<rparr>"
    and t: "tiles (base h) (xs @ (a, k, f) # ys) (brk h)"
    using assms by (auto simp: heap_ok_def)
  have "dseg ((md h)(a \<mapsto> v)) p xs r = dseg (md h) p xs r"
    "dseg ((md h)(a \<mapsto> v)) p ys r = dseg (md h) p ys r" for v p r
    using tiles_other(1,2) [OF t] by (auto intro!: dseg_frame)
  with assms m show ?thesis by (auto simp: heap_ok_def)
qed

section \<open>Release\<close>

text \<open>
  The abstract effect of releasing a block: it is merged with the following block and then
  with the preceding one, where these are free.
\<close>

fun absorb_next :: "nat \<Rightarrow> block list \<Rightarrow> nat \<times> block list" where
  "absorb_next k ((b, j, True) # ys) = (k + (j + sizeof_md), ys)"
| "absorb_next k ys = (k, ys)"

fun absorb_prev :: "block list \<Rightarrow> nat \<Rightarrow> nat \<Rightarrow> block list" where
  "absorb_prev [] a k = [(a, k, True)]"
| "absorb_prev [(c, i, f)] a k =
     (if f then [(c, i + (k + sizeof_md), True)] else [(c, i, False), (a, k, True)])"
| "absorb_prev (b # bs) a k = b # absorb_prev bs a k"

definition release :: "block list \<Rightarrow> nat \<Rightarrow> nat \<Rightarrow> block list \<Rightarrow> block list" where
  "release xs a k ys = (case absorb_next k ys of (k', ys') \<Rightarrow> absorb_prev xs a k' @ ys')"

lemma absorb_prev_snoc [simp]:
  "absorb_prev (bs @ [(c, i, f)]) a k =
     bs @ (if f then [(c, i + (k + sizeof_md), True)] else [(c, i, False), (a, k, True)])"
proof (induction bs)
  case (Cons b bs)
  then show ?case by (cases bs) (auto split: if_splits)
qed simp

lemma merge_prev_ok:
  assumes "heap_ok h (xs @ (a, k, f) # ys)"
  shows "\<exists>h1 h'. merge_prev (Some a) h = Inr h1 \<and> set_md (Some a) (\<lambda>m. m\<lparr>is_free := True\<rparr>) h1 = Inr h' \<and>
      heap_ok h' (absorb_prev xs a k @ ys) \<and> bytes h' = bytes h"
proof (cases xs rule: rev_cases)
  case Nil
  then have "md h a = Some \<lparr>bsize = k, is_free = f, next_md = first_of ys None, prev_md = None\<rparr>"
    using assms by (auto simp: heap_ok_def)
  with Nil heap_ok_set_free [OF assms, of True] show ?thesis by (simp add: merge_prev_def)
next
  case (snoc us b)
  obtain c i g where b: "b = (c, i, g)" by (cases b)
  have m: "md h a = Some \<lparr>bsize = k, is_free = f, next_md = first_of ys None, prev_md = Some c\<rparr>"
    "md h c = Some \<lparr>bsize = i, is_free = g, next_md = Some a, prev_md = last_of None us\<rparr>"
    and t: "tiles (base h) (us @ (c, i, g) # (a, k, f) # ys) (brk h)"
    using assms snoc b by (auto simp: heap_ok_def)
  have ok: "heap_ok h (us @ (c, i, g) # (a, k, f) # ys)" using assms snoc b by simp
  show ?thesis
  proof (cases g)
    case True
    obtain h1 where h1: "combine (Some c) (Some a) h = Inr h1"
        "heap_ok h1 (us @ (c, i + (k + sizeof_md), True) # ys)" "md h1 a = md h a" "bytes h1 = bytes h"
      using combine_ok [OF ok] by blast
    have "a \<notin> set (map fst (us @ (c, i + (k + sizeof_md), True) # ys))"
      using tiles_pair [OF t] by auto
    from heap_ok_stale [OF h1(2) this] True m h1 snoc b show ?thesis by (simp add: merge_prev_def)
  next
    case False
    with heap_ok_set_free [OF assms, of True] m snoc b show ?thesis by (simp add: merge_prev_def)
  qed
qed

lemma merge_next_ok:
  assumes "heap_ok h (xs @ (a, k, f) # ys)"
  shows "\<exists>h1 g. merge_next (Some a) h = Inr h1 \<and> bytes h1 = bytes h \<and>
      heap_ok h1 (xs @ (a, fst (absorb_next k ys), g) # snd (absorb_next k ys))"
proof -
  have m: "md h a = Some \<lparr>bsize = k, is_free = f, next_md = first_of ys None, prev_md = last_of None xs\<rparr>"
    using assms by (auto simp: heap_ok_def)
  show ?thesis
  proof (cases ys)
    case Nil
    with assms m show ?thesis by (auto simp: merge_next_def)
  next
    case (Cons y zs)
    obtain b j g where y: "y = (b, j, g)" by (cases y)
    have "md h b = Some \<lparr>bsize = j, is_free = g, next_md = first_of zs None, prev_md = Some a\<rparr>"
      using assms Cons y by (auto simp: heap_ok_def)
    with combine_ok [of h xs a k f b j g zs] assms Cons y m show ?thesis
      by (cases g) (auto simp: merge_next_def)
  qed
qed

lemma sfree_merge_ok:
  assumes "heap_ok h (xs @ (a, k, f) # ys)"
  shows "\<exists>h'. sfree_merge (Some a) h = Inr h' \<and> heap_ok h' (release xs a k ys) \<and> bytes h' = bytes h"
proof -
  obtain h1 g where h1: "merge_next (Some a) h = Inr h1" "bytes h1 = bytes h"
      "heap_ok h1 (xs @ (a, fst (absorb_next k ys), g) # snd (absorb_next k ys))"
    using merge_next_ok [OF assms] by blast
  from merge_prev_ok [OF h1(3)] h1(1,2) show ?thesis
    by (auto simp: sfree_merge_def release_def split: prod.splits)
qed

lemma end_is_last:
  "heap_ok h (xs @ (a, k, f) # ys) \<Longrightarrow> end_ptr h = Some a \<longleftrightarrow> ys = []"
proof (cases ys rule: rev_cases)
  case (snoc zs z)
  assume "heap_ok h (xs @ (a, k, f) # ys)"
  then have "tiles (base h) (xs @ (a, k, f) # ys) (brk h)" "end_ptr h = Some (fst z)"
    using snoc by (auto simp: heap_ok_def)
  with tiles_other(2) [OF this(1)] snoc show ?thesis by auto
qed (auto simp: heap_ok_def)

lemma root_is_first:
  "heap_ok h (xs @ (a, k, f) # ys) \<Longrightarrow> root h = Some a \<longleftrightarrow> xs = []"
proof (cases xs)
  case (Cons x us)
  assume "heap_ok h (xs @ (a, k, f) # ys)"
  then have "tiles (base h) (xs @ (a, k, f) # ys) (brk h)" "root h = Some (fst x)"
    using Cons by (auto simp: heap_ok_def)
  with tiles_other(1) [OF this(1)] Cons show ?thesis by auto
qed (auto simp: heap_ok_def)

lemma sfree_root_ok:
  assumes ok: "heap_ok h ((a, k, False) # ys)" and "k < MMAP_ALLOCATION_LIMIT"
  shows "\<exists>h'. sfree (Some (payload a)) h = Inr h' \<and> heap_ok h' (release [] a k ys) \<and> bytes h' = bytes h"
proof -
  have ok': "heap_ok h ([] @ (a, k, False) # ys)" using ok by simp
  have m: "md h a = Some \<lparr>bsize = k, is_free = False, next_md = first_of ys None, prev_md = None\<rparr>"
    using ok by (auto simp: heap_ok_def)
  have pm: "metadata_of (payload a) = a" by (simp add: metadata_of_def payload_def)
  note ends = end_is_last [OF ok'] root_is_first [OF ok']
  show ?thesis
  proof (cases ys)
    case Nil
    have "h\<lparr>end_ptr := root h\<rparr> = h" using ok Nil by (simp add: heap_ok_def)
    with heap_ok_set_free [OF ok', of True] m pm assms(2) Nil ends show ?thesis
      by (simp add: sfree_def release_def heap_ok_def)
  next
    case (Cons y zs)
    obtain b j g where y: "y = (b, j, g)" by (cases y)
    have mb: "md h b = Some \<lparr>bsize = j, is_free = g, next_md = first_of zs None, prev_md = Some a\<rparr>"
      using ok Cons y by (auto simp: heap_ok_def)
    show ?thesis
    proof (cases g)
      case True
      obtain h1 where h1: "combine (Some a) (Some b) h = Inr h1"
          "heap_ok h1 ([] @ (a, k + (j + sizeof_md), True) # zs)" "bytes h1 = bytes h" "root h1 = root h"
        using combine_ok [of h "[]" a k False b j g zs] ok Cons y by auto
      then have "heap_ok (h1\<lparr>root := Some a\<rparr>) ([] @ (a, k + (j + sizeof_md), True) # zs)"
        by (auto simp: heap_ok_def)
      from heap_ok_set_free [OF this, of True] h1 True m mb pm assms(2) Cons y ends show ?thesis
        by (auto simp: sfree_def Let_def release_def)
    next
      case False
      with sfree_merge_ok [OF ok'] m mb pm assms(2) Cons y ends show ?thesis by (simp add: sfree_def)
    qed
  qed
qed

lemma sfree_end_ok:
  assumes ok: "heap_ok h ((us @ [(c, i, g)]) @ (a, k, False) # [])" and "k < MMAP_ALLOCATION_LIMIT"
  shows "\<exists>h'. sfree (Some (payload a)) h = Inr h' \<and> heap_ok h' (release (us @ [(c, i, g)]) a k []) \<and>
           bytes h' = bytes h"
proof -
  have m: "md h a = Some \<lparr>bsize = k, is_free = False, next_md = None, prev_md = Some c\<rparr>"
      "md h c = Some \<lparr>bsize = i, is_free = g, next_md = Some a, prev_md = last_of None us\<rparr>"
    using ok by (auto simp: heap_ok_def)
  have pm: "metadata_of (payload a) = a" by (simp add: metadata_of_def payload_def)
  note ends = end_is_last [OF ok] root_is_first [OF ok]
  obtain h1 h' where h': "merge_prev (Some a) h = Inr h1"
      "set_md (Some a) (\<lambda>m. m\<lparr>is_free := True\<rparr>) h1 = Inr h'"
      "heap_ok h' (absorb_prev (us @ [(c, i, g)]) a k @ [])" "bytes h' = bytes h"
    using merge_prev_ok [OF ok] by blast
  have "end_ptr h1 = Some c" if g
  proof -
    have "combine (Some c) (Some a) h = Inr h1" using h'(1) m that by (simp add: merge_prev_def)
    with combine_ok [of h us c i g a k False "[]"] ok show ?thesis by (auto simp: heap_ok_def)
  qed
  then have "h1\<lparr>end_ptr := Some c\<rparr> = h1" if g using that by simp
  with h' m pm assms(2) ends show ?thesis
    by (cases g) (auto simp: sfree_def merge_prev_def release_def)
qed

lemma sfree_ok:
  assumes ok: "heap_ok h (xs @ (a, k, False) # ys)" and "k < MMAP_ALLOCATION_LIMIT"
  shows "\<exists>h'. sfree (Some (payload a)) h = Inr h' \<and> heap_ok h' (release xs a k ys) \<and> bytes h' = bytes h"
proof -
  have m: "md h a = Some \<lparr>bsize = k, is_free = False, next_md = first_of ys None, prev_md = last_of None xs\<rparr>"
    using ok by (auto simp: heap_ok_def)
  have pm: "metadata_of (payload a) = a" by (simp add: metadata_of_def payload_def)
  note ends = end_is_last [OF ok] root_is_first [OF ok]
  consider (root) "xs = []" | (tail) us b where "xs = us @ [b]" "ys = []" | (inner) "xs \<noteq> []" "ys \<noteq> []"
    by (cases xs rule: rev_cases) auto
  then show ?thesis
  proof cases
    case root
    with sfree_root_ok assms show ?thesis by simp
  next
    case (tail us b)
    with sfree_end_ok assms show ?thesis by (cases b) simp
  next
    case inner
    with sfree_merge_ok [OF ok] m pm assms(2) ends show ?thesis by (simp add: sfree_def)
  qed
qed

section \<open>Allocation from the break\<close>

fun take_split :: "nat \<Rightarrow> block list \<Rightarrow> block list" where
  "take_split n [] = []"
| "take_split n ((a, k, f) # bs) =
     (if free_for n (a, k, f) then
        (if 128 + sizeof_md + n \<le> k
         then (a, n, False) # (a + n + sizeof_md, k - n - sizeof_md, True) # bs
         else (a, k, False) # bs)
      else (a, k, f) # take_split n bs)"

text \<open>
  The specification of \<open>smallocSbrk\<close>: first fit with splitting; otherwise the wilderness grows
  when it is free; otherwise a block is appended at the break.
\<close>

definition alloc_spec :: "nat \<Rightarrow> nat \<Rightarrow> nat \<Rightarrow> block list \<Rightarrow> ptr \<times> block list" where
  "alloc_spec n br lim bs =
     (if n = 0 \<or> MAX_ALLOCATION < n then (None, bs)
      else case first_of (filter (free_for n) bs) None of
        Some a \<Rightarrow> (Some (payload a), take_split n bs)
      | None \<Rightarrow>
          (if bs \<noteq> [] \<and> snd (snd (last bs)) then
             (if br + (n - fst (snd (last bs))) \<le> lim
              then (Some (payload (fst (last bs))), butlast bs @ [(fst (last bs), n, False)])
              else (None, bs))
           else if br + n + sizeof_md \<le> lim then (Some (payload br), bs @ [(br, n, False)])
           else (None, bs)))"

lemma take_split_split:
  "list_all (\<lambda>b. \<not> free_for n b) xs \<Longrightarrow> free_for n (a, k, f) \<Longrightarrow>
   take_split n (xs @ (a, k, f) # ys) =
     xs @ (if 128 + sizeof_md + n \<le> k
           then (a, n, False) # (a + n + sizeof_md, k - n - sizeof_md, True) # ys
           else (a, k, False) # ys)"
  by (induction xs) auto

lemma reuse_ok:
  assumes "heap_ok h bs" and "first_of (filter (free_for n) bs) None = Some a"
  shows "\<exists>h'. reuse a n h = Inr (Some (payload a), h') \<and> heap_ok h' (take_split n bs) \<and>
           bytes h' = bytes h \<and> brk h' = brk h \<and> brk_limit h' = brk_limit h"
proof -
  obtain xs k f ys where bs: "bs = xs @ (a, k, f) # ys" and fit: "free_for n (a, k, f)"
      "list_all (\<lambda>b. \<not> free_for n b) xs"
    using first_fit_split [OF assms(2)] by blast
  have ok: "heap_ok h (xs @ (a, k, f) # ys)" using assms(1) bs by simp
  have m: "md h a = Some \<lparr>bsize = k, is_free = f, next_md = first_of ys None, prev_md = last_of None xs\<rparr>"
    using ok by (auto simp: heap_ok_def)
  show ?thesis
  proof (cases "128 + sizeof_md + n \<le> k")
    case True
    then obtain h1 where h1: "split_md a n h = Inr h1"
        "heap_ok h1 (xs @ (a, n, f) # (a + n + sizeof_md, k - n - sizeof_md, True) # ys)"
        "bytes h1 = bytes h" "brk h1 = brk h" "brk_limit h1 = brk_limit h"
      using split_md_ok [OF ok, of n] by auto
    from heap_ok_set_free [OF h1(2), of False] h1 True m bs fit show ?thesis
      by (auto simp: reuse_def take_split_split)
  next
    case False
    with heap_ok_set_free [OF ok, of False] m bs fit show ?thesis
      by (auto simp: reuse_def take_split_split)
  qed
qed

lemma grow_wilderness:
  assumes "heap_ok h (xs @ [(a, k, f)])" and "k \<le> n"
  shows "\<exists>h'. set_md (Some a) (\<lambda>m. m\<lparr>bsize := n, is_free := False\<rparr>) (h\<lparr>brk := brk h + (n - k)\<rparr>) = Inr h' \<and>
           heap_ok h' (xs @ [(a, n, False)]) \<and> bytes h' = bytes h \<and> end_ptr h' = Some a"
proof -
  have m: "md h a = Some \<lparr>bsize = k, is_free = f, next_md = None, prev_md = last_of None xs\<rparr>"
    and t: "tiles (base h) (xs @ [(a, k, f)]) (brk h)"
    using assms(1) by (auto simp: heap_ok_def)
  have "dseg ((md h)(a \<mapsto> v)) p xs r = dseg (md h) p xs r" for v p r
    using tiles_other(1) [of "base h" xs a k f "[]" "brk h"] t by (auto intro!: dseg_frame)
  moreover have "tiles (base h) (xs @ [(a, n, False)]) (brk h + (n - k))"
    using t assms(2) by auto
  ultimately show ?thesis using assms(1) m by (auto simp: heap_ok_def)
qed

lemma append_block:
  assumes "heap_ok h (xs @ [(a, k, f)])"
  shows "\<exists>h'. set_md (Some a) (\<lambda>m. m\<lparr>next_md := Some (brk h)\<rparr>)
             (h\<lparr>brk := brk h + (n + sizeof_md), md := (md h)(brk h \<mapsto> \<lparr>bsize = n, is_free = False,
                next_md = None, prev_md = Some a\<rparr>)\<rparr>) = Inr h' \<and>
           heap_ok (h'\<lparr>end_ptr := Some (brk h)\<rparr>) (xs @ [(a, k, f), (brk h, n, False)]) \<and>
           bytes h' = bytes h"
proof -
  have seg: "dseg (md h) None xs (Some a)"
    and m: "md h a = Some \<lparr>bsize = k, is_free = f, next_md = None, prev_md = last_of None xs\<rparr>"
    and t: "tiles (base h) (xs @ [(a, k, f)]) (brk h)"
    using assms by (auto simp: heap_ok_def)
  have ne: "c \<in> set (map fst (xs @ [(a, k, f)])) \<Longrightarrow> c \<noteq> brk h" for c
    using tiles_fst_range [OF t, of c] by auto
  then have "a \<noteq> brk h" by auto
  have "dseg ((md h)(brk h \<mapsto> u, a \<mapsto> v)) None xs (Some a)" for u v
    using ne tiles_other(1) [of "base h" xs a k f "[]" "brk h"] t seg
    by (subst dseg_frame [where m = "md h"]) auto
  with assms m \<open>a \<noteq> brk h\<close> t show ?thesis
    by (auto simp: heap_ok_def add.commute add.left_commute)
qed

lemma smallocSbrk_extend:
  assumes ok: "heap_ok h bs" and extend: "\<not> (n = 0 \<or> MAX_ALLOCATION < n)"
      "first_of (filter (free_for n) bs) None = None"
    and find: "find_free fuel h (root h) n = Inr None"
  shows "\<exists>p h' bs'. smallocSbrk fuel n h = Inr (p, h') \<and> heap_ok h' bs' \<and> bytes h' = bytes h \<and>
           (p, bs') = alloc_spec n (brk h) (brk_limit h) bs"
proof (cases bs rule: rev_cases)
  case Nil
  with ok extend show ?thesis
    by (cases "brk h + (n + sizeof_md) \<le> brk_limit h")
      (auto simp: smallocSbrk_def alloc_spec_def sbrk_def heap_ok_def add.assoc)
next
  case (snoc xs b)
  obtain a k f where b: "b = (a, k, f)" by (cases b)
  have e: "end_ptr h = Some a" "md h a = Some \<lparr>bsize = k, is_free = f, next_md = None,
      prev_md = last_of None xs\<rparr>"
    using ok snoc b by (auto simp: heap_ok_def)
  obtain r where r: "root h = Some r" using ok snoc by (cases xs) (auto simp: heap_ok_def)
  show ?thesis
  proof (cases f)
    case True
    then have "k \<le> n" using extend(2) snoc b first_fit_none [of "free_for n" bs] by (auto simp: free_for_def)
    with grow_wilderness [of h xs a k f n] ok snoc b e r True find extend show ?thesis
      by (auto simp: smallocSbrk_def alloc_spec_def sbrk_def)
  next
    case False
    with append_block [of h xs a k f n] ok snoc b e r find extend show ?thesis
      by (auto simp: smallocSbrk_def alloc_spec_def sbrk_def Let_def add.assoc)
  qed
qed

lemma smallocSbrk_spec:
  assumes ok: "heap_ok h bs" and "length bs < fuel"
  shows "\<exists>p h' bs'. smallocSbrk fuel n h = Inr (p, h') \<and> heap_ok h' bs' \<and> bytes h' = bytes h \<and>
           (p, bs') = alloc_spec n (brk h) (brk_limit h) bs"
proof -
  consider (bad) "n = 0 \<or> MAX_ALLOCATION < n"
    | (reuse) a where "\<not> (n = 0 \<or> MAX_ALLOCATION < n)" "first_of (filter (free_for n) bs) None = Some a"
    | (extend) "\<not> (n = 0 \<or> MAX_ALLOCATION < n)" "first_of (filter (free_for n) bs) None = None"
    by (metis not_None_eq)
  then show ?thesis
  proof cases
    case bad
    with ok show ?thesis by (auto simp: smallocSbrk_def alloc_spec_def)
  next
    case (reuse a)
    have find: "find_free fuel h (root h) n = Inr (Some a)"
      using find_free_first [of h None bs fuel n] assms reuse by (simp add: heap_ok_def)
    obtain r where "root h = Some r" using ok reuse(2) by (cases bs) (auto simp: heap_ok_def)
    with find reuse_ok [OF ok reuse(2)] reuse show ?thesis
      by (auto simp: smallocSbrk_def alloc_spec_def)
  next
    case extend
    have "find_free fuel h (root h) n = Inr None"
      using find_free_first [of h None bs fuel n] assms extend by (simp add: heap_ok_def)
    from smallocSbrk_extend [OF ok extend this] show ?thesis .
  qed
qed

section \<open>No two adjacent free blocks\<close>

fun coalesced :: "block list \<Rightarrow> bool" where
  "coalesced [] = True"
| "coalesced (b # bs) = (coalesced bs \<and> (bs \<noteq> [] \<longrightarrow> \<not> (snd (snd b) \<and> snd (snd (hd bs)))))"

lemma coalesced_append:
  "coalesced (xs @ ys) \<longleftrightarrow> coalesced xs \<and> coalesced ys \<and>
     (xs \<noteq> [] \<longrightarrow> ys \<noteq> [] \<longrightarrow> \<not> (snd (snd (last xs)) \<and> snd (snd (hd ys))))"
  by (induction xs) (auto simp: neq_Nil_conv)

lemma take_split_none: "list_all (\<lambda>b. \<not> free_for n b) bs \<Longrightarrow> take_split n bs = bs"
  by (induction n bs rule: take_split.induct) auto

lemma take_split_coalesced:
  assumes "coalesced bs"
  shows "coalesced (take_split n bs)"
proof (cases "first_of (filter (free_for n) bs) None")
  case None
  then show ?thesis using assms by (simp add: take_split_none first_fit_none)
next
  case (Some a)
  then obtain xs k f ys where bs: "bs = xs @ (a, k, f) # ys" "free_for n (a, k, f)"
      "list_all (\<lambda>b. \<not> free_for n b) xs"
    using first_fit_split by blast
  then have f by (simp add: free_for_def)
  have "coalesced xs" "coalesced ys" "ys \<noteq> [] \<Longrightarrow> \<not> snd (snd (hd ys))"
    using assms bs(1) \<open>f\<close> by (auto simp: coalesced_append)
  then show ?thesis
    using bs by (auto simp: take_split_split coalesced_append)
qed

lemma alloc_spec_coalesced:
  "coalesced bs \<Longrightarrow> alloc_spec n br lim bs = (p, bs') \<Longrightarrow> coalesced bs'"
proof (cases bs rule: rev_cases)
  case (snoc xs b)
  assume "coalesced bs" "alloc_spec n br lim bs = (p, bs')"
  then show ?thesis using snoc
    by (auto simp: alloc_spec_def coalesced_append take_split_coalesced split: if_splits option.splits)
qed (auto simp: alloc_spec_def split: if_splits)

lemma release_coalesced:
  assumes "coalesced (xs @ (a, k, False) # ys)"
  shows "coalesced (release xs a k ys)"
proof -
  have xs: "coalesced xs" "coalesced ys" using assms by (auto simp: coalesced_append)
  obtain k' ys' where ab: "absorb_next k ys = (k', ys')" by (cases "absorb_next k ys")
  then have ys': "coalesced ys'" "ys' \<noteq> [] \<Longrightarrow> \<not> snd (snd (hd ys'))"
    using xs(2) by (cases "(k, ys)" rule: absorb_next.cases; auto)+
  show ?thesis
  proof (cases xs rule: rev_cases)
    case Nil
    then show ?thesis using ab ys' by (simp add: release_def)
  next
    case (snoc us b)
    obtain c i g where "b = (c, i, g)" by (cases b)
    with snoc ab ys' xs(1) show ?thesis by (auto simp: release_def coalesced_append)
  qed
qed

section \<open>Properties\<close>

text \<open>
  C2. \<open>smallocSbrk\<close> refines its specification: first fit, splitting when at least 128 bytes
  besides the metadata would remain, growth of a free wilderness, a new block otherwise. It
  keeps the heap a gapless doubly linked list without two adjacent free blocks and touches no
  payload byte.
\<close>

theorem smallocSbrk_refines:
  assumes "heap_ok h bs" and "length bs < fuel" and "coalesced bs"
  shows "\<exists>p h' bs'. smallocSbrk fuel n h = Inr (p, h') \<and> heap_ok h' bs' \<and> coalesced bs' \<and>
           bytes h' = bytes h \<and> (p, bs') = alloc_spec n (brk h) (brk_limit h) bs"
proof -
  obtain p h' bs' where "smallocSbrk fuel n h = Inr (p, h')" "heap_ok h' bs'" "bytes h' = bytes h"
      "(p, bs') = alloc_spec n (brk h) (brk_limit h) bs"
    using smallocSbrk_spec [OF assms(1,2)] by blast
  moreover from this(4) have "coalesced bs'" using alloc_spec_coalesced [OF assms(3)] by metis
  ultimately show ?thesis by blast
qed

text \<open>A heap with a free block of 1000 bytes and a block of 100 bytes in use.\<close>

definition two_blocks :: heap2 where
  "two_blocks = fresh_heap2\<lparr>brk := 5260, root := Some 4096, end_ptr := Some 5128,
     md := [4096 \<mapsto> \<lparr>bsize = 1000, is_free = True, next_md = Some 5128, prev_md = None\<rparr>,
            5128 \<mapsto> \<lparr>bsize = 100, is_free = False, next_md = None, prev_md = Some 4096\<rparr>]\<rparr>"

lemma two_blocks_ok: "heap_ok two_blocks [(4096, 1000, True), (5128, 100, False)]"
  by (simp add: two_blocks_def fresh_heap2_def heap_ok_def sizeof_md_def)

theorem smallocSbrk_refines_witness:
  "\<exists>h'. smallocSbrk 3 200 two_blocks = Inr (Some 4128, h') \<and>
     heap_ok h' [(4096, 200, False), (4328, 768, True), (5128, 100, False)]"
  using smallocSbrk_refines [OF two_blocks_ok, of 3 200]
  by (auto simp: alloc_spec_def MAX_ALLOCATION_def free_for_def sizeof_md_def payload_def)

text \<open>
  C7. \<open>sfree\<close> of a block below the \<open>mmap\<close> limit merges it with its free neighbours: the list
  becomes \<open>release\<close> of it, again without two adjacent free blocks, and no payload byte changes.
\<close>

theorem sfree_refines:
  assumes "heap_ok h (xs @ (a, k, False) # ys)" and "coalesced (xs @ (a, k, False) # ys)"
    and "k < MMAP_ALLOCATION_LIMIT"
  shows "\<exists>h'. sfree (Some (payload a)) h = Inr h' \<and> heap_ok h' (release xs a k ys) \<and>
           coalesced (release xs a k ys) \<and> bytes h' = bytes h"
  using sfree_ok [OF assms(1,3)] release_coalesced [OF assms(2)] by blast

theorem sfree_refines_witness:
  "\<exists>h'. sfree (Some 5160) two_blocks = Inr h' \<and> heap_ok h' [(4096, 1132, True)]"
  using sfree_refines [of two_blocks "[(4096, 1000, True)]" 5128 100 "[]"] two_blocks_ok
  by (auto simp: MMAP_ALLOCATION_LIMIT_def release_def payload_def sizeof_md_def)

lemma take_split_use:
  "first_of (filter (free_for n) bs) None = Some a \<Longrightarrow>
   \<exists>xs k ys. take_split n bs = xs @ (a, k, False) # ys \<and> n \<le> k \<and> length (xs @ ys) \<le> length bs \<and>
     used bs \<subseteq> set (xs @ ys)"
  using first_fit_split [of "free_for n" bs a]
  by (fastforce simp: take_split_split used_def free_for_def)

lemma alloc_spec_block:
  assumes "alloc_spec n br lim bs = (Some p, bs')"
  shows "\<exists>xs a k ys. p = payload a \<and> n \<le> k \<and> bs' = xs @ (a, k, False) # ys \<and>
           length (xs @ ys) \<le> length bs \<and> used bs \<subseteq> set (xs @ ys)"
proof (cases "first_of (filter (free_for n) bs) None")
  case (Some a)
  then have "p = payload a" "bs' = take_split n bs"
    using assms by (auto simp: alloc_spec_def split: if_splits)
  with take_split_use [OF Some] show ?thesis by blast
next
  case None
  with assms show ?thesis
  proof (cases bs rule: rev_cases)
    case (snoc xs b)
    obtain c i f where b: "b = (c, i, f)" by (cases b)
    show ?thesis
    proof (cases f)
      case True
      with None assms snoc b have "p = payload c" "bs' = xs @ [(c, n, False)]"
        by (auto simp: alloc_spec_def split: if_splits)
      with snoc b True show ?thesis
        by (intro exI [of _ xs] exI [of _ c] exI [of _ n] exI [of _ "[]"]) (auto simp: used_def)
    next
      case False
      with None assms snoc b have "p = payload br" "bs' = bs @ [(br, n, False)]"
        by (auto simp: alloc_spec_def split: if_splits)
      then show ?thesis
        by (intro exI [of _ bs] exI [of _ br] exI [of _ n] exI [of _ "[]"]) (auto simp: used_def)
    qed
  qed (auto simp: alloc_spec_def used_def split: if_splits)
qed

lemma alloc_spec_null: "alloc_spec n br lim bs = (None, bs') \<Longrightarrow> bs' = bs"
  by (auto simp: alloc_spec_def split: if_splits option.splits)

interpretation m2: block_allocator smallocSbrk "\<lambda>h bs. heap_ok h bs \<and> coalesced bs"
proof
  fix h :: heap2 and bs
  assume ok: "heap_ok h bs \<and> coalesced bs"
  then show "\<exists>x y. tiles x bs y" by (auto simp: heap_ok_def)
  fix fuel n
  assume fuel: "length bs < fuel"
  obtain p0 h0 bs0 where run: "smallocSbrk fuel n h = Inr (p0, h0)" "heap_ok h0 bs0"
      "(p0, bs0) = alloc_spec n (brk h) (brk_limit h) bs"
    using smallocSbrk_spec [of h bs fuel n] ok fuel by blast
  then have co: "coalesced bs0" using alloc_spec_coalesced [of bs n "brk h" "brk_limit h" p0 bs0] ok by simp
  show "returns (smallocSbrk fuel n h)" using run by simp
  show "heap_ok h' bs \<and> coalesced bs" if "smallocSbrk fuel n h = Inr (None, h')" for h'
    using that run alloc_spec_null [of n "brk h" "brk_limit h" bs bs0] ok by simp
  show "\<exists>xs a k ys. p = payload a \<and> n \<le> k \<and>
      (heap_ok h' (xs @ (a, k, False) # ys) \<and> coalesced (xs @ (a, k, False) # ys)) \<and>
      length (xs @ ys) \<le> length bs \<and> used bs \<subseteq> set (xs @ ys)"
    if "smallocSbrk fuel n h = Inr (Some p, h')" for p h'
    using that run co alloc_spec_block [of n "brk h" "brk_limit h" bs p bs0] by auto
qed

text \<open>
  Any batch of small requests to the second allocator is served: every request returns,
  the memory areas are pairwise disjoint, blocks in use stay in use, and the heap keeps its
  shape without adjacent free blocks.
\<close>

theorem smalloc2_batch:
  assumes "heap_ok h bs" and "coalesced bs" and "length bs + length ns \<le> fuel"
  shows "\<exists>ps h' bs'. alloc_all (smallocSbrk fuel) ns h = Inr (ps, h') \<and>
     (heap_ok h' bs' \<and> coalesced bs') \<and> length ps = length ns \<and> used bs \<subseteq> used bs' \<and>
     (\<forall>i < length ns. \<forall>j < i. \<forall>p q. ps ! i = Some p \<longrightarrow> ps ! j = Some q \<longrightarrow>
        p + ns ! i \<le> q \<or> q + ns ! j \<le> p)"
  using assms by (intro m2.alloc_all_disjoint) auto

theorem smalloc2_batch_witness:
  "\<exists>ps h' bs'. alloc_all (smallocSbrk 9) [10, 200, 3000] two_blocks = Inr (ps, h') \<and>
     heap_ok h' bs' \<and> coalesced bs' \<and> length ps = 3"
  using smalloc2_batch [OF two_blocks_ok, of "[10, 200, 3000]" 9] by auto

section \<open>Where the code departs from its intention\<close>

text \<open>
  The second large allocation of a program that has no small block crashes: where
  \<open>mmap_end\<close> is meant, \<open>smallocMmap\<close> uses \<open>end\<close>, which is null, whatever the sizes.
\<close>

theorem second_mmap_crashes:
  assumes "MMAP_ALLOCATION_LIMIT \<le> n" and "n \<le> MAX_ALLOCATION"
    and "MMAP_ALLOCATION_LIMIT \<le> k" and "k \<le> MAX_ALLOCATION"
  shows "\<exists>p h. smalloc 1 n fresh_heap2 = Inr (Some p, h) \<and> smalloc 2 k h = Inl NullDeref"
  using assms
  by (simp add: smalloc_def smallocMmap_def fresh_heap2_def mmap_def MMAP_ALLOCATION_LIMIT_def
      payload_def Let_def numeral_2_eq_2 set_md_def)

theorem second_mmap_crashes_witness:
  "\<exists>p h. smalloc 1 200000 fresh_heap2 = Inr (Some p, h) \<and> smalloc 2 300000 h = Inl NullDeref"
  by (rule second_mmap_crashes) (simp_all add: MMAP_ALLOCATION_LIMIT_def MAX_ALLOCATION_def)

text \<open>Three blocks: free, in use, free.\<close>

definition three_blocks :: heap2 where
  "three_blocks = fresh_heap2\<lparr>brk := 6192, root := Some 4096, end_ptr := Some 5660,
     md := [4096 \<mapsto> \<lparr>bsize = 1000, is_free = True, next_md = Some 5128, prev_md = None\<rparr>,
            5128 \<mapsto> \<lparr>bsize = 500, is_free = False, next_md = Some 5660, prev_md = Some 4096\<rparr>,
            5660 \<mapsto> \<lparr>bsize = 500, is_free = True, next_md = None, prev_md = Some 5128\<rparr>]\<rparr>"

lemmas heap2_eval = three_blocks_def fresh_heap2_def srealloc_def try_merge_def split_md_def combine_def
  sfree_def sfree_merge_def merge_next_def merge_prev_def memmove_md_def clobber_def set_md_def
  MAX_ALLOCATION_def MMAP_ALLOCATION_LIMIT_def sizeof_md_def payload_def metadata_of_def Let_def

lemma three_blocks_ok: "heap_ok three_blocks [(4096, 1000, True), (5128, 500, False), (5660, 500, True)]"
  by (simp add: three_blocks_def fresh_heap2_def heap_ok_def sizeof_md_def)

text \<open>
  Shrinking a block in place with \<open>srealloc\<close> splits off a free block without merging it
  with the free block behind it: from a heap without adjacent free blocks it makes one with.
\<close>

theorem srealloc_shrink_fragments:
  "\<exists>h' bs. srealloc 4 (Some 5160) 100 three_blocks = Inr (Some 5160, h') \<and> heap_ok h' bs \<and>
     \<not> coalesced bs"
proof -
  have "\<exists>h'. srealloc 4 (Some 5160) 100 three_blocks = Inr (Some 5160, h') \<and>
      heap_ok h' [(4096, 1000, True), (5128, 100, False), (5260, 368, True), (5660, 500, True)]"
    by (simp add: heap2_eval heap_ok_def)
  moreover have "\<not> coalesced [(4096, 1000, True), (5128, 100, False), (5260, 368, True), (5660, 500, True)]"
    by simp
  ultimately show ?thesis by blast
qed

text \<open>
  Growing a block into its free predecessor releases the old pointer although its metadata
  is now inside the merged block. When the block behind is free and last, the release moves
  \<open>end\<close> into the middle of the block that was just returned: \<open>end\<close> lies strictly inside
  its payload.
\<close>

theorem srealloc_corrupts_end:
  "\<exists>h' e. srealloc 4 (Some 5160) 1400 three_blocks = Inr (Some 4128, h') \<and> end_ptr h' = Some e \<and>
     4128 < e \<and> e < 4128 + 1400 \<and> (\<nexists>bs. heap_ok h' bs)"
proof -
  have run: "\<exists>h'. srealloc 4 (Some 5160) 1400 three_blocks = Inr (Some 4128, h') \<and>
      end_ptr h' = Some 5128 \<and> root h' = Some 4096 \<and> base h' = 4096 \<and>
      md h' 4096 = Some \<lparr>bsize = 1532, is_free = False, next_md = Some 5660, prev_md = None\<rparr>"
    by (simp add: heap2_eval)
  then obtain h' where h': "srealloc 4 (Some 5160) 1400 three_blocks = Inr (Some 4128, h')"
      "end_ptr h' = Some 5128" "base h' = 4096"
      "md h' 4096 = Some \<lparr>bsize = 1532, is_free = False, next_md = Some 5660, prev_md = None\<rparr>"
    by blast
  have "\<not> heap_ok h' bs" for bs
  proof
    assume ok: "heap_ok h' bs"
    then obtain n f cs where bs: "bs = (4096, n, f) # cs" and t: "tiles 4096 bs (brk h')"
      using h'(2,3) by (cases bs) (auto simp: heap_ok_def)
    then have "n = 1532" using ok h'(4) by (simp add: heap_ok_def)
    moreover have "5128 \<in> set (map fst bs)"
      using ok h'(2) last_of_ne [of bs None] bs by (auto simp: heap_ok_def split: if_splits)
    ultimately show False
      using t bs tiles_fst_range [of "4096 + sizeof_md + 1532" cs "brk h'" 5128]
      by (auto simp: sizeof_md_def)
  qed
  with h'(1,2) show ?thesis by auto
qed

text \<open>
  A block taken from the break can reach the \<open>mmap\<close> limit by merging; when such a block is
  released, \<open>sfree\<close> treats it as a mapping and unmaps part of the program break.
\<close>

theorem sfree_unmaps_break:
  "\<exists>p q r h1 h2 h3 h4 h5 h6. smalloc 1 65536 fresh_heap2 = Inr (Some p, h1) \<and>
     smalloc 2 65536 h1 = Inr (Some q, h2) \<and> sfree (Some p) h2 = Inr h3 \<and>
     sfree (Some q) h3 = Inr h4 \<and> smalloc 2 131000 h4 = Inr (Some r, h5) \<and> sfree (Some r) h5 = Inr h6 \<and>
     unmapped h6 = [(base h6, 131136)] \<and> root h6 = Some (base h6) \<and> md h6 (base h6) = None"
  by (simp add: heap2_eval smalloc_def smallocSbrk_def sbrk_def numeral_2_eq_2 reuse_def
      sfree_mmap_def munmap_def)

end
