(* ===== verification/Malloc2_Realloc.thy ===== *)
theory Malloc2_Realloc
  imports Malloc2
begin

text \<open>
  Reallocation in the second allocator, branch by branch: a block that is large enough, a block
  that grows into its free successor, and a block that has to move; and the statistics, which
  walk through the list of the break and the list of mappings at the same time.
\<close>

section \<open>Reallocation in place\<close>

text \<open>A block cut down to \<open>n\<close> bytes where the rest is worth a block of its own.\<close>

definition cut_block :: "nat \<Rightarrow> nat \<Rightarrow> nat \<Rightarrow> block list" where
  "cut_block a k n = (if 128 + sizeof_md \<le> k - n
     then [(a, n, False), (a + n + sizeof_md, k - n - sizeof_md, True)] else [(a, k, False)])"

lemma cut_block_ok:
  assumes "heap_ok h (xs @ (a, k, False) # ys)" and "n \<le> k"
  shows "\<exists>h'. (if 128 + sizeof_md \<le> k - n then split_md a n h else Inr h) = Inr h' \<and>
           heap_ok h' (xs @ cut_block a k n @ ys) \<and> bytes h' = bytes h"
proof (cases "128 + sizeof_md \<le> k - n")
  case True
  then have "n + sizeof_md \<le> k" by linarith
  with split_md_ok [OF assms(1)] True show ?thesis by (auto simp: cut_block_def)
qed (use assms in \<open>simp add: cut_block_def\<close>)

lemma cut_block_first: "\<exists>i zs. cut_block a k n = (a, i, False) # zs \<and> (n \<le> k \<longrightarrow> n \<le> i) \<and> (k \<le> n \<longrightarrow> i = k)"
  by (auto simp: cut_block_def)

lemma block_md:
  assumes "heap_ok h (xs @ (a, k, f) # ys)"
  shows "md h a = Some \<lparr>bsize = k, is_free = f, next_md = first_of ys None, prev_md = last_of None xs\<rparr>"
  using assms by (simp add: heap_ok_def)

lemma metadata_payload [simp]: "metadata_of (payload a) = a"
  by (simp add: metadata_of_def payload_def)

text \<open>
  \<open>srealloc\<close> of a block that is large enough: the same pointer, no payload byte changed, and the
  rest split off when at least 128 bytes besides the metadata remain.
\<close>

theorem srealloc2_in_place:
  assumes "heap_ok h (xs @ (a, k, False) # ys)" and "0 < n" and "n \<le> MAX_ALLOCATION" and "n \<le> k"
  shows "\<exists>h'. srealloc fuel (Some (payload a)) n h = Inr (Some (payload a), h') \<and>
     heap_ok h' (xs @ cut_block a k n @ ys) \<and> bytes h' = bytes h"
proof -
  obtain h1 where h1: "(if 128 + sizeof_md \<le> k - n then split_md a n h else Inr h) = Inr h1"
      "heap_ok h1 (xs @ cut_block a k n @ ys)" "bytes h1 = bytes h"
    using cut_block_ok [OF assms(1,4)] by blast
  obtain i zs where i: "cut_block a k n = (a, i, False) # zs" using cut_block_first by blast
  have "set_md (Some a) (\<lambda>k. k\<lparr>bsize := (if is_free k then n else bsize k), is_free := False\<rparr>) h1 = Inr h1"
    using block_md [of h1 xs a i False "zs @ ys"] h1(2) i by (simp add: set_md_def fun_upd_idem)
  then show ?thesis
    using assms(2-4) h1 block_md [OF assms(1)] by (auto simp: srealloc_def Let_def)
qed

theorem srealloc2_in_place_witness:
  "\<exists>h'. srealloc 4 (Some 5160) 100 three_blocks = Inr (Some 5160, h') \<and>
     heap_ok h' [(4096, 1000, True), (5128, 100, False), (5260, 368, True), (5660, 500, True)]"
  using srealloc2_in_place [of three_blocks "[(4096, 1000, True)]" 5128 500 "[(5660, 500, True)]" 100 4]
    three_blocks_ok by (auto simp: MAX_ALLOCATION_def payload_def sizeof_md_def cut_block_def)

section \<open>Growing into the next block\<close>

text \<open>The block before is of no use: there is none, it is taken, or it is too small.\<close>

definition no_room_before :: "block list \<Rightarrow> nat \<Rightarrow> nat \<Rightarrow> bool" where
  "no_room_before xs k n \<longleftrightarrow> xs = [] \<or> (case last xs of (c, i, f) \<Rightarrow> \<not> f \<or> i + k + sizeof_md < n)"

lemma prev_block:
  assumes "heap_ok h (xs @ (a, k, f) # ys)" and "xs \<noteq> []"
  obtains c i g q where "last xs = (c, i, g)" and "last_of None xs = Some c"
    and "md h c = Some \<lparr>bsize = i, is_free = g, next_md = Some a, prev_md = q\<rparr>"
proof -
  obtain us c i g where xs: "xs = us @ [(c, i, g)]"
    using assms(2) by (metis append_butlast_last_id prod_cases3)
  then show thesis using that assms(1) by (simp add: heap_ok_def)
qed

lemma try_merge_next:
  assumes "heap_ok h (xs @ (a, k, False) # (b, j, True) # ys)" and "no_room_before xs k n"
    and "n \<le> j + k + sizeof_md" and m: "md h a = Some m"
  shows "\<exists>h'. try_merge a m n h = Inr (Some a, h') \<and>
           heap_ok h' (xs @ (a, k + (j + sizeof_md), False) # ys) \<and> bytes h' = bytes h"
proof -
  have ok: "heap_ok h ((xs @ [(a, k, False)]) @ (b, j, True) # ys)" using assms(1) by simp
  have m': "m = \<lparr>bsize = k, is_free = False, next_md = Some b, prev_md = last_of None xs\<rparr>"
    using block_md [OF assms(1)] m by simp
  have b: "md h b = Some \<lparr>bsize = j, is_free = True, next_md = first_of ys None, prev_md = Some a\<rparr>"
    using block_md [OF ok] by simp
  obtain h1 where h1: "combine (Some a) (Some b) h = Inr h1"
      "heap_ok h1 (xs @ (a, k + (j + sizeof_md), True) # ys)" "bytes h1 = bytes h"
    using combine_ok [OF assms(1)] by blast
  obtain h2 where h2: "set_md (Some a) (\<lambda>m. m\<lparr>is_free := False\<rparr>) h1 = Inr h2"
      "heap_ok h2 (xs @ (a, k + (j + sizeof_md), False) # ys)" "bytes h2 = bytes h1"
    using heap_ok_set_free [OF h1(2), of False] by blast
  have "try_merge a m n h = Inr (Some a, h2)"
  proof (cases "xs = []")
    case True
    then show ?thesis using m' b h1 h2 assms(3) by (simp add: try_merge_def)
  next
    case False
    then obtain c i g q where "last xs = (c, i, g)" "last_of None xs = Some c"
        "md h c = Some \<lparr>bsize = i, is_free = g, next_md = Some a, prev_md = q\<rparr>"
      using prev_block [OF assms(1)] by blast
    then show ?thesis
      using m' b h1 h2 assms(2,3) False by (auto simp: try_merge_def no_room_before_def)
  qed
  then show ?thesis using h1 h2 by simp
qed

text \<open>A copy onto itself.\<close>

lemma memmove_self:
  assumes "heap_ok h (xs @ (a, i, f) # ys)" and "k \<le> i"
  shows "\<exists>h'. memmove_md (Some (payload a)) (payload a) k h = Inr h' \<and> heap_ok h' (xs @ (a, i, f) # ys) \<and>
     bytes h' = bytes h"
  using heap_ok_write [OF assms] by (auto simp: memmove_md_def fun_eq_iff)

text \<open>
  \<open>srealloc\<close> that grows a block into the free block behind it: the pointer stays, the payload is
  untouched, the two blocks become one and what is left over is split off.
\<close>

theorem srealloc2_grows:
  assumes "heap_ok h (xs @ (a, k, False) # (b, j, True) # ys)" and "k < n" and "n \<le> MAX_ALLOCATION"
    and "no_room_before xs k n" and "n \<le> k + j + sizeof_md"
  shows "\<exists>h'. srealloc fuel (Some (payload a)) n h = Inr (Some (payload a), h') \<and>
     heap_ok h' (xs @ cut_block a (k + (j + sizeof_md)) n @ ys) \<and> bytes h' = bytes h"
proof -
  let ?k = "k + (j + sizeof_md)"
  obtain m where m: "md h a = Some m" "bsize m = k" using block_md [OF assms(1)] by simp
  obtain h1 where h1: "try_merge a m n h = Inr (Some a, h1)" "heap_ok h1 (xs @ (a, ?k, False) # ys)"
      "bytes h1 = bytes h"
    using try_merge_next [OF assms(1,4) _ m(1)] assms(5) by auto
  obtain h2 where h2: "(if 128 + sizeof_md \<le> ?k - n then split_md a n h1 else Inr h1) = Inr h2"
      "heap_ok h2 (xs @ cut_block a ?k n @ ys)" "bytes h2 = bytes h1"
    using cut_block_ok [OF h1(2), of n] assms(5) by auto
  obtain i zs where i: "cut_block a ?k n = (a, i, False) # zs" "n \<le> i"
    using cut_block_first [of a ?k n] assms(5) by auto
  obtain h3 where h3: "memmove_md (Some (payload a)) (payload a) k h2 = Inr h3"
      "heap_ok h3 (xs @ cut_block a ?k n @ ys)" "bytes h3 = bytes h2"
    using memmove_self [of h2 xs a i False "zs @ ys" k] h2(2) i assms(2) by auto
  have "md h1 a = Some \<lparr>bsize = ?k, is_free = False, next_md = first_of ys None, prev_md = last_of None xs\<rparr>"
    using block_md [OF h1(2)] .
  then show ?thesis
    using assms(2,3) m h1 h2 h3 by (auto simp: srealloc_def Let_def simp del: if_split)
qed

text \<open>A block of 100 bytes in use, followed by a block of 500 bytes.\<close>

definition pair_heap :: "bool \<Rightarrow> heap2" where
  "pair_heap f = fresh_heap2\<lparr>brk := 4760, root := Some 4096, end_ptr := Some 4228,
     md := [4096 \<mapsto> \<lparr>bsize = 100, is_free = False, next_md = Some 4228, prev_md = None\<rparr>,
            4228 \<mapsto> \<lparr>bsize = 500, is_free = f, next_md = None, prev_md = Some 4096\<rparr>]\<rparr>"

lemma pair_heap_ok: "heap_ok (pair_heap f) [(4096, 100, False), (4228, 500, f)]"
  by (simp add: pair_heap_def fresh_heap2_def heap_ok_def sizeof_md_def)

theorem srealloc2_grows_witness:
  "\<exists>h'. srealloc 3 (Some 4128) 300 (pair_heap True) = Inr (Some 4128, h') \<and>
     heap_ok h' [(4096, 300, False), (4428, 300, True)]"
  using srealloc2_grows [of "pair_heap True" "[]" 4096 100 4228 500 "[]" 300 3] pair_heap_ok [of True]
  by (auto simp: MAX_ALLOCATION_def payload_def sizeof_md_def cut_block_def no_room_before_def)

section \<open>Moving a block\<close>

text \<open>The block cannot grow where it is.\<close>

definition no_room :: "block list \<Rightarrow> block list \<Rightarrow> nat \<Rightarrow> nat \<Rightarrow> bool" where
  "no_room xs ys k n \<longleftrightarrow> no_room_before xs k n \<and>
     (ys = [] \<or> (case hd ys of (d, j, g) \<Rightarrow> \<not> g \<or> j + k + sizeof_md < n)) \<and>
     (xs = [] \<or> ys = [] \<or> (case (last xs, hd ys) of ((c, i, f), (d, j, g)) \<Rightarrow>
        \<not> f \<or> \<not> g \<or> i + j + k + 2 * sizeof_md < n))"

lemma try_merge_none:
  assumes "heap_ok h (xs @ (a, k, f) # ys)" and "no_room xs ys k n" and m: "md h a = Some m"
  shows "try_merge a m n h = Inr (None, h)"
proof -
  have m': "m = \<lparr>bsize = k, is_free = f, next_md = first_of ys None, prev_md = last_of None xs\<rparr>"
    using block_md [OF assms(1)] m by simp
  have nx: "\<exists>d j g q. hd ys = (d, j, g) \<and> first_of ys None = Some d \<and>
      md h d = Some \<lparr>bsize = j, is_free = g, next_md = q, prev_md = Some a\<rparr>" if "ys \<noteq> []"
    using that assms(1) by (cases ys; cases "hd ys") (auto simp: heap_ok_def)
  have pv: "\<exists>c i g q. last xs = (c, i, g) \<and> last_of None xs = Some c \<and>
      md h c = Some \<lparr>bsize = i, is_free = g, next_md = Some a, prev_md = q\<rparr>" if "xs \<noteq> []"
    using prev_block [OF assms(1) that] by metis
  show ?thesis
  proof (cases "xs = []")
    case True
    then show ?thesis
      using m' nx assms(2) by (cases "ys = []") (auto simp: try_merge_def no_room_def no_room_before_def)
  next
    case False
    then show ?thesis
      using m' nx pv [OF False] assms(2) by (cases "ys = []") (auto simp: try_merge_def no_room_def no_room_before_def)
  qed
qed

text \<open>
  C9. \<open>srealloc\<close> that has to move a block: the new area is the one the allocation specification
  gives, it starts with all bytes of the old block, and the old block is released and merged
  with its free neighbours.
\<close>

theorem srealloc2_moves:
  assumes "heap_ok h (xs @ (a, k, False) # ys)" and "length (xs @ (a, k, False) # ys) < fuel"
    and "k < n" and "n < MMAP_ALLOCATION_LIMIT" and "no_room xs ys k n"
    and "alloc_spec n (brk h) (brk_limit h) (xs @ (a, k, False) # ys) = (Some p, bs')"
  shows "\<exists>h' us vs. srealloc fuel (Some (payload a)) n h = Inr (Some p, h') \<and>
     bs' = us @ (a, k, False) # vs \<and> heap_ok h' (release us a k vs) \<and>
     (\<forall>i < k. bytes h' (p + i) = bytes h (payload a + i))"
proof -
  obtain m where m: "md h a = Some m" "bsize m = k" using block_md [OF assms(1)] by simp
  obtain h1 where h1: "smallocSbrk fuel n h = Inr (Some p, h1)" "heap_ok h1 bs'" "bytes h1 = bytes h"
    using smallocSbrk_spec [OF assms(1,2), of n] assms(6) by auto
  obtain zs d i ws where new: "p = payload d" "n \<le> i" "bs' = zs @ (d, i, False) # ws"
      "used (xs @ (a, k, False) # ys) \<subseteq> set (zs @ ws)"
    using alloc_spec_block [OF assms(6)] by blast
  then have old: "(a, k, False) \<in> set (zs @ ws)" by (auto simp: used_def)
  then obtain us vs where split: "bs' = us @ (a, k, False) # vs"
    using new(3) split_list [of "(a, k, False)" bs'] by auto
  have "d \<noteq> a"
    using tiles_other(1,2) [of "base h1" zs d i False ws "brk h1"] h1(2) new(3) old
    by (force simp: heap_ok_def)
  define h2 where "h2 = h1\<lparr>bytes := (\<lambda>x. if p \<le> x \<and> x < p + k then bytes h1 (payload a + (x - p)) else bytes h1 x),
      md := clobber p k (md h1)\<rparr>"
  have "heap_ok h2 bs'"
    unfolding h2_def new(1) using h1(2) new assms(3) by (simp add: heap_ok_write)
  then obtain h3 where h3: "sfree (Some (payload a)) h2 = Inr h3" "heap_ok h3 (release us a k vs)" "bytes h3 = bytes h2"
    using sfree_ok [of h2 us a k vs] split assms(3,4) by auto
  have n: "0 < n" "n \<le> MAX_ALLOCATION" using assms(3,4) by (simp_all add: MAX_ALLOCATION_def MMAP_ALLOCATION_LIMIT_def)
  then have "smalloc fuel n h = Inr (Some p, h1)" using h1(1) assms(4) by (simp add: smalloc_def)
  moreover have "memmove_md (Some p) (payload a) k h1 = Inr h2" by (simp add: memmove_md_def h2_def)
  ultimately have "srealloc fuel (Some (payload a)) n h = Inr (Some p, h3)"
    using n m assms(3) try_merge_none [OF assms(1,5) m(1)] h3(1) \<open>d \<noteq> a\<close> new(1)
    by (simp add: srealloc_def Let_def)
  then show ?thesis using split h3 h1(3) by (auto simp: h2_def)
qed

theorem srealloc2_moves_witness:
  "\<exists>h'. srealloc 3 (Some 4128) 300 (pair_heap False) = Inr (Some 4792, h') \<and>
     (\<forall>i < 100. bytes h' (4792 + i) = bytes (pair_heap False) (4128 + i))"
proof -
  have "alloc_spec 300 4760 200000000 [(4096, 100, False), (4228, 500, False)] =
      (Some 4792, [(4096, 100, False), (4228, 500, False), (4760, 300, False)])"
    by (simp add: alloc_spec_def MAX_ALLOCATION_def free_for_def sizeof_md_def payload_def)
  then show ?thesis
    using srealloc2_moves [of "pair_heap False" "[]" 4096 100 "[(4228, 500, False)]" 3 300] pair_heap_ok [of False]
    by (auto simp: MMAP_ALLOCATION_LIMIT_def payload_def sizeof_md_def no_room_def no_room_before_def
        pair_heap_def fresh_heap2_def)
qed

section \<open>Statistics\<close>

text \<open>The list of mappings; its blocks lie anywhere.\<close>

definition maps_ok :: "heap2 \<Rightarrow> block list \<Rightarrow> bool" where
  "maps_ok h ms \<longleftrightarrow> dseg (md h) None ms None \<and> mmap_head h = first_of ms None"

lemma fold_both_lists:
  assumes "dseg (md h) p bs None" and "dseg (md h) q ms None" and "length bs < fuel" and "length ms < fuel"
    and w: "\<And>m. w m = v (bsize m)"
  shows "fold_both fuel h w (first_of bs None) (first_of ms None) acc =
     Inr (acc + sum_list (map (\<lambda>(a, n, f). v n) bs) + sum_list (map (\<lambda>(a, n, f). v n) ms))"
  using assms(1-4)
proof (induction fuel arbitrary: p q bs ms acc)
  case (Suc fuel)
  have none: "visit h w None = Inr (0, None)" by (simp add: visit_def)
  show ?case
  proof (cases bs)
    case Nil
    then show ?thesis
      using Suc.prems Suc.IH [of p "[]"] none w by (cases ms) (auto simp: visit_def)
  next
    case (Cons b cs)
    then show ?thesis
      using Suc.prems Suc.IH [of "Some (fst b)" cs q "[]"] Suc.IH [of "Some (fst b)" cs "Some (fst (hd ms))" "tl ms"] none w
      by (cases ms; cases b) (auto simp: visit_def)
  qed
qed simp

text \<open>
  The statistics of the second allocator are exact: the free ones count the blocks of the break,
  the others the blocks of both lists, although they walk both at once, and the loops end.
\<close>

theorem malloc2_statistics:
  assumes "heap_ok h bs" and "maps_ok h ms" and "length bs < fuel" and "length ms < fuel"
  shows "num_free_blocks fuel h = Inr (length (filter (\<lambda>(a, n, f). f) bs)) \<and>
         num_free_bytes fuel h = Inr (sum_list (map (\<lambda>(a, n, f). if f then n else 0) bs)) \<and>
         num_allocated_blocks fuel h = Inr (length bs + length ms) \<and>
         num_allocated_bytes fuel h = Inr (sum_list (map (\<lambda>(a, n, f). n) (bs @ ms))) \<and>
         num_meta_data_bytes fuel h = Inr (size_meta_data * (length bs + length ms))"
proof -
  have seg: "dseg (md h) None bs None" "dseg (md h) None ms None"
    and r: "root h = first_of bs None" "mmap_head h = first_of ms None"
    using assms(1,2) by (auto simp: heap_ok_def maps_ok_def)
  have ones: "sum_list (map (\<lambda>(a, n, f). 1) cs) = length cs" for cs :: "block list" by (induction cs) auto
  have "fold_both fuel h (\<lambda>_. 1) (first_of bs None) (first_of ms None) 0 = Inr (length bs + length ms)"
    using fold_both_lists [OF seg assms(3,4), where v = "\<lambda>_. 1" and w = "\<lambda>_. 1"] ones by simp
  moreover have "fold_both fuel h bsize (first_of bs None) (first_of ms None) 0 =
      Inr (sum_list (map (\<lambda>(a, n, f). n) (bs @ ms)))"
    using fold_both_lists [OF seg assms(3,4), where v = "\<lambda>n. n" and w = bsize] by simp
  ultimately show ?thesis
    using count_free_blocks [OF seg(1) assms(3)] count_free_bytes [OF seg(1) assms(3)]
    by (simp add: num_free_blocks_def num_free_bytes_def num_allocated_blocks_def num_allocated_bytes_def
        num_meta_data_bytes_def size_meta_data_def r)
qed

theorem malloc2_statistics_witness:
  "num_allocated_blocks 4 three_blocks = Inr 3 \<and> num_free_bytes 4 three_blocks = Inr 1500"
  using malloc2_statistics [OF three_blocks_ok, of "[]" 4]
  by (simp add: maps_ok_def three_blocks_def fresh_heap2_def)

end
