(* ===== verification/Malloc_Client.thy ===== *)
theory Malloc_Client
  imports Malloc1 Malloc2_Realloc
begin

text \<open>
  Programs that use the allocators. A client makes a sequence of calls of \<open>smalloc\<close>,
  \<open>scalloc\<close> and \<open>sfree\<close> and stores bytes in the areas it owns; beside the heap an ideal memory
  records what each area should contain. (\<open>srealloc\<close> is not among the calls of a session; it
  has theorems of its own in \<open>Malloc1\<close> and \<open>Malloc2_Realloc\<close>.) The
  locale \<open>client_allocator\<close> collects what the operations promise and shows once that heap and
  ideal memory agree at all times; both allocators are interpretations.
\<close>

section \<open>Clients\<close>

datatype call =
    Smalloc nat
  | Scalloc nat nat
  | Sfree nat              \<comment> \<open>a pointer\<close>
  | Store nat nat nat      \<comment> \<open>a pointer, an offset and a byte\<close>

text \<open>The areas a client owns, with their contents.\<close>

type_synonym areas = "nat \<rightharpoonup> nat list"

text \<open>
  An area that an allocation handed out. An address the client owns already must not be
  handed out again: that would be a fault of the allocator, and the session ends with it.
\<close>

definition new_area :: "ptr \<Rightarrow> nat list \<Rightarrow> areas \<Rightarrow> areas res" where
  "new_area p d A =
     (case p of None \<Rightarrow> Inr A
      | Some q \<Rightarrow> if A q = None then Inr (A(q \<mapsto> d)) else Inl BadPointer)"

text \<open>
  One call. The client releases and writes only what it owns; a call that would do otherwise
  is left out.
\<close>

definition client_call ::
    "(nat \<Rightarrow> 'a heap_scheme \<Rightarrow> (ptr \<times> 'a heap_scheme) res) \<Rightarrow>
     (nat \<Rightarrow> nat \<Rightarrow> 'a heap_scheme \<Rightarrow> (ptr \<times> 'a heap_scheme) res) \<Rightarrow>
     (ptr \<Rightarrow> 'a heap_scheme \<Rightarrow> 'a heap_scheme res) \<Rightarrow>
     call \<Rightarrow> 'a heap_scheme \<times> areas \<Rightarrow> ('a heap_scheme \<times> areas) res" where
  "client_call al cal fr c s =
     (case s of (h, A) \<Rightarrow>
      case c of
        Smalloc n \<Rightarrow>
          rbind (al n h) (\<lambda>(p, h').
          rbind (new_area p (map (\<lambda>i. bytes h' (the p + i)) [0..<n]) A) (\<lambda>A'. Inr (h', A')))
      | Scalloc num n \<Rightarrow>
          rbind (cal num n h) (\<lambda>(p, h').
          rbind (new_area p (replicate (num * n mod 2 ^ 64) 0) A) (\<lambda>A'. Inr (h', A')))
      | Sfree p \<Rightarrow>
          if A p = None then Inr s else rbind (fr (Some p) h) (\<lambda>h'. Inr (h', A(p := None)))
      | Store p i v \<Rightarrow>
          (case A p of None \<Rightarrow> Inr s
           | Some d \<Rightarrow>
               if i < length d
               then rbind (memset_md (Some (p + i)) v 1 h) (\<lambda>h'. Inr (h', A(p \<mapsto> d[i := v])))
               else Inr s))"

fun client_run ::
    "(call \<Rightarrow> 's \<Rightarrow> 's res) \<Rightarrow> call list \<Rightarrow> 's \<Rightarrow> 's res" where
  "client_run step [] s = Inr s"
| "client_run step (c # cs) s = rbind (step c s) (client_run step cs)"

text \<open>Every area has its contents, and no two areas overlap.\<close>

definition contents_ok :: "'a heap_scheme \<Rightarrow> areas \<Rightarrow> bool" where
  "contents_ok h A \<longleftrightarrow> (\<forall>p d. A p = Some d \<longrightarrow> (\<forall>i < length d. bytes h (p + i) = d ! i))"

definition areas_disjoint :: "areas \<Rightarrow> bool" where
  "areas_disjoint A \<longleftrightarrow> (\<forall>p d q e. A p = Some d \<longrightarrow> A q = Some e \<longrightarrow> p \<noteq> q \<longrightarrow>
     p + length d \<le> q \<or> q + length e \<le> p)"

text \<open>Every area lies in a block in use.\<close>

definition areas_in :: "areas \<Rightarrow> block list \<Rightarrow> bool" where
  "areas_in A bs \<longleftrightarrow> (\<forall>p d. A p = Some d \<longrightarrow>
     (\<exists>a k. p = payload a \<and> length d \<le> k \<and> (a, k, False) \<in> used bs))"

section \<open>Areas and blocks\<close>

lemma areas_in_mono: "areas_in A bs \<Longrightarrow> used bs \<subseteq> used bs' \<Longrightarrow> areas_in A bs'"
  unfolding areas_in_def by blast

lemma areas_in_upd:
  "areas_in A bs \<Longrightarrow> (a, k, False) \<in> used bs \<Longrightarrow> length d \<le> k \<Longrightarrow> areas_in (A(payload a \<mapsto> d)) bs"
  by (auto simp: areas_in_def)

lemma areas_in_fresh: "areas_in A bs \<Longrightarrow> a \<notin> fst ` used bs \<Longrightarrow> A (payload a) = None"
  by (cases "A (payload a)") (force simp: areas_in_def payload_def)+

lemma areas_inE:
  assumes "areas_in A bs" and "A p = Some d"
  obtains a k where "p = payload a" "length d \<le> k" "(a, k, False) \<in> set bs"
proof -
  have "\<exists>a k. p = payload a \<and> length d \<le> k \<and> (a, k, False) \<in> used bs"
    using assms unfolding areas_in_def by blast
  with that show thesis by (auto simp: used_def)
qed

lemma areas_in_disjoint:
  assumes "areas_in A bs" and "tiles x bs y"
  shows "areas_disjoint A"
  unfolding areas_disjoint_def
proof (intro allI impI)
  fix p d q e
  assume A: "A p = Some d" "A q = Some e" "p \<noteq> q"
  obtain a k where a: "p = payload a" "length d \<le> k" "(a, k, False) \<in> set bs"
    using areas_inE [OF assms(1) A(1)] .
  obtain b j where b: "q = payload b" "length e \<le> j" "(b, j, False) \<in> set bs"
    using areas_inE [OF assms(1) A(2)] .
  have "a \<noteq> b" using A(3) a(1) b(1) by auto
  from tiles_disjoint [OF assms(2) a(3) b(3) this] a(1,2) b(1,2)
  show "p + length d \<le> q \<or> q + length e \<le> p" by (auto simp: payload_def)
qed

lemma contents_upd:
  assumes "contents_ok h A" and "areas_disjoint (A(q \<mapsto> e))"
    and new: "\<And>i. i < length e \<Longrightarrow> bytes h' (q + i) = e ! i"
    and old: "\<And>x. x < q \<or> q + length e \<le> x \<Longrightarrow> bytes h' x = bytes h x"
  shows "contents_ok h' (A(q \<mapsto> e))"
  unfolding contents_ok_def
proof (intro allI impI)
  fix p d i
  assume p: "(A(q \<mapsto> e)) p = Some d" and i: "i < length d"
  show "bytes h' (p + i) = d ! i"
  proof (cases "p = q")
    case True
    with p new i show ?thesis by simp
  next
    case False
    then have "p + length d \<le> q \<or> q + length e \<le> p" and "A p = Some d"
      using assms(2) p by (auto simp: areas_disjoint_def)
    then show ?thesis using old [of "p + i"] i assms(1) by (auto simp: contents_ok_def)
  qed
qed

text \<open>Bytes stored inside the payload of a block leave the structure of the heap alone.\<close>

lemma heap_ok_store:
  assumes ok: "heap_ok h bs" and a: "(a, k, f) \<in> set bs" and "payload a \<le> x" "x + n \<le> payload a + k"
  shows "heap_ok (h\<lparr>bytes := w, md := clobber x n (md h)\<rparr>) bs"
proof -
  have t: "tiles (base h) bs (brk h)" using ok by (simp add: heap_ok_def)
  have "clobber x n (md h) b = md h b" if mem: "b \<in> set (map fst bs)" for b
  proof -
    obtain j g where b: "(b, j, g) \<in> set bs" using mem by auto
    have "b = a \<or> b + sizeof_md \<le> a \<or> a + sizeof_md + k \<le> b"
      using tiles_disjoint [OF t b a] by linarith
    then show ?thesis using assms(3,4) by (auto simp: clobber_def payload_def)
  qed
  then have "dseg (clobber x n (md h)) None bs None = dseg (md h) None bs None"
    by (intro dseg_frame) auto
  then show ?thesis using ok by (simp add: heap_ok_def)
qed

text \<open>The invariant of a session, and the calls an allocator with bounded sizes is meant for.\<close>

definition client_inv :: "(block list \<Rightarrow> bool) \<Rightarrow> 'a heap_scheme \<Rightarrow> areas \<Rightarrow> block list \<Rightarrow> bool" where
  "client_inv good h A bs \<longleftrightarrow> heap_ok h bs \<and> good bs \<and> areas_in A bs \<and> contents_ok h A"

lemma client_inv_disjoint: "client_inv good h A bs \<Longrightarrow> areas_disjoint A"
  unfolding client_inv_def heap_ok_def by (blast intro: areas_in_disjoint)

fun call_ok :: "(nat \<Rightarrow> bool) \<Rightarrow> call \<Rightarrow> bool" where
  "call_ok size_ok (Smalloc n) = size_ok n"
| "call_ok size_ok (Scalloc num n) = size_ok (num * n mod 2 ^ 64)"
| "call_ok size_ok c = True"

lemma client_inv_new:
  assumes "heap_ok h bs" and "good bs" and "areas_in A bs" and "contents_ok h A"
    and a: "(a, k, False) \<in> used bs" and "length d \<le> k"
    and new: "\<And>i. i < length d \<Longrightarrow> bytes h' (payload a + i) = d ! i"
    and old: "\<And>x. x < payload a \<or> payload a + length d \<le> x \<Longrightarrow> bytes h' x = bytes h x"
    and "heap_ok h' bs"
  shows "client_inv good h' (A(payload a \<mapsto> d)) bs"
proof -
  have "areas_in (A(payload a \<mapsto> d)) bs" using areas_in_upd [OF assms(3) a assms(6)] .
  moreover from this have "areas_disjoint (A(payload a \<mapsto> d))"
    using assms(1) areas_in_disjoint by (auto simp: heap_ok_def)
  ultimately show ?thesis
    using contents_upd [OF assms(4) _ new old] assms(2,9) by (simp add: client_inv_def)
qed

section \<open>The contract\<close>

text \<open>
  \<open>good\<close> is what the allocator maintains of its list of blocks beyond the links, \<open>size_ok\<close> the
  sizes it is meant for.
\<close>

locale client_allocator =
  fixes alloc :: "nat \<Rightarrow> nat \<Rightarrow> 'a heap_scheme \<Rightarrow> (ptr \<times> 'a heap_scheme) res"
    and calloc :: "nat \<Rightarrow> nat \<Rightarrow> nat \<Rightarrow> 'a heap_scheme \<Rightarrow> (ptr \<times> 'a heap_scheme) res"
    and free :: "ptr \<Rightarrow> 'a heap_scheme \<Rightarrow> 'a heap_scheme res"
    and good :: "block list \<Rightarrow> bool"
    and size_ok :: "nat \<Rightarrow> bool"
  assumes good_Nil: "good []"
    and alloc_ok: "heap_ok h bs \<Longrightarrow> good bs \<Longrightarrow> length bs < fuel \<Longrightarrow> size_ok n \<Longrightarrow>
      \<exists>p h' bs'. alloc fuel n h = Inr (p, h') \<and> heap_ok h' bs' \<and> good bs' \<and> bytes h' = bytes h \<and>
        length bs' \<le> Suc (length bs) \<and> used bs \<subseteq> used bs' \<and>
        (\<forall>q. p = Some q \<longrightarrow> (\<exists>a k. q = payload a \<and> n \<le> k \<and> (a, k, False) \<in> used bs' \<and>
           a \<notin> fst ` used bs))"
    and calloc_eq: "calloc fuel num n h =
      rbind (alloc fuel (num * n mod 2 ^ 64) h) (\<lambda>(p, h).
        if p = None then Inr (None, h)
        else rbind (memset_md p 0 (num * n mod 2 ^ 64) h) (\<lambda>h. Inr (p, h)))"
    and free_ok: "heap_ok h (xs @ (a, k, False) # ys) \<Longrightarrow> good (xs @ (a, k, False) # ys) \<Longrightarrow>
      \<exists>h' bs'. free (Some (payload a)) h = Inr h' \<and> heap_ok h' bs' \<and> good bs' \<and> bytes h' = bytes h \<and>
        length bs' \<le> Suc (length (xs @ ys)) \<and> used (xs @ ys) \<subseteq> used bs'"
begin

lemma smalloc_keeps:
  assumes inv: "client_inv good h A bs" and "length bs < fuel" and "size_ok n"
  shows "\<exists>h' A' bs'. client_call (alloc fuel) (calloc fuel) free (Smalloc n) (h, A) = Inr (h', A') \<and>
           client_inv good h' A' bs' \<and> length bs' \<le> Suc (length bs)"
proof -
  obtain p h' bs' where run: "alloc fuel n h = Inr (p, h')" "heap_ok h' bs'" "good bs'"
      "bytes h' = bytes h" "length bs' \<le> Suc (length bs)" "used bs \<subseteq> used bs'"
    and blk: "\<And>q. p = Some q \<Longrightarrow>
        \<exists>a k. q = payload a \<and> n \<le> k \<and> (a, k, False) \<in> used bs' \<and> a \<notin> fst ` used bs"
    using alloc_ok [of h bs fuel n] inv assms(2,3) unfolding client_inv_def by blast
  have A: "areas_in A bs'" "contents_ok h' A"
    using inv areas_in_mono [OF _ run(6)] run(4) by (simp_all add: client_inv_def contents_ok_def)
  define d where "d = map (\<lambda>i. bytes h' (the p + i)) [0..<n]"
  have "\<exists>A'. new_area p d A = Inr A' \<and> client_inv good h' A' bs'"
  proof (cases p)
    case None
    with run A show ?thesis by (simp add: client_inv_def new_area_def)
  next
    case (Some q)
    from blk [OF this] obtain a k where a: "q = payload a" "n \<le> k" "(a, k, False) \<in> used bs'"
        "a \<notin> fst ` used bs" by blast
    have "A (payload a) = None"
      using areas_in_fresh [OF _ a(4)] inv by (auto simp: client_inv_def)
    with Some a run(2,3) A show ?thesis
      by (auto simp: new_area_def d_def intro!: client_inv_new [where h = h'])
  qed
  then show ?thesis using run(1,5) by (auto simp: client_call_def d_def)
qed

lemma scalloc_keeps:
  assumes inv: "client_inv good h A bs" and "length bs < fuel" and "size_ok (num * n mod 2 ^ 64)"
  shows "\<exists>h' A' bs'. client_call (alloc fuel) (calloc fuel) free (Scalloc num n) (h, A) = Inr (h', A') \<and>
           client_inv good h' A' bs' \<and> length bs' \<le> Suc (length bs)"
proof -
  define m where "m = num * n mod 2 ^ 64"
  obtain p h1 bs' where run: "alloc fuel m h = Inr (p, h1)" "heap_ok h1 bs'" "good bs'"
      "bytes h1 = bytes h" "length bs' \<le> Suc (length bs)" "used bs \<subseteq> used bs'"
    and blk: "\<And>q. p = Some q \<Longrightarrow>
        \<exists>a k. q = payload a \<and> m \<le> k \<and> (a, k, False) \<in> used bs' \<and> a \<notin> fst ` used bs"
    using alloc_ok [of h bs fuel m] inv assms(2,3) unfolding client_inv_def m_def by blast
  have A: "areas_in A bs'" "contents_ok h1 A"
    using inv areas_in_mono [OF _ run(6)] run(4) by (simp_all add: client_inv_def contents_ok_def)
  have call: "client_call (alloc fuel) (calloc fuel) free (Scalloc num n) (h, A) =
      (if p = None then Inr (h1, A)
       else rbind (memset_md p 0 m h1) (\<lambda>h'. rbind (new_area p (replicate m 0) A) (\<lambda>A'. Inr (h', A'))))"
    using run(1) by (cases p) (simp_all add: client_call_def calloc_eq m_def new_area_def memset_md_def)
  show ?thesis
  proof (cases p)
    case None
    with run(2,3,5) A call show ?thesis by (auto simp: client_inv_def)
  next
    case (Some q)
    from blk [OF this] obtain a k where a: "q = payload a" "m \<le> k" "(a, k, False) \<in> used bs'"
        "a \<notin> fst ` used bs" by blast
    then have new: "A q = None"
      using areas_in_fresh [of A bs a] inv by (auto simp: client_inv_def)
    define h' where "h' = h1\<lparr>bytes := (\<lambda>x. if q \<le> x \<and> x < q + m then 0 else bytes h1 x),
        md := clobber q m (md h1)\<rparr>"
    have "heap_ok h' bs'" using heap_ok_store [OF run(2)] a by (simp add: h'_def used_def)
    then have "client_inv good h' (A(q \<mapsto> replicate m 0)) bs'"
      using run(2,3) A a by (auto simp: h'_def intro!: client_inv_new [where h = h1])
    with Some call new run(5) show ?thesis by (auto simp: memset_md_def new_area_def h'_def)
  qed
qed

lemma sfree_keeps:
  assumes inv: "client_inv good h A bs"
  shows "\<exists>h' A' bs'. client_call (alloc fuel) (calloc fuel) free (Sfree p) (h, A) = Inr (h', A') \<and>
           client_inv good h' A' bs' \<and> length bs' \<le> Suc (length bs)"
proof (cases "A p")
  case None
  with inv show ?thesis by (auto simp: client_call_def intro: le_SucI)
next
  case (Some d)
  then obtain a k where a: "p = payload a" "(a, k, False) \<in> set bs"
    using areas_inE inv unfolding client_inv_def by metis
  then obtain xs ys where bs: "bs = xs @ (a, k, False) # ys" by (meson split_list)
  then obtain h' bs' where run: "free (Some p) h = Inr h'" "heap_ok h' bs'" "good bs'" "bytes h' = bytes h"
      "length bs' \<le> Suc (length (xs @ ys))" "used (xs @ ys) \<subseteq> used bs'"
    using free_ok [of h xs a k ys] inv a(1) unfolding client_inv_def by blast
  have "areas_in (A(p := None)) bs'"
    unfolding areas_in_def
  proof (intro allI impI)
    fix r e
    assume r: "(A(p := None)) r = Some e"
    then have "A r = Some e" "r \<noteq> p" by (auto split: if_splits)
    with inv obtain b j where "r = payload b" "length e \<le> j" "(b, j, False) \<in> used bs"
      unfolding client_inv_def areas_in_def by blast
    with \<open>r \<noteq> p\<close> a(1) bs run(6) show "\<exists>a k. r = payload a \<and> length e \<le> k \<and> (a, k, False) \<in> used bs'"
      by (fastforce simp: used_def)
  qed
  moreover have "contents_ok h' (A(p := None))"
    using inv run(4) by (simp add: client_inv_def contents_ok_def)
  ultimately show ?thesis using run Some bs by (auto simp: client_call_def client_inv_def)
qed

lemma store_keeps:
  assumes inv: "client_inv good h A bs"
  shows "\<exists>h' A' bs'. client_call (alloc fuel) (calloc fuel) free (Store p i v) (h, A) = Inr (h', A') \<and>
           client_inv good h' A' bs' \<and> length bs' \<le> Suc (length bs)"
proof (cases "\<exists>d. A p = Some d \<and> i < length d")
  case False
  with inv show ?thesis by (cases "A p") (auto simp: client_call_def intro: le_SucI)
next
  case True
  then obtain d where d: "A p = Some d" "i < length d" by blast
  with inv obtain a k where a: "p = payload a" "length d \<le> k" "(a, k, False) \<in> set bs"
    using areas_inE unfolding client_inv_def by metis
  define h' where "h' = h\<lparr>bytes := (\<lambda>x. if p + i \<le> x \<and> x < p + i + 1 then v else bytes h x),
      md := clobber (p + i) 1 (md h)\<rparr>"
  have "heap_ok h' bs"
    using heap_ok_store [of h bs a k False "p + i" 1] inv a d(2) by (simp add: client_inv_def h'_def)
  moreover have "bytes h (p + j) = d ! j" if "j < length d" for j
    using inv d(1) that by (simp add: client_inv_def contents_ok_def)
  ultimately have "client_inv good h' (A(p \<mapsto> d[i := v])) bs"
    using inv a d(2) unfolding client_inv_def [of good h]
    by (auto simp: h'_def used_def nth_list_update intro!: client_inv_new [where h = h and k = k])
  then show ?thesis using d by (auto simp: client_call_def memset_md_def h'_def)
qed

lemma call_keeps:
  assumes "client_inv good h A bs" and "length bs < fuel" and "call_ok size_ok c"
  shows "\<exists>h' A' bs'. client_call (alloc fuel) (calloc fuel) free c (h, A) = Inr (h', A') \<and>
           client_inv good h' A' bs' \<and> length bs' \<le> Suc (length bs)"
proof (cases c)
  case (Smalloc n)
  with smalloc_keeps [OF assms(1,2)] assms(3) show ?thesis by simp
next
  case (Scalloc num n)
  with scalloc_keeps [OF assms(1,2)] assms(3) show ?thesis by simp
qed (use sfree_keeps [OF assms(1)] store_keeps [OF assms(1)] in simp_all)

lemma session_keeps:
  "client_inv good h A bs \<Longrightarrow> length bs + length cs \<le> fuel \<Longrightarrow> list_all (call_ok size_ok) cs \<Longrightarrow>
   \<exists>h' A' bs'. client_run (client_call (alloc fuel) (calloc fuel) free) cs (h, A) = Inr (h', A') \<and>
     client_inv good h' A' bs'"
proof (induction cs arbitrary: h A bs)
  case (Cons c cs)
  then have "length bs < fuel" "call_ok size_ok c" by auto
  from call_keeps [OF Cons.prems(1) this] obtain h1 A1 bs1 where
    c: "client_call (alloc fuel) (calloc fuel) free c (h, A) = Inr (h1, A1)"
      "client_inv good h1 A1 bs1" "length bs1 \<le> Suc (length bs)" by blast
  then have "length bs1 + length cs \<le> fuel" using Cons.prems(2) by simp
  from Cons.IH [OF c(2) this] Cons.prems(3) c(1) show ?case by simp
qed auto

text \<open>A session that starts on an empty heap.\<close>

lemma session_safe:
  assumes "heap_ok h []" and "length cs \<le> fuel" and "list_all (call_ok size_ok) cs"
  shows "\<exists>h' A. client_run (client_call (alloc fuel) (calloc fuel) free) cs (h, Map.empty) = Inr (h', A) \<and>
           contents_ok h' A \<and> areas_disjoint A"
proof -
  have "client_inv good h Map.empty []"
    using assms(1) good_Nil by (simp add: client_inv_def areas_in_def contents_ok_def)
  from session_keeps [OF this, of cs fuel] assms(2,3) obtain h' A bs where
    "client_run (client_call (alloc fuel) (calloc fuel) free) cs (h, Map.empty) = Inr (h', A)"
    "client_inv good h' A bs" by auto
  then show ?thesis using client_inv_disjoint [of good h' A bs] by (auto simp: client_inv_def)
qed

end

section \<open>The first allocator\<close>

interpretation c1: client_allocator Malloc1.smalloc Malloc1.scalloc Malloc1.sfree "\<lambda>_. True" "\<lambda>_. True"
proof
  fix h :: heap and bs fuel n
  assume ok: "heap_ok h bs" and fuel: "length bs < fuel"
  obtain p h' bs' where run: "Malloc1.smalloc fuel n h = Inr (p, h')" "heap_ok h' bs'"
      "length bs' \<le> Suc (length bs)" "used bs \<subseteq> used bs'"
    and blk: "\<And>q. p = Some q \<Longrightarrow>
        \<exists>a k. q = payload a \<and> n \<le> k \<and> (a, k, False) \<in> used bs' \<and> a \<notin> fst ` used bs"
    using m1.alloc_step [OF ok fuel, of n] by metis
  have "bytes h' = bytes h"
    using smalloc_null [OF ok fuel] smalloc_outcome [OF ok fuel] run(1) by (cases p) metis+
  with run blk show "\<exists>p h' bs'. Malloc1.smalloc fuel n h = Inr (p, h') \<and> heap_ok h' bs' \<and> True \<and>
      bytes h' = bytes h \<and> length bs' \<le> Suc (length bs) \<and> used bs \<subseteq> used bs' \<and>
      (\<forall>q. p = Some q \<longrightarrow> (\<exists>a k. q = payload a \<and> n \<le> k \<and> (a, k, False) \<in> used bs' \<and>
         a \<notin> fst ` used bs))" by blast
next
  fix h :: heap and xs a k ys
  assume "heap_ok h (xs @ (a, k, False) # ys)"
  from sfree_block [OF this] obtain h' where "Malloc1.sfree (Some (payload a)) h = Inr h'"
    "heap_ok h' (xs @ (a, k, True) # ys)" "bytes h' = bytes h" by blast
  then show "\<exists>h' bs'. Malloc1.sfree (Some (payload a)) h = Inr h' \<and> heap_ok h' bs' \<and> True \<and>
      bytes h' = bytes h \<and> length bs' \<le> Suc (length (xs @ ys)) \<and> used (xs @ ys) \<subseteq> used bs'"
    by (intro exI [of _ h'] exI [of _ "xs @ (a, k, True) # ys"]) (auto simp: used_def)
qed (simp_all add: Malloc1.scalloc_def mult.commute cong: if_cong)

section \<open>The second allocator\<close>

text \<open>
  Blocks in use that came from the break are smaller than the limit for mappings: \<open>sfree\<close>
  recognises them by their size. Since a free block is not split when less than 128 bytes
  would remain, requests have to keep that distance from the limit.
\<close>

definition small_blocks :: "block list \<Rightarrow> bool" where
  "small_blocks bs \<longleftrightarrow> list_all (\<lambda>(a, k, f). f \<or> k < MMAP_ALLOCATION_LIMIT) bs"

definition small_request :: "nat \<Rightarrow> bool" where
  "small_request n \<longleftrightarrow> 128 + sizeof_md + n \<le> MMAP_ALLOCATION_LIMIT"

lemma used_simps [simp]:
  "used [] = {}" "used ((a, k, f) # bs) = (if f then used bs else insert (a, k, False) (used bs))"
  "used (xs @ ys) = used xs \<union> used ys"
  by (auto simp: used_def)

lemma take_split_small: "small_blocks bs \<Longrightarrow> small_request n \<Longrightarrow> small_blocks (take_split n bs)"
  by (induction n bs rule: take_split.induct)
    (auto simp: small_blocks_def small_request_def free_for_def split: if_splits)

lemma alloc_spec_small:
  assumes "small_blocks bs" and "small_request n" and "alloc_spec n br lim bs = (p, bs')"
  shows "small_blocks bs'"
proof (cases bs rule: rev_cases)
  case Nil
  with assms show ?thesis
    by (auto simp: alloc_spec_def small_blocks_def small_request_def sizeof_md_def split: if_splits)
next
  case (snoc xs b)
  with assms take_split_small [OF assms(1,2)] show ?thesis
    by (cases b) (auto simp: alloc_spec_def small_blocks_def small_request_def sizeof_md_def
        split: if_splits option.splits)
qed

lemma small_blocks_used: "small_blocks bs \<longleftrightarrow> (\<forall>b \<in> used bs. fst (snd b) < MMAP_ALLOCATION_LIMIT)"
  by (fastforce simp: small_blocks_def used_def list_all_iff)

lemma release_used: "used (release xs a k ys) = used (xs @ ys)"
  and release_length: "length (release xs a k ys) \<le> Suc (length (xs @ ys))"
proof -
  obtain k' ys' where ab: "absorb_next k ys = (k', ys')" by (cases "absorb_next k ys")
  then have "used ys' = used ys \<and> length ys' \<le> length ys"
    by (cases "(k, ys)" rule: absorb_next.cases) auto
  then show "used (release xs a k ys) = used (xs @ ys)"
    and "length (release xs a k ys) \<le> Suc (length (xs @ ys))"
    using ab by (cases xs rule: rev_cases; auto simp: release_def split: if_splits)+
qed

lemma smalloc2_small: "small_request n \<Longrightarrow> Malloc2.smalloc fuel n h = smallocSbrk fuel n h"
  by (simp add: Malloc2.smalloc_def smallocSbrk_def small_request_def sizeof_md_def)

interpretation c2: client_allocator Malloc2.smalloc Malloc2.scalloc Malloc2.sfree
  "\<lambda>bs. coalesced bs \<and> small_blocks bs" small_request
proof
  fix h :: heap2 and bs fuel n
  assume ok: "heap_ok h bs" "coalesced bs \<and> small_blocks bs" and fuel: "length bs < fuel"
    and n: "small_request n"
  obtain p h' bs' where run: "smallocSbrk fuel n h = Inr (p, h')" "heap_ok h' bs'" "bytes h' = bytes h"
      and spec: "alloc_spec n (brk h) (brk_limit h) bs = (p, bs')"
    using smallocSbrk_spec [OF ok(1) fuel] by metis
  have "coalesced bs'" "small_blocks bs'"
    using alloc_spec_coalesced [OF _ spec] alloc_spec_small [OF _ n spec] ok(2) by auto
  moreover have "length bs' \<le> Suc (length bs) \<and> used bs \<subseteq> used bs' \<and>
      (\<forall>q. p = Some q \<longrightarrow> (\<exists>a k. q = payload a \<and> n \<le> k \<and> (a, k, False) \<in> used bs' \<and>
         a \<notin> fst ` used bs))"
  proof (cases p)
    case None
    with alloc_spec_null [OF spec [unfolded None]] show ?thesis by simp
  next
    case (Some q)
    with alloc_spec_block spec obtain xs a k ys where q: "q = payload a" "n \<le> k"
      and bs': "bs' = xs @ (a, k, False) # ys"
      and old: "length (xs @ ys) \<le> length bs" "used bs \<subseteq> set (xs @ ys)" by blast
    have "a \<notin> fst ` set (xs @ ys)"
      using run(2) bs' tiles_other(1,2) [of "base h'" xs a k False ys "brk h'"]
      by (simp add: heap_ok_def image_Un)
    with old(2) have "a \<notin> fst ` used bs" by blast
    with Some q bs' old show ?thesis by (fastforce simp: used_def)
  qed
  ultimately show "\<exists>p h' bs'. Malloc2.smalloc fuel n h = Inr (p, h') \<and> heap_ok h' bs' \<and>
      (coalesced bs' \<and> small_blocks bs') \<and> bytes h' = bytes h \<and> length bs' \<le> Suc (length bs) \<and>
      used bs \<subseteq> used bs' \<and>
      (\<forall>q. p = Some q \<longrightarrow> (\<exists>a k. q = payload a \<and> n \<le> k \<and> (a, k, False) \<in> used bs' \<and>
         a \<notin> fst ` used bs))"
    using run n smalloc2_small by metis
next
  fix h :: heap2 and xs a k ys
  assume ok: "heap_ok h (xs @ (a, k, False) # ys)"
    and good: "coalesced (xs @ (a, k, False) # ys) \<and> small_blocks (xs @ (a, k, False) # ys)"
  then have "k < MMAP_ALLOCATION_LIMIT" by (simp add: small_blocks_def)
  from sfree_ok [OF ok this] obtain h' where "Malloc2.sfree (Some (payload a)) h = Inr h'"
    "heap_ok h' (release xs a k ys)" "bytes h' = bytes h" by blast
  then show "\<exists>h' bs'. Malloc2.sfree (Some (payload a)) h = Inr h' \<and> heap_ok h' bs' \<and>
      (coalesced bs' \<and> small_blocks bs') \<and> bytes h' = bytes h \<and>
      length bs' \<le> Suc (length (xs @ ys)) \<and> used (xs @ ys) \<subseteq> used bs'"
    using good release_coalesced release_used release_length
    by (intro exI [of _ h'] exI [of _ "release xs a k ys"]) (auto simp: small_blocks_used)
qed (simp_all add: Malloc2.scalloc_def small_blocks_def)

section \<open>Sessions\<close>

text \<open>
  C37. Whatever sequence of \<open>smalloc\<close>, \<open>scalloc\<close>, \<open>sfree\<close> and stores into its own areas a
  program makes on the first allocator (\<open>srealloc\<close> is not among the calls), every call
  returns, and no allocation hands out an address the program owns at that moment (the session
  would end in an error); at the end no two areas overlap and each contains exactly what was
  stored there last (zero after \<open>scalloc\<close> where nothing was stored). As this holds of every
  sequence of calls, it holds after each prefix of it. One unit of fuel per call is enough.
\<close>

theorem malloc1_sessions:
  assumes "heap_ok h []" and "length cs \<le> fuel"
  shows "\<exists>h' A. client_run (client_call (Malloc1.smalloc fuel) (Malloc1.scalloc fuel) Malloc1.sfree)
             cs (h, Map.empty) = Inr (h', A) \<and> contents_ok h' A \<and> areas_disjoint A"
proof -
  have "list_all (call_ok (\<lambda>_. True)) cs"
    by (simp add: list_all_iff) (metis call_ok.elims(3))
  with c1.session_safe [OF assms] show ?thesis .
qed

definition example_session :: "call list" where
  "example_session = [Smalloc 8, Scalloc 2 2, Sfree 4128, Store 4168 3 77]"

abbreviation four :: nat where
  "four \<equiv> Suc (Suc (Suc (Suc 0)))"

lemma four_areas: "replicate 4 v = [v, v, v, v]" "[a, b, c, d][3 := v] = [a, b, c, v]"
  by (simp_all add: numeral_nat)

lemmas session_eval = example_session_def client_call_def new_area_def memset_md_def clobber_def
  payload_def metadata_of_def sizeof_md_def sbrk_def get_md_def set_md_def

theorem malloc1_sessions_witness:
  "\<exists>h' A. client_run (client_call (Malloc1.smalloc four) (Malloc1.scalloc four) Malloc1.sfree)
     example_session (fresh_heap, Map.empty) = Inr (h', A) \<and>
     A 4128 = None \<and> A 4168 = Some [0, 0, 0, 77] \<and> contents_ok h' A"
proof -
  have "heap_ok fresh_heap []" by (simp add: heap_ok_def fresh_heap_def)
  moreover have "length example_session \<le> four" by (simp add: example_session_def)
  moreover have "\<exists>h' A. client_run (client_call (Malloc1.smalloc four) (Malloc1.scalloc four) Malloc1.sfree)
      example_session (fresh_heap, Map.empty) = Inr (h', A) \<and> A 4128 = None \<and> A 4168 = Some [0, 0, 0, 77]"
    by (simp add: session_eval fresh_heap_def Malloc1.smalloc_def Malloc1.scalloc_def Malloc1.sfree_def
        too_big_def four_areas)
  ultimately show ?thesis using malloc1_sessions [of fresh_heap example_session four] by auto
qed

text \<open>
  C8. Whatever sequence of \<open>smalloc\<close>, \<open>scalloc\<close>, \<open>sfree\<close> and stores into its own areas a
  program makes on the second allocator (\<open>srealloc\<close> is not among the calls), with requests at
  least 160 bytes (the 128 of the splitting rule and a metadata structure) below the limit for
  mappings, every call returns, and no allocation hands out an address the program owns at
  that moment (the session would end in an error); at the end no two areas overlap and each
  contains what was stored there last, through all splitting and merging of blocks. As this
  holds of every sequence of calls, it holds after each prefix of it.
\<close>

theorem malloc2_sessions:
  assumes "heap_ok h []" and "length cs \<le> fuel" and "list_all (call_ok small_request) cs"
  shows "\<exists>h' A. client_run (client_call (Malloc2.smalloc fuel) (Malloc2.scalloc fuel) Malloc2.sfree)
             cs (h, Map.empty) = Inr (h', A) \<and> contents_ok h' A \<and> areas_disjoint A"
  by (rule c2.session_safe [OF assms])

theorem malloc2_sessions_witness:
  "\<exists>h' A. client_run (client_call (Malloc2.smalloc four) (Malloc2.scalloc four) Malloc2.sfree)
     example_session (fresh_heap2, Map.empty) = Inr (h', A) \<and>
     A 4128 = None \<and> A 4168 = Some [0, 0, 0, 77] \<and> contents_ok h' A"
proof -
  have "heap_ok fresh_heap2 []" by (simp add: heap_ok_def fresh_heap2_def)
  moreover have "length example_session \<le> four" "list_all (call_ok small_request) example_session"
    by (simp_all add: example_session_def small_request_def sizeof_md_def MMAP_ALLOCATION_LIMIT_def)
  moreover have "\<exists>h' A. client_run (client_call (Malloc2.smalloc four) (Malloc2.scalloc four) Malloc2.sfree)
      example_session (fresh_heap2, Map.empty) = Inr (h', A) \<and> A 4128 = None \<and> A 4168 = Some [0, 0, 0, 77]"
    by (simp add: session_eval fresh_heap2_def Malloc2.smalloc_def smallocSbrk_def Malloc2.scalloc_def
        Malloc2.sfree_def MAX_ALLOCATION_def MMAP_ALLOCATION_LIMIT_def sfree_merge_def merge_next_def
        merge_prev_def four_areas Let_def)
  ultimately show ?thesis using malloc2_sessions [of fresh_heap2 example_session four] by auto
qed

end
