(* ===== verification/Shell_Text.thy ===== *)
theory Shell_Text
  imports Prelude
begin

text \<open>
  The string functions of the shell, \<^verbatim>\<open>Commands.cpp\<close>: trimming, splitting into words, the
  background sign, and the splitting of a command line at a redirection or a pipe, which the
  source writes inside the \<open>execute\<close> functions.
\<close>

section \<open>Definitions\<close>

abbreviation blank :: char where "blank \<equiv> CHR '' ''"
abbreviation amp :: char where "amp \<equiv> CHR ''&''"

definition COMMAND_MAX_ARGS :: nat where "COMMAND_MAX_ARGS = 20"

definition isNumber :: "string \<Rightarrow> bool" where
  "isNumber str = list_all isdigit str"

definition ltrim :: "string \<Rightarrow> string" where
  "ltrim s = dropWhile (\<lambda>c. c = blank) s"

definition rtrim :: "string \<Rightarrow> string" where
  "rtrim s = rev (dropWhile (\<lambda>c. c = blank) (rev s))"

definition trim :: "string \<Rightarrow> string" where
  "trim s = rtrim (ltrim s)"

text \<open>The erase-remove idiom.\<close>

definition erase_char :: "char \<Rightarrow> string \<Rightarrow> string" where
  "erase_char c s = filter (\<lambda>x. x \<noteq> c) s"

text \<open>
  \<open>_parseCommandLine\<close>: the words of the line; each word is followed by a null pointer in the
  array of \<open>COMMAND_MAX_ARGS\<close> entries, so that the twentieth word writes behind its end.
\<close>

definition parseCommandLine :: "string \<Rightarrow> string list res" where
  "parseCommandLine cmd_line =
     (let ws = words (cstr (trim (cstr cmd_line)))
      in if COMMAND_MAX_ARGS \<le> length ws then Inl BufferOverflow else Inr ws)"

text \<open>\<open>str[npos]\<close>, for a line of blanks, is outside the string.\<close>

definition isBackgroundComamnd :: "string \<Rightarrow> bool res" where
  "isBackgroundComamnd cmd_line =
     (let s = rtrim (cstr cmd_line) in if s = [] then Inl BadPointer else Inr (last s = amp))"

text \<open>
  \<open>idx\<close> is an \<open>unsigned int\<close>, which never equals \<open>npos\<close>: for a line of blanks the array is
  accessed far behind its end. The second search runs over the copy \<open>str\<close>, in which the sign is
  still present, and ends at \<open>idx\<close> itself.
\<close>

definition removeBackgroundSign :: "string \<Rightarrow> string res" where
  "removeBackgroundSign cmd_line =
     (let s = rtrim (cstr cmd_line); idx = length s - 1
      in if s = [] then Inl BadPointer
         else if s ! idx \<noteq> amp then Inr (cstr cmd_line)
         else Inr (take (idx + 1) ((cstr cmd_line)[idx := blank])))"

lemma tl_dropWhile_length:
  "x \<in> set s \<Longrightarrow> length (tl (dropWhile (\<lambda>c. c \<noteq> x) s)) < length s"
  by (induction s) (auto simp: length_dropWhile_le less_Suc_eq_le)

text \<open>\<open>_parseCat\<close>: the loop over \<open>s.find(" ")\<close>, then the rest of the line.\<close>

function parseCat_loop :: "string \<Rightarrow> string list \<Rightarrow> string list" where
  "parseCat_loop s args =
     (if blank \<in> set s then
        (let token = takeWhile (\<lambda>c. c \<noteq> blank) s;
             s' = tl (dropWhile (\<lambda>c. c \<noteq> blank) s)
         in parseCat_loop s' (if token \<noteq> [] then args @ [token] else args))
      else args @ [s])"
  by pat_completeness auto

termination
  by (relation "measure (\<lambda>(s, args). length s)") (auto simp del: length_tl intro: tl_dropWhile_length)

definition parseCat :: "string \<Rightarrow> string list" where
  "parseCat cmd_line = map (erase_char blank) (parseCat_loop (cstr cmd_line) [])"

text \<open>\<open>std::string::find\<close>.\<close>

fun find_str :: "string \<Rightarrow> string \<Rightarrow> nat option" where
  "find_str p [] = (if p = [] then Some 0 else None)"
| "find_str p (c # s) = (if is_prefix p (c # s) then Some 0 else map_option Suc (find_str p s))"

text \<open>The text before the last background sign, if there is one.\<close>

definition cut_background :: "string \<Rightarrow> string" where
  "cut_background s = (if amp \<in> set s then rev (tl (dropWhile (\<lambda>c. c \<noteq> amp) (rev s))) else s)"

text \<open>
  The two halves of a line at the first occurrence of a separator; without one,
  \<open>substr(0, npos)\<close> is the whole line and \<open>npos + k\<close> wraps to \<open>k - 1\<close>.
\<close>

definition split_at :: "string \<Rightarrow> string \<Rightarrow> string \<times> string" where
  "split_at barrier s =
     (case find_str barrier s of
        Some i \<Rightarrow> (take i s, drop (i + length barrier) s)
      | None \<Rightarrow> (s, drop (length barrier - 1) s))"

text \<open>The parts of \<open>RedirectionCommand::execute\<close> and \<open>PipeCommand::execute\<close> that parse.\<close>

definition redirection_parts :: "string \<Rightarrow> bool \<times> string \<times> string" where
  "redirection_parts entered_cmd =
     (let with_append = (find_str ''>>'' entered_cmd \<noteq> None);
          barrier = (if with_append then ''>>'' else ''>'');
          (cmd, outFile) = split_at barrier entered_cmd
      in (with_append, ltrim (rtrim cmd), ltrim (rtrim (cut_background (ltrim (rtrim outFile))))))"

definition pipe_parts :: "string \<Rightarrow> bool \<times> string \<times> string" where
  "pipe_parts entered_cmd =
     (let with_amperc = (find_str ''|&'' entered_cmd \<noteq> None);
          barrier = (if with_amperc then ''|&'' else ''|'');
          (left, right) = split_at barrier entered_cmd;
          right = ltrim (rtrim right)
      in (with_amperc, ltrim (rtrim left),
          if amp \<in> set right then ltrim (rtrim (cut_background right)) else right))"

section \<open>Trimming\<close>

lemma ltrim_id [simp]: "s = [] \<or> hd s \<noteq> blank \<Longrightarrow> ltrim s = s"
  by (cases s) (auto simp: ltrim_def)

lemma rtrim_id [simp]: "s = [] \<or> last s \<noteq> blank \<Longrightarrow> rtrim s = s"
  by (cases s rule: rev_cases) (auto simp: rtrim_def)

lemma ltrim_blank [simp]: "ltrim (blank # s) = ltrim s"
  by (simp add: ltrim_def)

lemma rtrim_blank [simp]: "rtrim (s @ [blank]) = rtrim s"
  by (simp add: rtrim_def)

lemma ltrim_ends: "ltrim s = [] \<or> hd (ltrim s) \<noteq> blank"
  using hd_dropWhile [of "\<lambda>c. c = blank" s] by (auto simp: ltrim_def)

lemma rtrim_ends: "rtrim s = [] \<or> last (rtrim s) \<noteq> blank"
  using hd_dropWhile [of "\<lambda>c. c = blank" "rev s"] by (auto simp: rtrim_def last_rev)

lemma rtrim_prefix: "\<exists>n. s = rtrim s @ replicate n blank"
proof -
  have "\<exists>n. t = replicate n blank @ dropWhile (\<lambda>c. c = blank) t" for t
    by (induction t) (auto intro: exI [of _ 0] exI [of _ "Suc _"])
  then obtain n where "rev s = replicate n blank @ dropWhile (\<lambda>c. c = blank) (rev s)" by blast
  then have "s = rtrim s @ replicate n blank"
    by (metis rev_append rev_replicate rev_rev_ident rtrim_def)
  then show ?thesis ..
qed

lemma rtrim_hd: "rtrim s \<noteq> [] \<Longrightarrow> hd (rtrim s) = hd s"
  using rtrim_prefix [of s] by (metis hd_append2)

text \<open>A word: not empty, without blanks at its ends.\<close>

definition trimmed :: "string \<Rightarrow> bool" where
  "trimmed s \<longleftrightarrow> s \<noteq> [] \<and> hd s \<noteq> blank \<and> last s \<noteq> blank"

lemma trim_trimmed: "trim s = [] \<or> trimmed (trim s)"
proof (cases "trim s = []")
  case False
  then have "rtrim (ltrim s) \<noteq> []" by (simp add: trim_def)
  then have "hd (trim s) = hd (ltrim s)" "ltrim s \<noteq> []"
    using rtrim_hd [of "ltrim s"] by (auto simp: trim_def rtrim_def)
  with ltrim_ends [of s] rtrim_ends [of "ltrim s"] False show ?thesis
    by (auto simp: trimmed_def trim_def)
qed simp

lemma trimmed_trims [simp]: "trimmed s \<Longrightarrow> ltrim s = s" "trimmed s \<Longrightarrow> rtrim s = s"
  by (simp_all add: trimmed_def)

section \<open>Separators\<close>

lemma find_str_first:
  "c \<notin> set s \<Longrightarrow> find_str (c # p) (s @ (c # p) @ t) = Some (length s)"
proof (induction s)
  case Nil
  have "is_prefix p (p @ t)" by (induction p) auto
  then show ?case by simp
qed auto

lemma find_str_None: "find_str p s = None \<longleftrightarrow> \<not> strstr s p"
  by (induction p s rule: find_str.induct) auto

lemma no_strstr_double:
  "c \<notin> set s \<Longrightarrow> c \<notin> set t \<Longrightarrow> d \<noteq> c \<Longrightarrow> e \<noteq> c \<Longrightarrow> \<not> strstr (s @ d # c # e # t) [c, c]"
proof (induction s)
  case Nil
  have "\<not> strstr t [c, c]" using Nil(2)
  proof (induction t)
    case (Cons x xs)
    then show ?case by (cases xs) auto
  qed simp
  with Nil show ?case by (cases t) auto
next
  case (Cons x xs)
  then show ?case by (cases xs) auto
qed

lemma no_strstr_absent: "d \<notin> set s \<Longrightarrow> \<not> strstr s [c, d]"
proof (induction s)
  case (Cons x xs)
  then show ?case by (cases xs) auto
qed simp

lemma cut_background_id: "amp \<notin> set s \<Longrightarrow> cut_background s = s"
  by (simp add: cut_background_def)

lemma cut_background_sign: "cut_background (s @ [amp]) = s"
  by (simp add: cut_background_def)

text \<open>
  A redirection is taken apart correctly: for a command and a file name without \<open>>\<close>,
  with blanks only inside, the line \<open>cmd > file\<close> yields exactly these parts and truncation,
  \<open>cmd >> file\<close> the same parts and appending, and a background sign at the end is dropped.
\<close>

theorem redirection_roundtrip:
  assumes "trimmed cmd" and "trimmed f" and "CHR ''>'' \<notin> set cmd" and "CHR ''>'' \<notin> set f"
    and "amp \<notin> set f"
  shows "redirection_parts (cmd @ '' > '' @ f) = (False, cmd, f) \<and>
         redirection_parts (cmd @ '' >> '' @ f) = (True, cmd, f) \<and>
         redirection_parts (cmd @ '' > '' @ f @ ''&'') = (False, cmd, f)"
proof -
  let ?g = "CHR ''>''"
  have cmd: "?g \<notin> set (cmd @ [blank])" using assms(3) by simp
  have one: "find_str ''>>'' (cmd @ '' > '' @ t) = None \<and>
      split_at ''>'' (cmd @ '' > '' @ t) = (cmd @ [blank], blank # t)" if "?g \<notin> set t" for t
  proof -
    have "find_str ''>'' ((cmd @ [blank]) @ ''>'' @ blank # t) = Some (length (cmd @ [blank]))"
      using find_str_first [OF cmd, of "[]" "blank # t"] by simp
    moreover have "\<not> strstr (cmd @ '' > '' @ t) ''>>''"
      using no_strstr_double [of ?g cmd t blank blank] assms(3) that by simp
    ultimately show ?thesis by (simp add: split_at_def find_str_None)
  qed
  have two: "find_str ''>>'' (cmd @ '' >> '' @ f) = Some (length (cmd @ [blank]))"
    using find_str_first [OF cmd, of "''>''" "blank # f"] by simp
  then have "split_at ''>>'' (cmd @ '' >> '' @ f) = (cmd @ [blank], blank # f)"
    by (simp add: split_at_def)
  moreover have fl: "f \<noteq> []" "rtrim (blank # f) = blank # f"
    "rtrim (blank # f @ [amp]) = blank # f @ [amp]" "ltrim (f @ [amp]) = f @ [amp]"
    using assms(2) by (auto simp: trimmed_def)
  ultimately show ?thesis
    using one [of f] one [of "f @ ''&''"] two assms(1,2,4,5)
    by (simp add: redirection_parts_def cut_background_id cut_background_sign)
qed

theorem redirection_roundtrip_witness:
  "redirection_parts ''ls -l >> out.txt'' = (True, ''ls -l'', ''out.txt'')"
  using redirection_roundtrip [of "''ls -l''" "''out.txt''"] by (simp add: trimmed_def)

text \<open>
  A pipe is taken apart correctly, for \<open>|\<close> and for \<open>|&\<close>.
\<close>

theorem pipe_roundtrip:
  assumes "trimmed l" and "trimmed r" and "CHR ''|'' \<notin> set l" and "CHR ''|'' \<notin> set r"
    and "amp \<notin> set l" and "amp \<notin> set r"
  shows "pipe_parts (l @ '' | '' @ r) = (False, l, r) \<and> pipe_parts (l @ '' |& '' @ r) = (True, l, r)"
proof -
  have l: "CHR ''|'' \<notin> set (l @ [blank])" using assms(3) by simp
  have "find_str ''|'' ((l @ [blank]) @ ''|'' @ blank # r) = Some (length (l @ [blank]))"
    using find_str_first [OF l, of "[]" "blank # r"] by simp
  moreover have "find_str ''|&'' (l @ '' | '' @ r) = None"
    using no_strstr_absent [of amp "l @ '' | '' @ r" "CHR ''|''"] assms(5,6) by (simp add: find_str_None)
  moreover have "find_str ''|&'' (l @ '' |& '' @ r) = Some (length (l @ [blank]))"
    using find_str_first [OF l, of "''&''" "blank # r"] by simp
  moreover have "r \<noteq> []" "rtrim (blank # r) = blank # r"
    using assms(2) by (auto simp: trimmed_def)
  ultimately show ?thesis
    using assms(1,2,6) by (simp add: pipe_parts_def split_at_def)
qed

theorem pipe_roundtrip_witness:
  "pipe_parts ''cat a |& wc'' = (True, ''cat a'', ''wc'')"
  using pipe_roundtrip [of "''cat a''" "''wc''"] by (simp add: trimmed_def)

section \<open>Words\<close>

definition is_word :: "string \<Rightarrow> bool" where
  "is_word w \<longleftrightarrow> w \<noteq> [] \<and> list_all (\<lambda>c. \<not> isspace c \<and> c \<noteq> CHR 0x00) w"

fun join :: "string list \<Rightarrow> string" where
  "join [] = []"
| "join [w] = w"
| "join (w # ws) = w @ blank # join ws"

lemma isspace_blank [simp]: "isspace blank"
  by (simp add: isspace_def)

lemma words_single: "is_word w \<Longrightarrow> words w = [w]"
proof -
  assume w: "is_word w"
  have "list_all (\<lambda>c. \<not> isspace c) v \<Longrightarrow> u @ v \<noteq> [] \<Longrightarrow> split_words u v = [u @ v]" for u v
    by (induction v arbitrary: u) auto
  from this [of w "[]"] w show ?thesis by (auto simp: is_word_def words_def list_all_iff)
qed

lemma words_join: "list_all is_word ws \<Longrightarrow> words (join ws) = ws"
proof (induction ws rule: join.induct)
  case (2 w)
  then show ?case by (simp add: words_single)
next
  case (3 w v ws)
  then have "w \<noteq> []" "\<forall>c \<in> set w. \<not> isspace c" by (auto simp: is_word_def list_all_iff)
  from words_space [OF this isspace_blank] 3 show ?case by simp
qed simp

lemma join_clean:
  "list_all is_word ws \<Longrightarrow> CHR 0x00 \<notin> set (join ws)"
  by (induction ws rule: join.induct) (auto simp: is_word_def list_all_iff)

lemma word_ends: "is_word w \<Longrightarrow> trimmed w"
proof -
  assume w: "is_word w"
  then have "w \<noteq> []" and all: "\<forall>c \<in> set w. \<not> isspace c"
    by (auto simp: is_word_def list_all_iff)
  then have "\<not> isspace (hd w)" "\<not> isspace (last w)" by simp_all
  with isspace_blank \<open>w \<noteq> []\<close> show ?thesis unfolding trimmed_def by metis
qed

lemma join_ends:
  "list_all is_word ws \<Longrightarrow> ws \<noteq> [] \<Longrightarrow> trimmed (join ws)"
proof (induction ws rule: join.induct)
  case (2 w)
  then show ?case by (simp add: word_ends)
next
  case (3 w v ws)
  then have "trimmed (join (v # ws))" "trimmed w" by (simp_all add: word_ends)
  then show ?case by (simp add: trimmed_def)
qed simp

lemma cstr_id: "CHR 0x00 \<notin> set s \<Longrightarrow> cstr s = s"
  unfolding cstr_def by (intro takeWhile_eq_all_conv [THEN iffD2]) auto

lemma parseCommandLine_join:
  assumes "list_all is_word ws"
  shows "parseCommandLine (join ws) = (if length ws < 20 then Inr ws else Inl BufferOverflow)"
proof (cases "ws = []")
  case True
  then show ?thesis by (simp add: parseCommandLine_def cstr_def trim_def words_def COMMAND_MAX_ARGS_def)
next
  case False
  then have "trim (join ws) = join ws" using join_ends [OF assms] by (simp add: trim_def)
  with assms show ?thesis
    by (auto simp: parseCommandLine_def cstr_id join_clean words_join COMMAND_MAX_ARGS_def)
qed

text \<open>
  \<open>_parseCommandLine\<close> recovers the words of a line of fewer than twenty words; a line of
  twenty or more words writes behind the end of the argument array.
\<close>

theorem parseCommandLine_words:
  assumes "list_all is_word ws"
  shows "parseCommandLine (join ws) = (if length ws < 20 then Inr ws else Inl BufferOverflow)"
  using parseCommandLine_join [OF assms] .

theorem parseCommandLine_words_witness:
  "parseCommandLine ''kill -9 1'' = Inr [''kill'', ''-9'', ''1'']"
  using parseCommandLine_words [of "[''kill'', ''-9'', ''1'']"] by (simp add: is_word_def isspace_def)

text \<open>
  \<open>_removeBackgroundSign\<close> replaces the sign by a blank but does not remove it: the line
  ends in a blank, although the comment promises that trailing spaces are removed.
\<close>

theorem removeBackgroundSign_keeps_blank:
  assumes "CHR 0x00 \<notin> set s"
  shows "removeBackgroundSign (s @ ''&'') = Inr (s @ [blank])"
proof -
  have "cstr (s @ ''&'') = s @ ''&''" using assms by (intro cstr_id) simp
  then show ?thesis by (simp add: removeBackgroundSign_def nth_append list_update_append)
qed

theorem removeBackgroundSign_keeps_blank_witness:
  "removeBackgroundSign ''sleep 5&'' = Inr ''sleep 5 ''"
  using removeBackgroundSign_keeps_blank [of "''sleep 5''"] by simp

end
