(* ===== verification/Jobs_List.thy ===== *)
theory Jobs_List
  imports Shell_Text
begin

text \<open>
  The job list of the shell, class \<open>JobsList\<close> of \<^verbatim>\<open>Commands.h\<close>, with the state of the shell it
  lives in. References to entries are positions in the vectors; the command objects that
  entries share are an array of objects, and a shared pointer is a position in it or null. An
  object that no shared pointer reaches any more stays in the array, which no code observes.
  Job and process numbers are integers without wrap-around.
\<close>

section \<open>State\<close>

definition JOBS_MAX_AMOUNT :: nat where "JOBS_MAX_AMOUNT = 150"

datatype job_status = Finished | Stopped | Background | Empty

text \<open>The classes derived from \<open>Command\<close>.\<close>

datatype command_class =
    ExternalCommand | PipeCommand | RedirectionCommand | ChangeDirCommand | GetCurrDirCommand
  | ShowPidCommand | QuitCommand | JobsCommand | KillCommand | ForegroundCommand
  | BackgroundCommand | CatCommand | ChpromptCommand

text \<open>
  The members that some method reads. \<open>jlist\<close> says whether the pointer \<open>list\<close> was set (to the
  only job list there is) or is still uninitialised.
\<close>

record Command =
  cls :: command_class
  entered_cmd :: string
  optional_arg :: bool
  built_in_cmd :: bool
  background_cmd :: bool
  cargs :: "string list"
  jlist :: bool
  lastD :: "string option"
  INVALID_ARG :: bool
  Job_id_in :: bool
  too_many_args :: bool
  OLDPWD_null :: bool
  listempty :: bool

record JobEntry =
  j_status :: job_status
  j_id :: int
  p_id :: int
  cmd :: ptr
  jtime :: int

definition empty_entry :: JobEntry where
  "empty_entry = \<lparr>j_status = Empty, j_id = 0, p_id = 0, cmd = None, jtime = 0\<rparr>"

record JobsList =
  arr :: "JobEntry list"
  non_built_in_cmd :: "JobEntry list"
  stoppedd :: "JobEntry list"

definition new_JobsList :: JobsList where
  "new_JobsList = \<lparr>arr = replicate JOBS_MAX_AMOUNT empty_entry,
     non_built_in_cmd = replicate JOBS_MAX_AMOUNT empty_entry,
     stoppedd = replicate JOBS_MAX_AMOUNT empty_entry\<rparr>"

text \<open>Where a descriptor leads: the terminal, a file, the pipe, or nowhere.\<close>

datatype chan = Terminal | Terminal_err | File string | Pipe_end | Closed

text \<open>
  The members of \<open>SmallShell\<close>, the objects, and what the process has done to the world so far:
  the text written to each channel, the signals sent, the current directory, and the processes
  it started, each with its command and the channels that it inherited as standard output and
  standard error. \<open>tick\<close> counts the calls whose answers may change from call to call.
\<close>

record shell =
  jobs :: JobsList
  newlen :: string
  for_pid :: int
  curr_cmd :: ptr
  for_cmd :: ptr
  LASTD :: string
  cmds :: "Command list"
  cwd :: string
  stdout_to :: chan
  stderr_to :: chan
  stdin_from :: chan
  written :: "chan \<Rightarrow> string"
  sent :: "(int \<times> int) list"
  spawned :: "(string \<times> chan \<times> chan) list"
  tick :: nat

datatype signal = CtrlZ | CtrlC

text \<open>
  The answers of the system. Those that depend on the moment take the count \<open>tick\<close>:
  the time, \<open>fork\<close>, \<open>kill\<close>, \<open>waitpid\<close> with \<open>WNOHANG\<close> for a process, the return value of a
  blocking \<open>waitpid\<close> (\<^term>\<open>None\<close> when it never returns) and the signals from the keyboard that
  arrive during it; whether a file can be opened for reading (\<open>open_rd\<close>) or for writing
  (\<open>creatable\<close>), and what the next \<open>read\<close> of one byte from it answers. As these answers are free
  from moment to moment, a file that changes while it is read, for instance because the shell
  itself writes to it, a descriptor table that is full and a file that never ends are all
  among the environments. \<open>patience\<close> is the number of reads of one file after which the model
  gives up. \<open>chdir\<close> gives the new directory, if it exists, for the current one and a path.
\<close>

datatype read_result = Got char | Eof | Failed

record sh_env =
  now :: "nat \<Rightarrow> int"
  fork_rc :: "nat \<Rightarrow> int"
  kill_rc :: "nat \<Rightarrow> int \<Rightarrow> int \<Rightarrow> int"
  waitpid_nohang :: "nat \<Rightarrow> int \<Rightarrow> int"
  waitpid_rc :: "nat \<Rightarrow> int option"
  keys :: "nat \<Rightarrow> signal list"
  chdir_to :: "string \<Rightarrow> string \<Rightarrow> string option"
  open_rd :: "nat \<Rightarrow> string \<Rightarrow> bool"
  read_rc :: "nat \<Rightarrow> string \<Rightarrow> read_result"
  patience :: nat
  creatable :: "nat \<Rightarrow> string \<Rightarrow> bool"
  exec_ok :: bool
  mypid :: int
  strerror :: string

abbreviation SIGINT :: int where "SIGINT \<equiv> 2"
abbreviation SIGKILL :: int where "SIGKILL \<equiv> 9"
abbreviation SIGCONT :: int where "SIGCONT \<equiv> 18"
abbreviation SIGSTOP :: int where "SIGSTOP \<equiv> 19"
abbreviation newline :: string where "newline \<equiv> [CHR 0x0A]"

section \<open>Effects\<close>

definition put :: "chan \<Rightarrow> string \<Rightarrow> shell \<Rightarrow> shell" where
  "put ch t s = (if ch = Closed then s else s\<lparr>written := (written s)(ch := written s ch @ t)\<rparr>)"

definition cout :: "string \<Rightarrow> shell \<Rightarrow> shell" where
  "cout t s = put (stdout_to s) t s"

definition cerr :: "string \<Rightarrow> shell \<Rightarrow> shell" where
  "cerr t s = put (stderr_to s) t s"

definition perror :: "sh_env \<Rightarrow> string \<Rightarrow> shell \<Rightarrow> shell" where
  "perror env t s = cerr (t @ '': '' @ strerror env @ newline) s"

definition kill :: "sh_env \<Rightarrow> int \<Rightarrow> int \<Rightarrow> shell \<Rightarrow> int \<times> shell" where
  "kill env p n s = (kill_rc env (tick s) p n, s\<lparr>sent := sent s @ [(p, n)], tick := Suc (tick s)\<rparr>)"

text \<open>\<open>if (kill(p, n) == -1) perror("smash error: kill failed");\<close>\<close>

definition kill_report :: "sh_env \<Rightarrow> int \<Rightarrow> int \<Rightarrow> shell \<Rightarrow> shell" where
  "kill_report env p n s =
     (case kill env p n s of (rc, s') \<Rightarrow>
        if rc = -1 then perror env ''smash error: kill failed'' s' else s')"

text \<open>The object behind a shared pointer.\<close>

definition get_cmd :: "shell \<Rightarrow> ptr \<Rightarrow> Command res" where
  "get_cmd s p = (case p of None \<Rightarrow> Inl NullDeref
     | Some i \<Rightarrow> if i < length (cmds s) then Inr (cmds s ! i) else Inl BadPointer)"

definition getNameCmd :: "shell \<Rightarrow> ptr \<Rightarrow> string res" where
  "getNameCmd s p = rbind (get_cmd s p) (\<lambda>c. Inr (entered_cmd c))"

text \<open>
  \<open>operator<<\<close> for a \<open>double\<close> whose value is an integer: six significant digits, and the
  exponent form from a million on, rounding half to even.
\<close>

definition show_double :: "int \<Rightarrow> string" where
  "show_double i =
     (let n = nat \<bar>i\<bar>; k = length (show_nat n); sign = (if i < 0 then ''-'' else '''') in
      if k \<le> 6 then sign @ show_nat n
      else let u = 10 ^ (k - 6); d = n div u; r = n mod u;
               m = (if 2 * r > u \<or> 2 * r = u \<and> odd d then d + 1 else d);
               (m, e) = (if m = 10 ^ 6 then (10 ^ 5, k) else (m, k - 1));
               ds = rev (dropWhile (\<lambda>c. c = CHR ''0'') (rev (show_nat m)));
               es = show_nat e
           in sign @ take 1 ds @ (if length ds = 1 then '''' else ''.'' @ drop 1 ds) @ ''e+'' @
              replicate (2 - length es) (CHR ''0'') @ es)"

section \<open>Operations\<close>

definition get_empty_place_in_list :: "JobEntry list \<Rightarrow> nat" where
  "get_empty_place_in_list l =
     (case find_index (\<lambda>e. j_status e = Empty) l of Some i \<Rightarrow> i | None \<Rightarrow> 0)"

definition get_max_job_id :: "JobsList \<Rightarrow> int" where
  "get_max_job_id jl =
     foldl (\<lambda>result i. if j_status i \<noteq> Empty then (if result > j_id i then result else j_id i)
                       else result) 0 (non_built_in_cmd jl)"

definition getJobById :: "int \<Rightarrow> JobsList \<Rightarrow> nat option" where
  "getJobById jobId jl = find_index (\<lambda>job. j_id job = jobId) (non_built_in_cmd jl)"

definition getJobById_SS :: "int \<Rightarrow> JobsList \<Rightarrow> nat option" where
  "getJobById_SS jobId jl = find_index (\<lambda>job. j_id job = jobId) (stoppedd jl)"

text \<open>The copy of an entry that is appended to \<open>stoppedd\<close>.\<close>

definition stopped_copy :: "JobEntry \<Rightarrow> JobEntry" where
  "stopped_copy job = \<lparr>j_status = Stopped, j_id = j_id job, p_id = p_id job, cmd = cmd job,
                       jtime = jtime job\<rparr>"

text \<open>
  \<open>addJob\<close>; the entry counts as occupied, with its old number, while the new number is
  computed, and keeps its old process number.
\<close>

definition addJob :: "sh_env \<Rightarrow> ptr \<Rightarrow> bool \<Rightarrow> shell \<Rightarrow> shell res" where
  "addJob env c isStopped s =
     rbind (get_cmd s c) (\<lambda>co.
       let jl = jobs s;
           list = (if built_in_cmd co then arr jl else non_built_in_cmd jl);
           put_list = (\<lambda>l. if built_in_cmd co then jl\<lparr>arr := l\<rparr> else jl\<lparr>non_built_in_cmd := l\<rparr>);
           i = get_empty_place_in_list list
       in if length list \<le> i then Inl BadPointer
          else
            let tmp = (list ! i)\<lparr>j_status := (if isStopped then Stopped else Background),
                                 cmd := c, jtime := now env (tick s)\<rparr>;
                tmp' = tmp\<lparr>j_id := get_max_job_id (put_list (list[i := tmp])) + 1\<rparr>;
                jl' = put_list (list[i := tmp'])
            in Inr (s\<lparr>jobs := (if isStopped then jl'\<lparr>stoppedd := stoppedd jl' @ [stopped_copy tmp']\<rparr>
                             else jl')\<rparr>))"

definition set_name :: "ptr \<Rightarrow> string \<Rightarrow> shell \<Rightarrow> shell res" where
  "set_name p en_cmd s =
     rbind (get_cmd s p) (\<lambda>c. Inr (s\<lparr>cmds := (cmds s)[the p := c\<lparr>entered_cmd := en_cmd\<rparr>]\<rparr>))"

definition set_job_pid :: "int \<Rightarrow> int \<Rightarrow> string \<Rightarrow> shell \<Rightarrow> shell res" where
  "set_job_pid job_id pid en_cmd s =
     (case getJobById job_id (jobs s) of
        None \<Rightarrow> Inl NullDeref
      | Some i \<Rightarrow>
          let l = non_built_in_cmd (jobs s); job = l ! i;
              s1 = s\<lparr>jobs := (jobs s)\<lparr>non_built_in_cmd := l[i := job\<lparr>p_id := pid\<rparr>]\<rparr>\<rparr>
          in rbind (set_name (cmd job) en_cmd s1) (\<lambda>s2.
             case getJobById_SS job_id (jobs s2) of
               None \<Rightarrow> Inl NullDeref
             | Some k \<Rightarrow>
                 let l2 = stoppedd (jobs s2); job1 = l2 ! k;
                     s3 = s2\<lparr>jobs := (jobs s2)\<lparr>stoppedd := l2[k := job1\<lparr>p_id := pid\<rparr>]\<rparr>\<rparr>
                 in set_name (cmd job1) en_cmd s3))"

definition is_job_id_in :: "int \<Rightarrow> JobsList \<Rightarrow> bool" where
  "is_job_id_in job_id jl = list_ex (\<lambda>job. j_id job = job_id) (non_built_in_cmd jl)"

definition is_job_pid_in :: "int \<Rightarrow> JobsList \<Rightarrow> bool" where
  "is_job_pid_in job_pid jl = list_ex (\<lambda>job. p_id job = job_pid) (non_built_in_cmd jl)"

text \<open>An entry that is neither finished nor empty.\<close>

definition live :: "JobEntry \<Rightarrow> bool" where
  "live job \<longleftrightarrow> j_status job \<noteq> Finished \<and> j_status job \<noteq> Empty"

definition is_list_empty :: "JobsList \<Rightarrow> bool" where
  "is_list_empty jl = (length (filter live (non_built_in_cmd jl)) = 0)"

text \<open>The loop that takes a job out of \<open>stoppedd\<close>.\<close>

definition unstop :: "int \<Rightarrow> JobsList \<Rightarrow> JobsList" where
  "unstop jobId jl = jl\<lparr>stoppedd :=
     map (\<lambda>jobb. if j_status jobb \<noteq> Empty \<and> jobId = j_id jobb
                 then jobb\<lparr>j_status := Empty, j_id := 0\<rparr> else jobb) (stoppedd jl)\<rparr>"

definition set_status :: "nat \<Rightarrow> job_status \<Rightarrow> JobsList \<Rightarrow> JobsList" where
  "set_status i st jl =
     jl\<lparr>non_built_in_cmd := (non_built_in_cmd jl)[i := (non_built_in_cmd jl ! i)\<lparr>j_status := st\<rparr>]\<rparr>"

definition send_SIG_TO_JOB :: "sh_env \<Rightarrow> int \<Rightarrow> int \<Rightarrow> shell \<Rightarrow> shell" where
  "send_SIG_TO_JOB env job_id SIGNUM s =
     (case getJobById job_id (jobs s) of
        None \<Rightarrow> s
      | Some i \<Rightarrow>
          let job = non_built_in_cmd (jobs s) ! i;
              jl = jobs s;
              jl = (if SIGNUM = 19 \<or> SIGNUM = 20
                    then (set_status i Stopped jl)\<lparr>stoppedd := stoppedd jl @ [stopped_copy job]\<rparr>
                    else jl);
              jl = (if SIGNUM = SIGCONT then set_status i Background (unstop (j_id job) jl) else jl);
              jl = (if SIGNUM = SIGKILL then set_status i Finished (unstop (j_id job) jl) else jl)
          in kill_report env (p_id job) SIGNUM (s\<lparr>jobs := jl\<rparr>))"

definition removeJobById :: "int \<Rightarrow> JobsList \<Rightarrow> JobsList" where
  "removeJobById jobId jl = jl\<lparr>
     non_built_in_cmd :=
       map (\<lambda>job. if j_id job = jobId then job\<lparr>j_status := Empty, j_id := 0\<rparr> else job)
         (non_built_in_cmd jl),
     stoppedd :=
       map (\<lambda>job. if j_id job = jobId then job\<lparr>j_status := Empty, j_id := 0, p_id := 0\<rparr> else job)
         (stoppedd jl)\<rparr>"

text \<open>The two loops of \<open>removeFinishedJobs\<close>.\<close>

definition reap :: "(int \<Rightarrow> int) \<Rightarrow> JobEntry \<Rightarrow> JobEntry" where
  "reap w job =
     (if j_status job \<noteq> Empty \<and> j_status job \<noteq> Stopped \<and> w (p_id job) \<noteq> 0
      then job\<lparr>j_status := Finished\<rparr> else job)"

definition sweep :: "nat \<Rightarrow> JobsList \<Rightarrow> JobsList" where
  "sweep k jl =
     (let job = non_built_in_cmd jl ! k
      in if j_status job = Finished then removeJobById (j_id job) jl else jl)"

definition removeFinishedJobs :: "sh_env \<Rightarrow> shell \<Rightarrow> shell" where
  "removeFinishedJobs env s =
     (let jl = jobs s;
          jl1 = jl\<lparr>non_built_in_cmd := map (reap (waitpid_nohang env (tick s))) (non_built_in_cmd jl)\<rparr>
      in s\<lparr>jobs := fold sweep [0..<length (non_built_in_cmd jl1)] jl1, tick := Suc (tick s)\<rparr>)"

text \<open>One line of \<open>printJobsList\<close>.\<close>

definition print_entry :: "sh_env \<Rightarrow> JobEntry \<Rightarrow> shell \<Rightarrow> shell res" where
  "print_entry env job s =
     rbind (getNameCmd s (cmd job)) (\<lambda>name.
       Inr (cout (''['' @ show_int (j_id job) @ ''] '' @ name @ '' : '' @ show_int (p_id job) @ '' '' @
            show_double (now env (tick s) - jtime job) @ '' secs'' @
            (if j_status job = Stopped then '' (stopped)'' else '''') @ newline) s))"

fun print_ids :: "sh_env \<Rightarrow> int list \<Rightarrow> shell \<Rightarrow> shell res" where
  "print_ids env [] s = Inr s"
| "print_ids env (i # is) s =
     (case getJobById i (jobs s) of
        None \<Rightarrow> print_ids env is s
      | Some k \<Rightarrow>
          let job = non_built_in_cmd (jobs s) ! k
          in if live job then rbind (print_entry env job s) (print_ids env is)
             else print_ids env is s)"

definition printJobsList :: "sh_env \<Rightarrow> shell \<Rightarrow> shell res" where
  "printJobsList env s =
     print_ids env (map int [1..<JOBS_MAX_AMOUNT * 2]) (removeFinishedJobs env s)"

fun print_killed :: "JobEntry list \<Rightarrow> shell \<Rightarrow> shell res" where
  "print_killed [] s = Inr s"
| "print_killed (job # js) s =
     (if live job then
        rbind (getNameCmd s (cmd job)) (\<lambda>name.
          print_killed js (cout (show_int (p_id job) @ '': '' @ name @ newline) s))
      else print_killed js s)"

definition kill_one :: "sh_env \<Rightarrow> nat \<Rightarrow> shell \<Rightarrow> shell" where
  "kill_one env k s =
     (let job = non_built_in_cmd (jobs s) ! k
      in if live job then
           let s' = kill_report env (p_id job) SIGKILL s
           in s'\<lparr>jobs := (jobs s')\<lparr>non_built_in_cmd := (non_built_in_cmd (jobs s'))
                [k := job\<lparr>j_status := Empty, j_id := 0, p_id := 0\<rparr>]\<rparr>\<rparr>
         else s)"

definition killAllJobs :: "sh_env \<Rightarrow> bool \<Rightarrow> shell \<Rightarrow> shell res" where
  "killAllJobs env kill_with_print s =
     rbind (if kill_with_print then
              print_killed (non_built_in_cmd (jobs s))
                (cout (''smash: sending SIGKILL signal to '' @
                   show_nat (length (filter live (non_built_in_cmd (jobs s)))) @ '' jobs:'' @ newline) s)
            else Inr s)
       (\<lambda>s'. Inr (fold (kill_one env) [0..<length (non_built_in_cmd (jobs s'))] s'))"

fun print_stopped :: "JobEntry list \<Rightarrow> shell \<Rightarrow> shell res" where
  "print_stopped [] s = Inr s"
| "print_stopped (job # js) s =
     (if j_status job \<noteq> Empty then
        rbind (getNameCmd s (cmd job)) (\<lambda>name.
          print_stopped js (cout (''['' @ show_int (j_id job) @ '']'' @ name @ '' : '' @
            show_int (p_id job) @ newline) s))
      else print_stopped js s)"

definition printstoppedlist :: "shell \<Rightarrow> shell res" where
  "printstoppedlist s = print_stopped (stoppedd (jobs s)) s"

definition SetNewId :: "sh_env \<Rightarrow> int \<Rightarrow> shell \<Rightarrow> shell res" where
  "SetNewId env jobId s =
     (case getJobById jobId (jobs s) of
        None \<Rightarrow> Inl NullDeref
      | Some i \<Rightarrow>
          let jl = jobs s; t = now env (tick s)
          in Inr (s\<lparr>jobs := jl\<lparr>
               non_built_in_cmd := (non_built_in_cmd jl)[i := (non_built_in_cmd jl ! i)\<lparr>jtime := t\<rparr>],
               stoppedd := map (\<lambda>jobb. if j_id jobb = jobId then jobb\<lparr>jtime := t\<rparr> else jobb)
                             (stoppedd jl)\<rparr>\<rparr>))"

text \<open>\<open>getLastStoppedJob\<close>: the number, \<open>-1\<close> for none, and the entry.\<close>

definition getLastStoppedJob :: "JobsList \<Rightarrow> int \<times> nat option" where
  "getLastStoppedJob jl =
     (let mx = foldl (\<lambda>m jobb. if j_id jobb > m \<and> j_status jobb \<noteq> Empty then j_id jobb else m) 0
                 (stoppedd jl)
      in if mx = 0 then (-1, None) else (mx, find_index (\<lambda>jobb. j_id jobb = mx) (stoppedd jl)))"

definition print_job :: "int \<Rightarrow> shell \<Rightarrow> shell res" where
  "print_job job_id s =
     (case getJobById job_id (jobs s) of
        None \<Rightarrow> Inr s
      | Some i \<Rightarrow>
          let job = non_built_in_cmd (jobs s) ! i
          in rbind (getNameCmd s (cmd job)) (\<lambda>name.
               Inr (cout (name @ '' : '' @ show_int (p_id job) @ newline) s)))"

fun print_non_built :: "sh_env \<Rightarrow> JobEntry list \<Rightarrow> shell \<Rightarrow> shell res" where
  "print_non_built env [] s = Inr s"
| "print_non_built env (job # js) s =
     (if \<not> live job then print_non_built env js s
      else rbind (getNameCmd s (cmd job)) (\<lambda>name.
        print_non_built env js (cout (''['' @ show_int (j_id job) @ '']'' @ name @ '' : '' @
          show_double (now env (tick s) - jtime job) @ '' secs'' @
          (if j_status job = Stopped then '' (stopped)'' else '''') @ newline) s)))"

definition print_non_built_in_cmds :: "sh_env \<Rightarrow> shell \<Rightarrow> shell res" where
  "print_non_built_in_cmds env s = print_non_built env (non_built_in_cmd (jobs s)) s"

section \<open>The invariant\<close>

text \<open>
  What holds of the list at all times: it has its 150 entries, an empty entry has the number 0,
  and no two jobs share a number. The number 0 is not excluded for entries in use: the
  commands \<open>kill\<close>, \<open>fg\<close> and \<open>bg\<close> accept it, and then act on an empty entry.
\<close>

definition ids_ok :: "JobEntry list \<Rightarrow> bool" where
  "ids_ok l \<longleftrightarrow> (\<forall>e \<in> set l. 0 \<le> j_id e \<and> (j_status e = Empty \<longrightarrow> j_id e = 0)) \<and>
     (\<forall>i < length l. \<forall>j < length l. i \<noteq> j \<longrightarrow> j_id (l ! i) = j_id (l ! j) \<longrightarrow> j_id (l ! i) = 0)"

definition jobs_ok :: "JobsList \<Rightarrow> bool" where
  "jobs_ok jl \<longleftrightarrow> length (arr jl) = JOBS_MAX_AMOUNT \<and>
     length (non_built_in_cmd jl) = JOBS_MAX_AMOUNT \<and> ids_ok (non_built_in_cmd jl)"

text \<open>The list as a table from job numbers to entries.\<close>

definition entry_of :: "JobEntry list \<Rightarrow> int \<Rightarrow> JobEntry option" where
  "entry_of l i = (if 0 < i then find (\<lambda>e. j_id e = i) l else None)"

definition job_table :: "JobsList \<Rightarrow> int \<Rightarrow> JobEntry option" where
  "job_table jl = entry_of (non_built_in_cmd jl)"

lemma ids_okD:
  "ids_ok l \<Longrightarrow> i < length l \<Longrightarrow> j < length l \<Longrightarrow> j_id (l ! i) = j_id (l ! j) \<Longrightarrow> j_id (l ! i) \<noteq> 0 \<Longrightarrow> i = j"
  by (auto simp: ids_ok_def)

lemma ids_ok_nonneg: "ids_ok l \<Longrightarrow> i < length l \<Longrightarrow> 0 \<le> j_id (l ! i)"
  by (auto simp: ids_ok_def)

lemma ids_ok_empty: "ids_ok l \<Longrightarrow> i < length l \<Longrightarrow> j_status (l ! i) = Empty \<Longrightarrow> j_id (l ! i) = 0"
  by (auto simp: ids_ok_def)

lemma entry_of_nth:
  assumes "ids_ok l" and "i < length l" and "0 < j_id (l ! i)"
  shows "entry_of l (j_id (l ! i)) = Some (l ! i)"
  using assms ids_okD [OF assms(1)] unfolding entry_of_def
  by (auto simp: find_Some_iff intro!: exI [of _ i]) (metis less_irrefl less_trans)

lemma entry_of_Some:
  assumes "ids_ok l"
  shows "entry_of l n = Some e \<longleftrightarrow> 0 < n \<and> (\<exists>i < length l. l ! i = e \<and> j_id e = n)"
proof
  assume "entry_of l n = Some e"
  then show "0 < n \<and> (\<exists>i < length l. l ! i = e \<and> j_id e = n)"
    by (auto simp: entry_of_def find_Some_iff split: if_splits)
next
  assume "0 < n \<and> (\<exists>i < length l. l ! i = e \<and> j_id e = n)"
  then show "entry_of l n = Some e" using entry_of_nth [OF assms] by auto
qed

lemma entry_of_mem: "entry_of l n = Some e \<Longrightarrow> e \<in> set l \<and> j_id e = n \<and> 0 < n"
  by (auto simp: entry_of_def find_Some_iff split: if_splits)

lemma entry_of_None:
  "entry_of l n = None \<longleftrightarrow> n \<le> 0 \<or> (\<forall>i < length l. j_id (l ! i) \<noteq> n)"
  by (auto simp: entry_of_def find_None_iff in_set_conv_nth)

text \<open>Changing one entry: it keeps its number, becomes empty, or gets a number nobody has.\<close>

lemma ids_ok_update:
  assumes "ids_ok l" and "0 \<le> j_id e" and "j_status e = Empty \<longrightarrow> j_id e = 0"
    and "i < length l \<longrightarrow> j_id e = j_id (l ! i) \<or> j_id e = 0 \<or> (\<forall>x \<in> set l. j_id x \<noteq> j_id e)"
  shows "ids_ok (l[i := e])"
proof (cases "i < length l")
  case True
  have "\<forall>x \<in> set (l[i := e]). 0 \<le> j_id x \<and> (j_status x = Empty \<longrightarrow> j_id x = 0)"
    using assms set_update_subset_insert [of l i e] by (auto simp: ids_ok_def)
  moreover have "a = b" if "a < length l" "b < length l"
      "j_id (l[i := e] ! a) = j_id (l[i := e] ! b)" "j_id (l[i := e] ! a) \<noteq> 0" for a b
    using that assms(4) True ids_okD [OF assms(1), of a b] nth_mem [of a l] nth_mem [of b l]
      ids_okD [OF assms(1), of a i] ids_okD [OF assms(1), of i b]
    by (auto simp: nth_list_update split: if_splits)
  ultimately show ?thesis unfolding ids_ok_def by auto
qed (use assms(1) in \<open>simp add: list_update_beyond\<close>)

lemma ids_ok_map:
  assumes "ids_ok l"
    and "\<And>e. e \<in> set l \<Longrightarrow> j_id (f e) = j_id e \<and> (j_status (f e) = Empty \<longrightarrow> j_status e = Empty) \<or> j_id (f e) = 0"
  shows "ids_ok (map f l)"
proof -
  have 1: "0 \<le> j_id (f e) \<and> (j_status (f e) = Empty \<longrightarrow> j_id (f e) = 0)" if "e \<in> set l" for e
    using assms(1) assms(2) [OF that] that by (auto simp: ids_ok_def)
  have "a = b" if "a < length l" "b < length l" "j_id (f (l ! a)) = j_id (f (l ! b))"
      "j_id (f (l ! a)) \<noteq> 0" for a b
    using that ids_okD [OF assms(1), of a b] assms(2) [of "l ! a"] assms(2) [of "l ! b"] by auto
  with 1 show ?thesis unfolding ids_ok_def by (auto simp: in_set_conv_nth)
qed

section \<open>Adding a job\<close>

lemma max_fold:
  fixes r :: int
  assumes "r' = foldl (\<lambda>r e. if j_status e \<noteq> Empty then (if r > j_id e then r else j_id e) else r) r l"
  shows "r \<le> r' \<and> (\<forall>e \<in> set l. j_status e \<noteq> Empty \<longrightarrow> j_id e \<le> r') \<and>
         (r' = r \<or> (\<exists>e \<in> set l. j_status e \<noteq> Empty \<and> j_id e = r'))"
  using assms
proof (induction l arbitrary: r)
  case (Cons e l)
  let ?r = "if j_status e \<noteq> Empty then (if r > j_id e then r else j_id e) else r"
  from Cons.IH [of ?r] Cons.prems show ?case by (auto split: if_splits)
qed simp

lemma get_max_job_id_bounds:
  "0 \<le> get_max_job_id jl"
  "e \<in> set (non_built_in_cmd jl) \<Longrightarrow> j_status e \<noteq> Empty \<Longrightarrow> j_id e \<le> get_max_job_id jl"
  "get_max_job_id jl \<noteq> 0 \<Longrightarrow>
     \<exists>e \<in> set (non_built_in_cmd jl). j_status e \<noteq> Empty \<and> j_id e = get_max_job_id jl"
  using max_fold [of "get_max_job_id jl" 0 "non_built_in_cmd jl"] unfolding get_max_job_id_def by blast+

lemma max_above:
  assumes "ids_ok (non_built_in_cmd jl)" and "e \<in> set (non_built_in_cmd jl)"
  shows "j_id e \<le> get_max_job_id jl"
  using get_max_job_id_bounds(1) [of jl] get_max_job_id_bounds(2) [of e jl] assms
  by (cases "j_status e = Empty") (auto simp: ids_ok_def)

lemma empty_place_bound: "l \<noteq> [] \<Longrightarrow> get_empty_place_in_list l < length l"
  by (auto simp: get_empty_place_in_list_def find_index_Some split: option.splits)

lemma empty_place_empty:
  "\<exists>e \<in> set l. j_status e = Empty \<Longrightarrow> j_status (l ! get_empty_place_in_list l) = Empty"
  by (auto simp: get_empty_place_in_list_def find_index_Some find_index_None in_set_conv_nth
      split: option.splits)

lemma get_max_update:
  assumes "ids_ok (non_built_in_cmd jl)" and "k < length (non_built_in_cmd jl)"
    and "j_id e = j_id (non_built_in_cmd jl ! k)" and "j_status e \<noteq> Empty"
  shows "get_max_job_id (jl\<lparr>non_built_in_cmd := (non_built_in_cmd jl)[k := e]\<rparr>) = get_max_job_id jl"
    (is "get_max_job_id ?jl = _")
proof (rule antisym)
  let ?l = "non_built_in_cmd jl"
  have low: "j_id x \<le> get_max_job_id jl" if "x \<in> set (?l[k := e])" for x
    using that max_above [OF assms(1)] assms(2,3) set_update_subset_insert [of ?l k e] nth_mem [OF assms(2)]
    by auto
  show "get_max_job_id ?jl \<le> get_max_job_id jl"
  proof (cases "get_max_job_id ?jl = 0")
    case True
    then show ?thesis using get_max_job_id_bounds(1) [of jl] by simp
  next
    case False
    then obtain x where "x \<in> set (?l[k := e])" "j_id x = get_max_job_id ?jl"
      using get_max_job_id_bounds(3) [of ?jl] by auto
    with low show ?thesis by fastforce
  qed
  show "get_max_job_id jl \<le> get_max_job_id ?jl"
  proof (cases "get_max_job_id jl = 0")
    case True
    then show ?thesis using get_max_job_id_bounds(1) [of ?jl] by simp
  next
    case False
    then obtain i where i: "i < length ?l" "j_status (?l ! i) \<noteq> Empty" "j_id (?l ! i) = get_max_job_id jl"
      using get_max_job_id_bounds(3) [of jl] by (auto simp: in_set_conv_nth)
    let ?x = "?l[k := e] ! i"
    have "?x \<in> set (?l[k := e])" using i(1) by (intro nth_mem) simp
    moreover have "j_status ?x \<noteq> Empty" "j_id ?x = get_max_job_id jl"
      using i assms by (auto simp: nth_list_update)
    ultimately show ?thesis using get_max_job_id_bounds(2) [of ?x ?jl] by simp
  qed
qed

text \<open>
  What \<open>addJob\<close> does for a command that is not built in: the entry, its number, and everything
  else unchanged.
\<close>

lemma addJob_effect:
  assumes "jobs_ok (jobs s)" and "get_cmd s c = Inr co" and "\<not> built_in_cmd co"
  defines "l \<equiv> non_built_in_cmd (jobs s)"
  defines "k \<equiv> get_empty_place_in_list l"
  obtains e s' where "addJob env c st s = Inr s'" and "k < length l"
    and "non_built_in_cmd (jobs s') = l[k := e]" and "arr (jobs s') = arr (jobs s)"
    and "stoppedd (jobs s') = stoppedd (jobs s) @ (if st then [stopped_copy e] else [])"
    and "j_id e = get_max_job_id (jobs s) + 1" and "cmd e = c"
    and "p_id e = p_id (l ! k)" and "jtime e = now env (tick s)"
    and "j_status e = (if st then Stopped else Background)"
    and "s' = s\<lparr>jobs := jobs s'\<rparr>"
proof -
  have "0 < length l" using assms(1) by (simp add: l_def jobs_ok_def JOBS_MAX_AMOUNT_def)
  then have len: "k < length l" using empty_place_bound [of l] by (simp add: k_def)
  have "ids_ok (non_built_in_cmd (jobs s))" using assms(1) by (simp add: jobs_ok_def)
  then have mx: "get_max_job_id ((jobs s)\<lparr>non_built_in_cmd := l[k := (l ! k)\<lparr>j_status :=
      (if st then Stopped else Background), cmd := c, jtime := now env (tick s)\<rparr>]\<rparr>) = get_max_job_id (jobs s)"
    using len unfolding l_def by (intro get_max_update) simp_all
  define e where "e = (l ! k)\<lparr>j_status := (if st then Stopped else Background), cmd := c,
      jtime := now env (tick s), j_id := get_max_job_id (jobs s) + 1\<rparr>"
  let ?jl = "(jobs s)\<lparr>non_built_in_cmd := l[k := e]\<rparr>"
  let ?s = "s\<lparr>jobs := (if st then ?jl\<lparr>stoppedd := stoppedd ?jl @ [stopped_copy e]\<rparr> else ?jl)\<rparr>"
  have run: "addJob env c st s = Inr ?s"
    using len assms(2,3) mx [unfolded l_def k_def]
    by (cases st) (simp_all add: addJob_def l_def k_def e_def Let_def)
  show thesis by (rule that [OF run len, of e]) (simp_all add: e_def)
qed

lemma entry_of_update:
  assumes "ids_ok l" and "k < length l" and "0 < j_id e" and "\<forall>x \<in> set l. j_id x \<noteq> j_id e"
    and "j_status e \<noteq> Empty"
  shows "entry_of (l[k := e]) = ((entry_of l)(j_id (l ! k) := None))(j_id e \<mapsto> e)"
proof
  fix i
  have ok: "ids_ok (l[k := e])" using assms by (intro ids_ok_update) auto
  show "entry_of (l[k := e]) i = (((entry_of l)(j_id (l ! k) := None))(j_id e \<mapsto> e)) i"
  proof (cases "entry_of (l[k := e]) i")
    case None
    then have no: "i \<le> 0 \<or> (\<forall>j < length l. j_id (l[k := e] ! j) \<noteq> i)" by (simp add: entry_of_None)
    then have "i \<noteq> j_id e" using assms(2,3) by (auto dest: spec [of _ k])
    moreover have "entry_of l i = None" if ne: "i \<noteq> j_id (l ! k)"
    proof -
      have "j_id (l ! j) \<noteq> i" if "j < length l" "0 < i" for j
        using no ne that by (cases "j = k") (auto dest: spec [of _ j])
      then show ?thesis unfolding entry_of_None by (cases "0 < i") auto
    qed
    ultimately show ?thesis using None by auto
  next
    case (Some x)
    then obtain j where j: "0 < i" "j < length l" "l[k := e] ! j = x" "j_id x = i"
      using entry_of_Some [OF ok] by auto
    then show ?thesis
    proof (cases "j = k")
      case False
      then have "l ! j = x" using j by simp
      then have "entry_of l i = Some x" using j entry_of_nth [OF assms(1) j(2)] by simp
      moreover have "i \<noteq> j_id (l ! k)" using ids_okD [OF assms(1) j(2) assms(2)] j False \<open>l ! j = x\<close> by auto
      moreover have "i \<noteq> j_id e" using assms(4) j nth_mem [OF j(2)] \<open>l ! j = x\<close> by auto
      ultimately show ?thesis using Some by simp
    qed (use assms(2) Some in auto)
  qed
qed

lemma entry_of_same_id:
  assumes "ids_ok l" and "k < length l" and "0 < j_id (l ! k)" and "j_id e = j_id (l ! k)"
    and "j_status e \<noteq> Empty"
  shows "entry_of (l[k := e]) = (entry_of l)(j_id e \<mapsto> e)"
proof
  fix i
  have ok: "ids_ok (l[k := e])" using assms by (intro ids_ok_update) auto
  show "entry_of (l[k := e]) i = ((entry_of l)(j_id e \<mapsto> e)) i"
  proof (cases "i = j_id e")
    case True
    then show ?thesis using entry_of_nth [OF ok, of k] assms by simp
  next
    case False
    then have "(\<exists>j < length l. l[k := e] ! j = x \<and> j_id x = i) \<longleftrightarrow> (\<exists>j < length l. l ! j = x \<and> j_id x = i)" for x
      using assms(2,4) by (metis nth_list_update_eq nth_list_update_neq)
    then have "entry_of (l[k := e]) i = Some x \<longleftrightarrow> entry_of l i = Some x" for x
      by (simp add: entry_of_Some ok assms(1))
    then have "entry_of (l[k := e]) i = entry_of l i" by (metis option.exhaust)
    then show ?thesis using False by simp
  qed
qed

lemma fresh_id:
  "jobs_ok jl \<Longrightarrow> \<forall>x \<in> set (non_built_in_cmd jl). j_id x \<noteq> get_max_job_id jl + 1"
  using max_above [of jl] by (fastforce simp: jobs_ok_def)

lemma addJob_ok:
  assumes "jobs_ok (jobs s)" and "addJob env c st s = Inr s'"
  shows "jobs_ok (jobs s')"
proof -
  obtain co where co: "get_cmd s c = Inr co"
    using assms(2) by (auto simp: addJob_def result_simps)
  show ?thesis
  proof (cases "built_in_cmd co")
    case True
    then show ?thesis
      using assms co by (auto simp: addJob_def Let_def jobs_ok_def split: if_splits)
  next
    case False
    then show ?thesis
    proof (rule addJob_effect [OF assms(1) co, of env st])
      fix e s''
      assume e: "addJob env c st s = Inr s''"
        "non_built_in_cmd (jobs s'') = (non_built_in_cmd (jobs s))[get_empty_place_in_list (non_built_in_cmd (jobs s)) := e]"
        "arr (jobs s'') = arr (jobs s)" "j_id e = get_max_job_id (jobs s) + 1"
        "j_status e = (if st then Stopped else Background)"
      then have "ids_ok (non_built_in_cmd (jobs s''))"
        using assms(1) fresh_id [OF assms(1)] get_max_job_id_bounds(1) [of "jobs s"]
        by (auto simp: jobs_ok_def intro!: ids_ok_update split: if_splits)
      then show ?thesis using e assms by (simp add: jobs_ok_def)
    qed
  qed
qed

lemma addJob_table:
  assumes "jobs_ok (jobs s)" and "get_cmd s c = Inr co" and "\<not> built_in_cmd co"
  defines "l \<equiv> non_built_in_cmd (jobs s)"
  shows "\<exists>s' e. addJob env c st s = Inr s' \<and> jobs_ok (jobs s') \<and>
     j_id e = get_max_job_id (jobs s) + 1 \<and> cmd e = c \<and> p_id e = p_id (l ! get_empty_place_in_list l) \<and>
     j_status e = (if st then Stopped else Background) \<and>
     (\<forall>n. job_table (jobs s) n \<noteq> None \<longrightarrow> n < j_id e) \<and>
     job_table (jobs s') =
       (if \<exists>x \<in> set l. j_status x = Empty then job_table (jobs s)
        else (job_table (jobs s))(j_id (l ! 0) := None))(j_id e \<mapsto> e)"
proof (rule addJob_effect [OF assms(1-3), of env st])
  fix e s'
  let ?k = "get_empty_place_in_list (non_built_in_cmd (jobs s))"
  assume run: "addJob env c st s = Inr s'" and k: "?k < length (non_built_in_cmd (jobs s))"
    and e: "non_built_in_cmd (jobs s') = (non_built_in_cmd (jobs s))[?k := e]"
      "j_id e = get_max_job_id (jobs s) + 1" "cmd e = c" "p_id e = p_id (non_built_in_cmd (jobs s) ! ?k)"
      "j_status e = (if st then Stopped else Background)"
  have ok: "ids_ok l" using assms(1) by (simp add: l_def jobs_ok_def)
  have "job_table (jobs s') = ((job_table (jobs s))(j_id (l ! ?k) := None))(j_id e \<mapsto> e)"
    using entry_of_update [OF ok k [folded l_def], of e] e fresh_id [OF assms(1)]
      get_max_job_id_bounds(1) [of "jobs s"] by (simp add: job_table_def l_def)
  moreover have "(job_table (jobs s))(j_id (l ! ?k) := None) =
      (if \<exists>x \<in> set l. j_status x = Empty then job_table (jobs s)
       else (job_table (jobs s))(j_id (l ! 0) := None))"
  proof (cases "\<exists>x \<in> set l. j_status x = Empty")
    case True
    then have "j_id (l ! ?k) = 0"
      using empty_place_empty [of l] ids_ok_empty [OF ok] k by (auto simp: l_def)
    then have "job_table (jobs s) (j_id (l ! ?k)) = None" by (simp add: job_table_def entry_of_def)
    then show ?thesis using True by (metis fun_upd_triv)
  next
    case False
    then have "find_index (\<lambda>x. j_status x = Empty) l = None" by (simp add: find_index_None)
    then have "?k = 0" by (simp add: get_empty_place_in_list_def l_def)
    then show ?thesis using False by simp
  qed
  moreover have "n < j_id e" if "job_table (jobs s) n \<noteq> None" for n
  proof -
    from that obtain x where "job_table (jobs s) n = Some x" by auto
    then have "x \<in> set l" "j_id x = n" using entry_of_mem [of l n x] by (auto simp: job_table_def l_def)
    then show ?thesis using max_above [of "jobs s" x] e(2) ok by (simp add: l_def)
  qed
  ultimately show ?thesis
    using run e addJob_ok [OF assms(1) run] unfolding l_def by auto
qed


text \<open>
  C18. \<open>addJob\<close> enters a job under a number larger than all numbers in use, which is the previous
  maximum plus one. With a free entry the table of jobs gains exactly this job; when all
  150 entries are taken, the job in the first entry is lost for it. The entry takes over the
  process number its place had before.
\<close>

theorem addJob_refines:
  assumes "jobs_ok (jobs s)" and "get_cmd s c = Inr co" and "\<not> built_in_cmd co"
  defines "l \<equiv> non_built_in_cmd (jobs s)"
  shows "\<exists>s' e. addJob env c st s = Inr s' \<and> jobs_ok (jobs s') \<and>
     j_id e = get_max_job_id (jobs s) + 1 \<and> cmd e = c \<and> p_id e = p_id (l ! get_empty_place_in_list l) \<and>
     j_status e = (if st then Stopped else Background) \<and>
     (\<forall>n. job_table (jobs s) n \<noteq> None \<longrightarrow> n < j_id e) \<and>
     job_table (jobs s') =
       (if \<exists>x \<in> set l. j_status x = Empty then job_table (jobs s)
        else (job_table (jobs s))(j_id (l ! 0) := None))(j_id e \<mapsto> e)"
  using addJob_table [OF assms(1-3)] unfolding l_def .

text \<open>The list at the start.\<close>

lemma new_JobsList_ok [simp]: "jobs_ok new_JobsList"
  by (auto simp: jobs_ok_def new_JobsList_def ids_ok_def empty_entry_def JOBS_MAX_AMOUNT_def)

lemma new_JobsList_table [simp]: "job_table new_JobsList = Map.empty"
  by (auto simp: job_table_def entry_of_def new_JobsList_def empty_entry_def find_None_iff fun_eq_iff)

lemma new_JobsList_max [simp]: "get_max_job_id new_JobsList = 0"
proof -
  have "foldl (\<lambda>r e. if j_status e \<noteq> Empty then (if r > j_id e then r else j_id e) else r) (0::int)
      (replicate n empty_entry) = 0" for n
    by (induction n) (simp_all add: empty_entry_def)
  then show ?thesis by (simp add: get_max_job_id_def new_JobsList_def)
qed

lemma new_JobsList_empty [simp]: "x \<in> set (non_built_in_cmd new_JobsList) \<longleftrightarrow> x = empty_entry"
  by (auto simp: new_JobsList_def JOBS_MAX_AMOUNT_def)

definition new_command :: "command_class \<Rightarrow> string \<Rightarrow> Command" where
  "new_command k line = \<lparr>cls = k, entered_cmd = line, optional_arg = False, built_in_cmd = False,
     background_cmd = False, cargs = [], jlist = False, lastD = None, INVALID_ARG = False,
     Job_id_in = True, too_many_args = False, OLDPWD_null = False, listempty = False\<rparr>"

text \<open>The constructor \<open>SmallShell::SmallShell\<close>.\<close>

definition new_SmallShell :: "string \<Rightarrow> shell" where
  "new_SmallShell dir = \<lparr>jobs = new_JobsList, newlen = ''smash'', for_pid = -1, curr_cmd = None,
     for_cmd = None, LASTD = '''', cmds = [], cwd = dir, stdout_to = Terminal,
     stderr_to = Terminal_err, stdin_from = Terminal, written = (\<lambda>_. ''''), sent = [], spawned = [], tick = 0\<rparr>"

text \<open>A system in which every call succeeds and no process ever ends.\<close>

definition calm_env :: sh_env where
  "calm_env = \<lparr>now = int, fork_rc = (\<lambda>_. 100), kill_rc = (\<lambda>_ _ _. 0), waitpid_nohang = (\<lambda>_ _. 0),
     waitpid_rc = (\<lambda>_. Some 100), keys = (\<lambda>_. []), chdir_to = (\<lambda>_ d. Some d),
     open_rd = (\<lambda>_ _. True), read_rc = (\<lambda>_ _. Eof), patience = 1, creatable = (\<lambda>_ _. True), exec_ok = True, mypid = 10, strerror = ''Success''\<rparr>"

theorem addJob_refines_witness:
  "\<exists>s' e. addJob calm_env (Some 0) False
       ((new_SmallShell ''/'')\<lparr>cmds := [new_command ExternalCommand ''sleep 5&'']\<rparr>) = Inr s' \<and>
     j_id e = 1 \<and> j_status e = Background \<and> job_table (jobs s') = [1 \<mapsto> e]"
proof -
  let ?s = "(new_SmallShell ''/'')\<lparr>cmds := [new_command ExternalCommand ''sleep 5&'']\<rparr>"
  have "get_cmd ?s (Some 0) = Inr (new_command ExternalCommand ''sleep 5&'')"
    by (simp add: get_cmd_def)
  from addJob_refines [OF _ this, of calm_env False] show ?thesis
    by (auto simp: new_SmallShell_def new_command_def empty_entry_def)
qed

section \<open>Removing jobs\<close>

text \<open>
  Sweeping through a table by positions: each step may remove the entry at its position, and
  leaves the entries at the other positions alone.
\<close>

locale swept_table =
  fixes inv :: "'s \<Rightarrow> bool"
    and tab :: "'s \<Rightarrow> int \<Rightarrow> 'e option"
    and at :: "'s \<Rightarrow> nat \<Rightarrow> 'e option"
    and step :: "nat \<Rightarrow> 's \<Rightarrow> 's"
    and ripe :: "'e \<Rightarrow> bool"
    and key :: "'e \<Rightarrow> int"
    and size_of :: nat
  assumes step_inv: "inv s \<Longrightarrow> inv (step k s)"
    and step_tab: "inv s \<Longrightarrow> k < size_of \<Longrightarrow> tab (step k s) =
      (case at s k of Some e \<Rightarrow> if ripe e then (tab s)(key e := None) else tab s | None \<Rightarrow> tab s)"
    and step_at: "inv s \<Longrightarrow> k < size_of \<Longrightarrow> j \<noteq> k \<Longrightarrow> at (step k s) j = at s j"
begin

lemma sweep_inv: "inv s \<Longrightarrow> inv (fold step ks s)"
  by (induction ks arbitrary: s) (auto intro: step_inv)

lemma sweep_tab:
  "inv s \<Longrightarrow> distinct ks \<Longrightarrow> set ks \<subseteq> {..<size_of} \<Longrightarrow> tab (fold step ks s) i =
     (if \<exists>k \<in> set ks. \<exists>e. at s k = Some e \<and> ripe e \<and> key e = i then None else tab s i)"
proof (induction ks arbitrary: s)
  case (Cons k ks)
  then have "at (step k s) j = at s j" if "j \<in> set ks" for j
    using that step_at [of s k j] by auto
  then have "tab (fold step (k # ks) s) i =
      (if \<exists>j \<in> set ks. \<exists>e. at s j = Some e \<and> ripe e \<and> key e = i then None else tab (step k s) i)"
    using Cons.IH [OF step_inv [OF Cons.prems(1)]] Cons.prems(2,3) by simp
  then show ?case
    using step_tab [OF Cons.prems(1), of k] Cons.prems(3) by (auto split: option.splits)
qed simp

end

text \<open>The numbered entry at a position.\<close>

definition at_pos :: "JobsList \<Rightarrow> nat \<Rightarrow> JobEntry option" where
  "at_pos jl k = (let l = non_built_in_cmd jl in
     if k < length l \<and> 0 < j_id (l ! k) then Some (l ! k) else None)"

lemma removeJobById_ok: "jobs_ok jl \<Longrightarrow> jobs_ok (removeJobById n jl)"
  by (auto simp: jobs_ok_def removeJobById_def intro!: ids_ok_map split: if_splits)

lemma entry_of_map_remove:
  "entry_of (map (\<lambda>e. if j_id e = n then e\<lparr>j_status := Empty, j_id := 0\<rparr> else e) l) =
     (entry_of l)(n := None)"
proof
  fix i
  show "entry_of (map (\<lambda>e. if j_id e = n then e\<lparr>j_status := Empty, j_id := 0\<rparr> else e) l) i =
     ((entry_of l)(n := None)) i"
    by (induction l) (auto simp: entry_of_def)
qed

lemma removeJobById_table: "job_table (removeJobById n jl) = (job_table jl)(n := None)"
  by (simp add: job_table_def removeJobById_def entry_of_map_remove)

lemma at_pos_table:
  "jobs_ok jl \<Longrightarrow> (\<exists>k < JOBS_MAX_AMOUNT. at_pos jl k = Some e) \<longleftrightarrow> job_table jl (j_id e) = Some e"
  by (auto simp: at_pos_def jobs_ok_def job_table_def entry_of_Some Let_def split: if_splits)

lemma job_table_id: "job_table jl n = Some e \<Longrightarrow> j_id e = n"
  using entry_of_mem by (simp add: job_table_def)

lemma sweep_other:
  assumes "jobs_ok jl" and "k < JOBS_MAX_AMOUNT" and "j \<noteq> k"
  shows "at_pos (sweep k jl) j = at_pos jl j"
proof -
  let ?l = "non_built_in_cmd jl"
  have "j_id (?l ! j) \<noteq> j_id (?l ! k)" if "j < length ?l" "0 < j_id (?l ! j)"
    using ids_okD [of ?l j k] that assms by (auto simp: jobs_ok_def)
  then show ?thesis
    by (auto simp: at_pos_def sweep_def removeJobById_def Let_def)
qed

interpretation finished_jobs:
  swept_table jobs_ok job_table at_pos sweep "\<lambda>e. j_status e = Finished" j_id JOBS_MAX_AMOUNT
proof
  fix jl k
  assume ok: "jobs_ok jl"
  then show "jobs_ok (sweep k jl)" by (simp add: sweep_def removeJobById_ok Let_def)
next
  fix jl k
  assume ok: "jobs_ok jl" and k: "k < JOBS_MAX_AMOUNT"
  let ?e = "non_built_in_cmd jl ! k"
  have "0 \<le> j_id ?e" using ok k ids_ok_nonneg by (simp add: jobs_ok_def)
  moreover have "job_table jl 0 = None" by (simp add: job_table_def entry_of_def)
  ultimately show "job_table (sweep k jl) = (case at_pos jl k of
      Some e \<Rightarrow> if j_status e = Finished then (job_table jl)(j_id e := None) else job_table jl
    | None \<Rightarrow> job_table jl)"
    using ok k by (auto simp: sweep_def removeJobById_table at_pos_def Let_def jobs_ok_def)
qed (rule sweep_other)

lemma reap_ok: "jobs_ok jl \<Longrightarrow> jobs_ok (jl\<lparr>non_built_in_cmd := map (reap w) (non_built_in_cmd jl)\<rparr>)"
  by (auto simp: jobs_ok_def reap_def intro!: ids_ok_map split: if_splits)

lemma removeFinishedJobs_ok: "jobs_ok (jobs s) \<Longrightarrow> jobs_ok (jobs (removeFinishedJobs env s))"
  by (simp add: removeFinishedJobs_def Let_def finished_jobs.sweep_inv reap_ok)

lemma entry_of_map_reap: "entry_of (map (reap w) l) i = map_option (reap w) (entry_of l i)"
  by (induction l) (auto simp: entry_of_def reap_def)

lemma removeFinishedJobs_table:
  assumes "jobs_ok (jobs s)"
  shows "jobs_ok (jobs (removeFinishedJobs env s)) \<and>
     job_table (jobs (removeFinishedJobs env s)) n =
       (case job_table (jobs s) n of
          None \<Rightarrow> None
        | Some e \<Rightarrow>
            if j_status e = Stopped \<or>
               j_status e = Background \<and> waitpid_nohang env (tick s) (p_id e) = 0
            then Some e else None)"
proof -
  let ?w = "waitpid_nohang env (tick s)"
  let ?jl = "(jobs s)\<lparr>non_built_in_cmd := map (reap ?w) (non_built_in_cmd (jobs s))\<rparr>"
  have ok: "jobs_ok ?jl" using reap_ok [OF assms] .
  have len: "length (non_built_in_cmd (jobs s)) = JOBS_MAX_AMOUNT" using assms by (simp add: jobs_ok_def)
  have tab: "job_table ?jl n = map_option (reap ?w) (job_table (jobs s) n)"
    by (simp add: job_table_def entry_of_map_reap)
  have due: "(\<exists>k \<in> {0..<JOBS_MAX_AMOUNT}. \<exists>e. at_pos ?jl k = Some e \<and> j_status e = Finished \<and> j_id e = n)
      \<longleftrightarrow> (\<exists>e. job_table ?jl n = Some e \<and> j_status e = Finished)"
    using at_pos_table [OF ok] job_table_id [of ?jl n] by (metis atLeastLessThan_iff le0)
  have "job_table (jobs (removeFinishedJobs env s)) n =
      (if \<exists>e. job_table ?jl n = Some e \<and> j_status e = Finished then None else job_table ?jl n)"
    using finished_jobs.sweep_tab [OF ok, of "[0..<JOBS_MAX_AMOUNT]" n] len due
    by (simp add: removeFinishedJobs_def Let_def lessThan_atLeast0)
  moreover have "j_status e \<noteq> Empty" if "job_table (jobs s) n = Some e" for e
    using that assms entry_of_mem [of _ n e] by (fastforce simp: job_table_def jobs_ok_def ids_ok_def)
  ultimately show ?thesis
    using removeFinishedJobs_ok [OF assms] tab
    by (cases "job_table (jobs s) n"; cases "j_status (the (job_table (jobs s) n))")
      (auto simp: reap_def)
qed


text \<open>
  C19. \<open>removeFinishedJobs\<close> keeps exactly the stopped jobs and the background jobs that are still
  running; every other job is gone, and a job that stays is unchanged.
\<close>

theorem removeFinishedJobs_refines:
  assumes "jobs_ok (jobs s)"
  shows "jobs_ok (jobs (removeFinishedJobs env s)) \<and>
     job_table (jobs (removeFinishedJobs env s)) n =
       (case job_table (jobs s) n of
          None \<Rightarrow> None
        | Some e \<Rightarrow>
            if j_status e = Stopped \<or>
               j_status e = Background \<and> waitpid_nohang env (tick s) (p_id e) = 0
            then Some e else None)"
  using removeFinishedJobs_table [OF assms] .

text \<open>A shell with one background job.\<close>

definition one_job :: JobsList where
  "one_job = new_JobsList\<lparr>non_built_in_cmd := (non_built_in_cmd new_JobsList)
     [0 := \<lparr>j_status = Background, j_id = 1, p_id = 100, cmd = Some 0, jtime = 0\<rparr>]\<rparr>"

lemma one_job_ok [simp]: "jobs_ok one_job"
  using new_JobsList_ok by (auto simp: jobs_ok_def one_job_def empty_entry_def intro!: ids_ok_update)

lemma one_job_table:
  "job_table one_job 1 = Some \<lparr>j_status = Background, j_id = 1, p_id = 100, cmd = Some 0, jtime = 0\<rparr>"
proof -
  let ?e = "\<lparr>j_status = Background, j_id = 1, p_id = 100, cmd = Some 0, jtime = 0\<rparr>"
  let ?l = "non_built_in_cmd one_job"
  have "?l ! 0 = ?e" "0 < length ?l" by (simp_all add: one_job_def new_JobsList_def JOBS_MAX_AMOUNT_def)
  moreover have "ids_ok ?l" using one_job_ok by (simp add: jobs_ok_def)
  ultimately show ?thesis using entry_of_nth [of ?l 0] by (simp add: job_table_def)
qed

theorem removeFinishedJobs_refines_witness:
  "job_table (jobs (removeFinishedJobs (calm_env\<lparr>waitpid_nohang := (\<lambda>_ p. p)\<rparr>)
     ((new_SmallShell ''/'')\<lparr>jobs := one_job\<rparr>))) 1 = None"
  using removeFinishedJobs_refines [of "(new_SmallShell ''/'')\<lparr>jobs := one_job\<rparr>"
      "calm_env\<lparr>waitpid_nohang := (\<lambda>_ p. p)\<rparr>" 1]
  by (simp add: one_job_table)

section \<open>The other operations keep the invariant\<close>

lemma put_sel [simp]:
  "jobs (put ch t s) = jobs s" "cmds (put ch t s) = cmds s" "for_pid (put ch t s) = for_pid s"
  "for_cmd (put ch t s) = for_cmd s" "curr_cmd (put ch t s) = curr_cmd s" "cwd (put ch t s) = cwd s"
  "LASTD (put ch t s) = LASTD s" "tick (put ch t s) = tick s" "sent (put ch t s) = sent s"
  "newlen (put ch t s) = newlen s" "stdout_to (put ch t s) = stdout_to s"
  by (simp_all add: put_def)

lemma kill_report_sel [simp]:
  "jobs (kill_report env p n s) = jobs s" "cmds (kill_report env p n s) = cmds s"
  "for_pid (kill_report env p n s) = for_pid s" "for_cmd (kill_report env p n s) = for_cmd s"
  "sent (kill_report env p n s) = sent s @ [(p, n)]"
  by (simp_all add: kill_report_def kill_def perror_def cerr_def)

lemma cout_sel [simp]:
  "jobs (cout t s) = jobs s" "cmds (cout t s) = cmds s" "for_pid (cout t s) = for_pid s"
  "for_cmd (cout t s) = for_cmd s" "tick (cout t s) = tick s" "sent (cout t s) = sent s"
  by (simp_all add: cout_def)

lemma jobs_ok_stoppedd [simp]: "jobs_ok (jl\<lparr>stoppedd := x\<rparr>) = jobs_ok jl"
  by (simp add: jobs_ok_def)

lemma set_status_ok:
  "jobs_ok jl \<Longrightarrow> st \<noteq> Empty \<Longrightarrow> i < JOBS_MAX_AMOUNT \<Longrightarrow> jobs_ok (set_status i st jl)"
  using ids_ok_nonneg [of "non_built_in_cmd jl" i]
  by (auto simp: jobs_ok_def set_status_def intro!: ids_ok_update)

lemma getJobById_bound: "jobs_ok jl \<Longrightarrow> getJobById n jl = Some i \<Longrightarrow> i < JOBS_MAX_AMOUNT"
  by (simp add: getJobById_def find_index_Some jobs_ok_def)

lemma unstop_ok: "jobs_ok jl \<Longrightarrow> jobs_ok (unstop n jl)"
  by (simp add: unstop_def jobs_ok_def)

lemma send_SIG_TO_JOB_ok: "jobs_ok (jobs s) \<Longrightarrow> jobs_ok (jobs (send_SIG_TO_JOB env n sig s))"
  using getJobById_bound [of "jobs s" n]
  by (auto simp: send_SIG_TO_JOB_def Let_def set_status_ok unstop_ok split: option.splits)

lemma entry_update_ok:
  assumes "jobs_ok jl" and "i < JOBS_MAX_AMOUNT"
    and "j_id e = j_id (non_built_in_cmd jl ! i)" and "j_status e = j_status (non_built_in_cmd jl ! i)"
  shows "jobs_ok (jl\<lparr>non_built_in_cmd := (non_built_in_cmd jl)[i := e]\<rparr>)"
  using assms ids_ok_nonneg [of "non_built_in_cmd jl" i] ids_ok_empty [of "non_built_in_cmd jl" i]
  by (auto simp: jobs_ok_def intro!: ids_ok_update)

lemma set_name_jobs: "set_name p t s = Inr s' \<Longrightarrow> jobs s' = jobs s"
  by (auto simp: set_name_def result_simps)

lemma set_job_pid_ok:
  assumes "jobs_ok (jobs s)" and "set_job_pid n p t s = Inr s'"
  shows "jobs_ok (jobs s')"
proof -
  obtain i where i: "getJobById n (jobs s) = Some i"
    using assms(2) by (auto simp: set_job_pid_def split: option.splits)
  let ?l = "non_built_in_cmd (jobs s)"
  have "jobs_ok ((jobs s)\<lparr>non_built_in_cmd := ?l[i := (?l ! i)\<lparr>p_id := p\<rparr>]\<rparr>)"
    using getJobById_bound [OF assms(1) i] assms(1) by (intro entry_update_ok) simp_all
  with assms(2) i show ?thesis
    by (auto simp: set_job_pid_def Let_def result_simps split: option.splits
        dest!: set_name_jobs)
qed

lemma SetNewId_ok:
  assumes "jobs_ok (jobs s)" and "SetNewId env n s = Inr s'"
  shows "jobs_ok (jobs s')"
proof -
  obtain i where i: "getJobById n (jobs s) = Some i"
    using assms(2) by (auto simp: SetNewId_def split: option.splits)
  let ?l = "non_built_in_cmd (jobs s)"
  have "jobs_ok ((jobs s)\<lparr>non_built_in_cmd := ?l[i := (?l ! i)\<lparr>jtime := now env (tick s)\<rparr>]\<rparr>)"
    using getJobById_bound [OF assms(1) i] assms(1) by (intro entry_update_ok) simp_all
  with assms(2) i show ?thesis
    by (auto simp: SetNewId_def Let_def)
qed

lemma print_entry_jobs: "print_entry env job s = Inr s' \<Longrightarrow> jobs s' = jobs s"
  by (auto simp: print_entry_def result_simps)

lemma print_ids_jobs: "print_ids env is s = Inr s' \<Longrightarrow> jobs s' = jobs s"
  by (induction env "is" s rule: print_ids.induct)
    (auto simp: Let_def result_simps split: option.splits if_splits dest: print_entry_jobs)

lemma print_job_jobs: "print_job n s = Inr s' \<Longrightarrow> jobs s' = jobs s"
  by (auto simp: print_job_def Let_def result_simps split: option.splits)

lemma print_killed_jobs: "print_killed js s = Inr s' \<Longrightarrow> jobs s' = jobs s"
  by (induction js s rule: print_killed.induct) (auto simp: result_simps split: if_splits)

lemma printJobsList_ok: "jobs_ok (jobs s) \<Longrightarrow> printJobsList env s = Inr s' \<Longrightarrow> jobs_ok (jobs s')"
  using print_ids_jobs removeFinishedJobs_ok unfolding printJobsList_def by metis

lemma kill_one_ok: "jobs_ok (jobs s) \<Longrightarrow> jobs_ok (jobs (kill_one env k s))"
  by (auto simp: kill_one_def Let_def jobs_ok_def intro!: ids_ok_update)

lemma killAllJobs_ok:
  assumes "jobs_ok (jobs s)" and "killAllJobs env b s = Inr s'"
  shows "jobs_ok (jobs s')"
proof -
  have "jobs_ok (jobs (fold (kill_one env) ks t))" if "jobs_ok (jobs t)" for ks t
    using that by (induction ks arbitrary: t) (auto intro: kill_one_ok)
  then show ?thesis
    using assms by (auto simp: killAllJobs_def result_simps split: if_splits dest!: print_killed_jobs)
qed

lemmas jobs_ok_intros =
  addJob_ok removeJobById_ok removeFinishedJobs_ok send_SIG_TO_JOB_ok set_job_pid_ok SetNewId_ok
  printJobsList_ok killAllJobs_ok

end
