(* ===== verification/Shell_Signals.thy ===== *)
theory Shell_Signals
  imports Jobs_List
begin

text \<open>
  The handlers of the keyboard signals, \<^verbatim>\<open>signals.cpp\<close>, and the calls of \<open>waitpid\<close> that block,
  during which they run. Handlers run there and while the shell waits for input; a signal in
  the middle of another operation is not modelled.
\<close>

section \<open>Handlers\<close>

text \<open>The loop that marks the first job of the process as stopped.\<close>

definition stop_listed :: "int \<Rightarrow> JobsList \<Rightarrow> JobsList" where
  "stop_listed p jl =
     (case find_index (\<lambda>job. p_id job = p) (non_built_in_cmd jl) of
        None \<Rightarrow> jl
      | Some i \<Rightarrow> (set_status i Stopped jl)\<lparr>stoppedd := stoppedd jl @
                  [stopped_copy (non_built_in_cmd jl ! i)]\<rparr>)"

definition ctrlZHandler :: "sh_env \<Rightarrow> shell \<Rightarrow> shell res" where
  "ctrlZHandler env s =
     (let s0 = cout (''smash: got ctrl-Z'' @ newline) s in
      if for_pid s0 = -1 then Inr s0
      else
        let s1 = kill_report env (for_pid s0) SIGSTOP s0 in
        rbind (if \<not> is_job_pid_in (for_pid s1) (jobs s1)
               then rbind (addJob env (for_cmd s1) True s1) (\<lambda>s2.
                    rbind (getNameCmd s2 (for_cmd s2)) (\<lambda>name.
                      set_job_pid (get_max_job_id (jobs s2)) (for_pid s2) name s2))
               else Inr (s1\<lparr>jobs := stop_listed (for_pid s1) (jobs s1)\<rparr>))
          (\<lambda>s3. Inr ((cout (''smash: process '' @ show_int (for_pid s3) @ '' was stopped'' @ newline) s3)
                     \<lparr>for_pid := -1\<rparr>)))"

definition ctrlCHandler :: "sh_env \<Rightarrow> shell \<Rightarrow> shell" where
  "ctrlCHandler env s =
     (let s0 = cout (''smash: got ctrl-C'' @ newline) s in
      if for_pid s0 = -1 then s0
      else
        let s1 = kill_report env (for_pid s0) SIGKILL s0;
            s2 = s1\<lparr>jobs := (jobs s1)\<lparr>non_built_in_cmd :=
                   map (\<lambda>job. if p_id job = for_pid s1 then job\<lparr>j_status := Finished\<rparr> else job)
                     (non_built_in_cmd (jobs s1))\<rparr>\<rparr>
        in (cout (''smash: process '' @ show_int (for_pid s2) @ '' was killed'' @ newline) s2)
           \<lparr>for_pid := -1\<rparr>)"

definition handle :: "sh_env \<Rightarrow> signal \<Rightarrow> shell \<Rightarrow> shell res" where
  "handle env sig s = (case sig of CtrlZ \<Rightarrow> ctrlZHandler env s | CtrlC \<Rightarrow> Inr (ctrlCHandler env s))"

fun deliver :: "sh_env \<Rightarrow> signal list \<Rightarrow> shell \<Rightarrow> shell res" where
  "deliver env [] s = Inr s"
| "deliver env (k # ks) s = rbind (handle env k s) (deliver env ks)"

text \<open>A point at which the shell is blocked: the signals that arrive are handled.\<close>

definition block :: "sh_env \<Rightarrow> shell \<Rightarrow> shell res" where
  "block env s = deliver env (keys env (tick s)) (s\<lparr>tick := Suc (tick s)\<rparr>)"

section \<open>Facts about the job list\<close>

lemma stop_listed_ok: "jobs_ok jl \<Longrightarrow> jobs_ok (stop_listed p jl)"
  by (auto simp: stop_listed_def find_index_Some set_status_ok jobs_ok_def [of jl]
      intro!: set_status_ok split: option.splits)

lemma mark_finished_ok:
  "jobs_ok jl \<Longrightarrow> jobs_ok (jl\<lparr>non_built_in_cmd :=
     map (\<lambda>job. if P job then job\<lparr>j_status := Finished\<rparr> else job) (non_built_in_cmd jl)\<rparr>)"
  by (auto simp: jobs_ok_def intro!: ids_ok_map split: if_splits)

lemma ctrlZHandler_ok: "jobs_ok (jobs s) \<Longrightarrow> ctrlZHandler env s = Inr s' \<Longrightarrow> jobs_ok (jobs s')"
  by (auto simp: ctrlZHandler_def Let_def result_simps split: if_splits intro: stop_listed_ok
      dest!: addJob_ok [rotated] set_job_pid_ok [rotated])

lemma ctrlCHandler_ok: "jobs_ok (jobs s) \<Longrightarrow> jobs_ok (jobs (ctrlCHandler env s))"
  by (auto simp: ctrlCHandler_def Let_def intro: mark_finished_ok)

lemma deliver_ok: "jobs_ok (jobs s) \<Longrightarrow> deliver env ks s = Inr s' \<Longrightarrow> jobs_ok (jobs s')"
  by (induction ks arbitrary: s)
    (auto simp: result_simps handle_def split: signal.splits dest: ctrlZHandler_ok ctrlCHandler_ok)

lemma block_ok: "jobs_ok (jobs s) \<Longrightarrow> block env s = Inr s' \<Longrightarrow> jobs_ok (jobs s')"
  unfolding block_def by (rule deliver_ok) auto

end
