(* ===== verification/Shell_Commands.thy ===== *)
theory Shell_Commands
  imports Shell_Signals
begin

text \<open>
  The commands of the shell, \<^verbatim>\<open>Commands.cpp\<close>, and its main loop, \<^verbatim>\<open>smash.cpp\<close>: the creation of
  a command object from a line, one \<open>execute\<close> per class, \<open>executeCommand\<close>. The object under
  construction is a value; \<open>executeCommand\<close> puts it into the object array. The answer 0 of
  \<open>fork\<close> selects the branch of the child process. Standard output is a terminal, so that text is
  written line by line; writes neither fail nor block, \<open>dup\<close> and \<open>close\<close> of valid descriptors
  succeed, and the current directory always has a name.
\<close>

section \<open>Numbers\<close>

text \<open>The number at the start of a string, if there is a digit.\<close>

definition leading_int :: "string \<Rightarrow> int option" where
  "leading_int s =
     (let t = dropWhile isspace s;
          neg = (t \<noteq> [] \<and> hd t = CHR ''-'');
          u = (if t \<noteq> [] \<and> (hd t = CHR ''-'' \<or> hd t = CHR ''+'') then tl t else t);
          ds = takeWhile isdigit u
      in if ds = [] then None else Some (if neg then - int (read_nat ds) else int (read_nat ds)))"

text \<open>\<open>strtol\<close> saturates; \<open>stoi\<close> throws when there is no number or it does not fit.\<close>

definition strtol :: "string \<Rightarrow> int" where
  "strtol s = (case leading_int s of None \<Rightarrow> 0 | Some i \<Rightarrow> max (- (2 ^ 63)) (min (2 ^ 63 - 1) i))"

definition stoi :: "string \<Rightarrow> int res" where
  "stoi s =
     (case leading_int s of
        None \<Rightarrow> Inl (Uncaught ''invalid_argument'')
      | Some i \<Rightarrow> if i < - (2 ^ 31) \<or> 2 ^ 31 \<le> i then Inl (Uncaught ''out_of_range'') else Inr i)"

text \<open>A \<open>long\<close> passed as an \<open>int\<close>.\<close>

definition long_to_int :: "int \<Rightarrow> int" where
  "long_to_int i = (i + 2 ^ 31) mod 2 ^ 32 - 2 ^ 31"

section \<open>System calls and members\<close>

definition fork :: "sh_env \<Rightarrow> shell \<Rightarrow> int \<times> shell" where
  "fork env s = (fork_rc env (tick s), s\<lparr>tick := Suc (tick s)\<rparr>)"

text \<open>A blocking \<open>waitpid\<close>; the child may never end, and then the call does not return.\<close>

definition waitpid :: "sh_env \<Rightarrow> shell \<Rightarrow> (int \<times> shell) res" where
  "waitpid env s =
     (case waitpid_rc env (tick s) of None \<Rightarrow> Inl Blocked
      | Some rc \<Rightarrow> rbind (block env s) (\<lambda>s'. Inr (rc, s')))"

text \<open>A process was started: it inherits the descriptors of the shell.\<close>

definition spawn :: "string \<Rightarrow> shell \<Rightarrow> shell" where
  "spawn cmd_text s = s\<lparr>spawned := spawned s @ [(cmd_text, stdout_to s, stderr_to s)]\<rparr>"

lemma spawn_sel [simp]:
  "jobs (spawn t s) = jobs s" "cmds (spawn t s) = cmds s" "curr_cmd (spawn t s) = curr_cmd s"
  "for_cmd (spawn t s) = for_cmd s" "for_pid (spawn t s) = for_pid s" "tick (spawn t s) = tick s"
  "stdout_to (spawn t s) = stdout_to s" "stderr_to (spawn t s) = stderr_to s"
  "written (spawn t s) = written s" "sent (spawn t s) = sent s"
  by (simp_all add: spawn_def)

definition chdir :: "sh_env \<Rightarrow> string \<Rightarrow> shell \<Rightarrow> bool \<times> shell" where
  "chdir env d s =
     (case chdir_to env (cwd s) d of None \<Rightarrow> (False, s) | Some d' \<Rightarrow> (True, s\<lparr>cwd := d'\<rparr>))"

text \<open>\<open>args[i]\<close> of a command.\<close>

definition arg :: "Command \<Rightarrow> nat \<Rightarrow> string res" where
  "arg c i = (if i < length (cargs c) then Inr (cargs c ! i) else Inl BadPointer)"

text \<open>A use of the member \<open>list\<close>.\<close>

definition with_list :: "Command \<Rightarrow> 'a res \<Rightarrow> 'a res" where
  "with_list c r = (if jlist c then r else Inl Uninitialised)"

definition is_built_job_in_shell :: "int \<Rightarrow> shell \<Rightarrow> bool" where
  "is_built_job_in_shell job_id s = is_job_id_in job_id (jobs s)"

definition is_Jobs_empty :: "shell \<Rightarrow> bool" where
  "is_Jobs_empty s = is_list_empty (jobs s)"

abbreviation no_amp :: "string \<Rightarrow> string" where "no_amp s \<equiv> erase_char amp s"

section \<open>Creating a command\<close>

text \<open>The constructors of the built-in classes; those that take the job list set \<open>list\<close>.\<close>

definition new_built_in :: "command_class \<Rightarrow> string \<Rightarrow> Command" where
  "new_built_in k line = (new_command k line)\<lparr>built_in_cmd := True,
     jlist := (k \<in> {JobsCommand, KillCommand, QuitCommand, ForegroundCommand, BackgroundCommand})\<rparr>"

definition create_pwd :: "string \<Rightarrow> string list \<Rightarrow> Command" where
  "create_pwd line args = (new_built_in GetCurrDirCommand line)\<lparr>cargs := [args ! 0]\<rparr>"

text \<open>
  \<open>cd\<close>: the directory is tried at once, with the argument as it was typed, to decide whether
  the last directory changes.
\<close>

definition create_cd :: "sh_env \<Rightarrow> string \<Rightarrow> string list \<Rightarrow> shell \<Rightarrow> Command \<times> shell" where
  "create_cd env line args s =
     (let c = (new_built_in ChangeDirCommand line)
              \<lparr>lastD := (if LASTD s \<noteq> [] then Some (LASTD s) else None),
               optional_arg := (1 < length args), too_many_args := (2 < length args),
               cargs := take 2 args\<rparr>;
          dash = (1 < length args \<and> args ! 1 = ''-'')
      in if dash \<and> LASTD s = [] then (c\<lparr>OLDPWD_null := True\<rparr>, s)
         else
           let last = cwd s
           in if dash \<and> LASTD s \<noteq> [] then (c, s\<lparr>LASTD := last\<rparr>)
              else if 1 < length args \<and> \<not> dash then
                (case chdir env (args ! 1) s of
                   (False, s1) \<Rightarrow> (c, s1)
                 | (True, s1) \<Rightarrow> (c, (snd (chdir env last s1))\<lparr>LASTD := last\<rparr>))
              else (c, s))"

definition create_chprompt :: "string \<Rightarrow> string list \<Rightarrow> shell \<Rightarrow> Command \<times> shell" where
  "create_chprompt line args s =
     (let c = (new_built_in ChpromptCommand line)\<lparr>cargs := [args ! 0]\<rparr>
      in (c, s\<lparr>newlen := (if 1 < length args then no_amp (args ! 1) else ''smash'')\<rparr>))"

definition create_showpid :: "string \<Rightarrow> string list \<Rightarrow> Command" where
  "create_showpid line args =
     (case find (\<lambda>w. w \<in> {''>'', ''>>'', ''|'', ''|&''}) args of
        Some w \<Rightarrow>
          if w \<in> {''>'', ''>>''}
          then (new_command RedirectionCommand line)\<lparr>optional_arg := (1 < length args), cargs := args\<rparr>
          else (new_command PipeCommand line)\<lparr>optional_arg := (1 < length args),
                 cargs := args @ [args ! 0]\<rparr>
      | None \<Rightarrow> (new_built_in ShowPidCommand line)\<lparr>cargs := [args ! 0]\<rparr>)"

definition create_jobs :: "string \<Rightarrow> string list \<Rightarrow> Command" where
  "create_jobs line args = (new_built_in JobsCommand line)\<lparr>cargs := [args ! 0]\<rparr>"

definition create_kill :: "string \<Rightarrow> string list \<Rightarrow> shell \<Rightarrow> Command" where
  "create_kill line args s =
     (let c = (new_built_in KillCommand line)\<lparr>cargs := [args ! 0]\<rparr>;
          invalid = c\<lparr>INVALID_ARG := True\<rparr>
      in if 1 < length args \<and> hd (args ! 1) \<noteq> CHR ''-'' then invalid
         else if length args < 3 then invalid
         else if \<not> isNumber (no_amp (args ! 2)) then invalid
         else if \<not> isNumber (erase_char (CHR ''-'') (args ! 1)) then invalid
         else c\<lparr>Job_id_in := is_built_job_in_shell (long_to_int (strtol (args ! 2))) s,
                optional_arg := True,
                INVALID_ARG := list_ex (\<lambda>w. w \<noteq> ''&'') (drop 3 args),
                cargs := cargs c @ drop 1 args\<rparr>)"

definition create_fg :: "string \<Rightarrow> string list \<Rightarrow> shell \<Rightarrow> Command" where
  "create_fg line args s =
     (let c = (new_built_in ForegroundCommand line)
              \<lparr>optional_arg := (1 < length args), cargs := take 2 args\<rparr>
      in if 2 < length args then c\<lparr>INVALID_ARG := True\<rparr>
         else if 1 < length args \<and> \<not> isNumber (no_amp (args ! 1)) then c\<lparr>INVALID_ARG := True\<rparr>
         else
           let c' = (if 1 < length args
                     then c\<lparr>Job_id_in :=
                            is_built_job_in_shell (long_to_int (strtol (no_amp (args ! 1)))) s\<rparr>
                     else c)
           in if \<not> optional_arg c' \<and> is_Jobs_empty s then c'\<lparr>listempty := True\<rparr> else c')"

definition create_bg :: "string \<Rightarrow> string list \<Rightarrow> shell \<Rightarrow> Command" where
  "create_bg line args s =
     (let c = (new_built_in BackgroundCommand line)
              \<lparr>optional_arg := (1 < length args), cargs := take 2 args\<rparr>
      in if 2 < length args then c\<lparr>INVALID_ARG := True\<rparr>
         else if 1 < length args then
           let str = no_amp (args ! 1)
           in if str = [] then c\<lparr>optional_arg := False\<rparr>
              else if \<not> isNumber str then c\<lparr>INVALID_ARG := True\<rparr>
              else c\<lparr>Job_id_in := is_built_job_in_shell (long_to_int (strtol str)) s\<rparr>
         else c)"

definition create_quit :: "string \<Rightarrow> string list \<Rightarrow> Command" where
  "create_quit line args =
     (let c = (new_built_in QuitCommand line)\<lparr>cargs := [args ! 0]\<rparr>
      in if 1 < length args \<and> no_amp (args ! 1) = ''kill''
         then c\<lparr>cargs := cargs c @ [args ! 1], optional_arg := True\<rparr> else c)"

text \<open>The array of words is read at every position of the arguments that \<open>_parseCat\<close> found.\<close>

definition create_cat :: "string \<Rightarrow> string list \<Rightarrow> Command res" where
  "create_cat line args =
     (let as = parseCat line
      in if COMMAND_MAX_ARGS < length as then Inl BadPointer
         else Inr ((new_built_in CatCommand line)\<lparr>cargs := as,
                     optional_arg := list_ex (\<lambda>i. 0 < i \<and> i < length args) [0..<length as]\<rparr>))"

definition create_external :: "string \<Rightarrow> string list \<Rightarrow> Command res" where
  "create_external line args =
     rbind (isBackgroundComamnd line) (\<lambda>bg.
       Inr ((new_command ExternalCommand line)\<lparr>cargs := args, optional_arg := (1 < length args),
              background_cmd := bg\<rparr>))"

text \<open>
  \<open>CreateCommand\<close>: a string is made of the first word before anything else; in a line of blanks
  there is none, and the constructor of \<open>string\<close> throws an exception for the null pointer.
\<close>

definition CreateCommand :: "sh_env \<Rightarrow> string \<Rightarrow> shell \<Rightarrow> (Command \<times> shell) res" where
  "CreateCommand env cmd_line s =
     rbind (parseCommandLine cmd_line) (\<lambda>args.
       if args = [] then Inl (Uncaught ''logic_error'')
       else let line = cstr cmd_line; firstWord = no_amp (hd args) in
         if list_ex (\<lambda>w. w = ''|'' \<or> w = ''|&'') args then
           Inr ((new_command PipeCommand line)\<lparr>optional_arg := True, cargs := args\<rparr>, s)
         else if find_str ''>>'' line \<noteq> None \<or> find_str ''>'' line \<noteq> None then
           Inr (new_command RedirectionCommand line, s)
         else if find_str ''|'' line \<noteq> None \<or> find_str ''|&'' line \<noteq> None then
           Inr (new_command PipeCommand line, s)
         else if firstWord = ''pwd'' then Inr (create_pwd line args, s)
         else if firstWord = ''cd'' then Inr (create_cd env line args s)
         else if firstWord = ''chprompt'' then Inr (create_chprompt line args s)
         else if firstWord = ''showpid'' then Inr (create_showpid line args, s)
         else if firstWord = ''jobs'' then Inr (create_jobs line args, s)
         else if firstWord = ''kill'' then Inr (create_kill line args s, s)
         else if firstWord = ''fg'' then Inr (create_fg line args s, s)
         else if firstWord = ''bg'' then Inr (create_bg line args s, s)
         else if firstWord = ''quit'' then Inr (create_quit line args, s)
         else if firstWord = ''cat'' then rbind (create_cat line args) (\<lambda>c. Inr (c, s))
         else rbind (create_external line args) (\<lambda>c. Inr (c, s)))"

section \<open>Executing a command\<close>

definition ChangeDir_execute :: "sh_env \<Rightarrow> Command \<Rightarrow> shell \<Rightarrow> shell res" where
  "ChangeDir_execute env c s =
     (if \<not> optional_arg c then Inr (perror env ''smash error: chdir failed'' s)
      else if \<not> too_many_args c then
        rbind (arg c 1) (\<lambda>a.
          if a \<noteq> ''-'' then
            (case chdir env (no_amp a) s of
               (True, s1) \<Rightarrow> Inr s1
             | (False, s1) \<Rightarrow> Inr (perror env ''smash error: chdir failed'' s1))
          else if OLDPWD_null c then Inr (cerr (''smash error: cd: OLDPWD not set'' @ newline) s)
          else
            (case lastD c of
               None \<Rightarrow> Inr (perror env ''smash error: chdir failed'' s)
             | Some d \<Rightarrow> Inr (snd (chdir env d s))))
      else Inr (cerr (''smash error: cd: too many arguments'' @ newline) s))"

definition GetCurrDir_execute :: "shell \<Rightarrow> shell res" where
  "GetCurrDir_execute s = Inr (cout (cwd s @ newline) s)"

definition Jobs_execute :: "sh_env \<Rightarrow> Command \<Rightarrow> shell \<Rightarrow> shell res" where
  "Jobs_execute env c s = with_list c (printJobsList env s)"

definition Kill_execute :: "sh_env \<Rightarrow> Command \<Rightarrow> shell \<Rightarrow> shell res" where
  "Kill_execute env c s =
     (if INVALID_ARG c then Inr (cerr (''smash error: kill: invalid arguments'' @ newline) s)
      else
        rbind (arg c 2) (\<lambda>a2.
        rbind (stoi a2) (\<lambda>job_id.
          if \<not> Job_id_in c then
            Inr (cerr (''smash error: kill: job-id '' @ show_int job_id @ '' does not exist'' @ newline) s)
          else
            rbind (arg c 1) (\<lambda>SIG.
            rbind (stoi (erase_char (CHR ''-'') SIG)) (\<lambda>SIGNUM.
              with_list c
                (case getJobById job_id (jobs s) of
                   None \<Rightarrow> Inl NullDeref
                 | Some i \<Rightarrow>
                     Inr (send_SIG_TO_JOB env job_id SIGNUM
                       (cout (''signal number '' @ show_int SIGNUM @ '' was sent to pid '' @
                          show_int (p_id (non_built_in_cmd (jobs s) ! i)) @ newline) s))))))))"

definition Quit_execute :: "sh_env \<Rightarrow> Command \<Rightarrow> shell \<Rightarrow> shell res" where
  "Quit_execute env c s =
     (if optional_arg c then
        rbind (arg c 1) (\<lambda>a.
          if no_amp a = ''kill'' then with_list c (killAllJobs env True s) else Inr s)
      else Inr s)"

text \<open>What \<open>fg\<close> does after the wait: a job that was not stopped is removed.\<close>

definition fg_after :: "sh_env \<Rightarrow> int \<Rightarrow> shell \<Rightarrow> shell res" where
  "fg_after env job_id s =
     (case getJobById job_id (jobs s) of
        None \<Rightarrow> Inr s
      | Some i \<Rightarrow>
          let s1 = (if j_status (non_built_in_cmd (jobs s) ! i) \<noteq> Stopped
                    then s\<lparr>jobs := removeJobById job_id (jobs s)\<rparr> else s)
          in case getJobById job_id (jobs s1) of
               None \<Rightarrow> Inr s1
             | Some k \<Rightarrow> if j_status (non_built_in_cmd (jobs s1) ! k) = Stopped
                         then SetNewId env job_id s1 else Inr s1)"

text \<open>The common part of the two branches of \<open>fg\<close>; the new object is entered as \<open>for_cmd\<close>.\<close>

definition fg_run :: "sh_env \<Rightarrow> int \<Rightarrow> Command \<Rightarrow> shell \<Rightarrow> shell res" where
  "fg_run env job_id c s =
     (case getJobById job_id (jobs s) of
        None \<Rightarrow> Inl NullDeref
      | Some i \<Rightarrow>
          let pid = p_id (non_built_in_cmd (jobs s) ! i)
          in rbind (print_job job_id s) (\<lambda>s1.
             let s2 = send_SIG_TO_JOB env job_id SIGCONT s1;
                 s3 = s2\<lparr>for_pid := pid, cmds := cmds s2 @ [new_command ExternalCommand (entered_cmd c)],
                         for_cmd := Some (length (cmds s2))\<rparr>
             in rbind (waitpid env s3) (\<lambda>(_, s4). fg_after env job_id s4)))"

definition Foreground_execute :: "sh_env \<Rightarrow> Command \<Rightarrow> shell \<Rightarrow> shell res" where
  "Foreground_execute env c s =
     (if listempty c \<and> \<not> optional_arg c \<and> \<not> INVALID_ARG c then
        Inr (cerr (''smash error: fg: jobs list is empty'' @ newline) s)
      else if \<not> optional_arg c \<and> \<not> INVALID_ARG c then
        with_list c (fg_run env (get_max_job_id (jobs s)) c s)
      else if INVALID_ARG c then Inr (cerr (''smash error: fg: invalid arguments'' @ newline) s)
      else
        rbind (arg c 1) (\<lambda>a.
        rbind (stoi (no_amp a)) (\<lambda>job_id.
          if \<not> Job_id_in c then
            Inr (cerr (''smash error: fg: job-id '' @ show_int job_id @ '' does not exist '' @ newline) s)
          else with_list c (fg_run env job_id c s))))"

definition Background_execute :: "sh_env \<Rightarrow> Command \<Rightarrow> shell \<Rightarrow> shell res" where
  "Background_execute env c s =
     (if \<not> optional_arg c \<and> \<not> INVALID_ARG c then
        with_list c
          (case getLastStoppedJob (jobs s) of
             (_, None) \<Rightarrow>
               Inr (cerr (''smash error: bg: there is no stopped jobs to resume'' @ newline) s)
           | (job_id, Some _) \<Rightarrow>
               rbind (print_job job_id s) (\<lambda>s1.
                 let s2 = send_SIG_TO_JOB env job_id SIGCONT s1
                 in case getJobById job_id (jobs s2) of
                      None \<Rightarrow> Inl NullDeref
                    | Some i \<Rightarrow> Inr (s2\<lparr>jobs := set_status i Background (jobs s2)\<rparr>)))
      else if INVALID_ARG c then Inr (cerr (''smash error: bg: invalid arguments'' @ newline) s)
      else
        rbind (arg c 1) (\<lambda>a.
        rbind (stoi (no_amp a)) (\<lambda>job_id.
          if \<not> Job_id_in c then
            Inr (cerr (''smash error: bg: job-id '' @ show_int job_id @ '' does not exist'' @ newline) s)
          else
            with_list c
              (case getJobById job_id (jobs s) of
                 None \<Rightarrow> Inr s
               | Some i \<Rightarrow>
                   if j_status (non_built_in_cmd (jobs s) ! i) = Background then
                     Inr (cerr (''smash error: bg: job-id '' @ show_int job_id @
                       '' is already running in the background'' @ newline) s)
                   else
                     rbind (print_job job_id (send_SIG_TO_JOB env job_id SIGCONT s)) (\<lambda>s1.
                       Inr (s1\<lparr>jobs := set_status i Background (jobs s1)\<rparr>))))))"

definition ShowPid_execute :: "sh_env \<Rightarrow> shell \<Rightarrow> shell res" where
  "ShowPid_execute env s = Inr (cout (''smash pid is '' @ show_int (mypid env) @ newline) s)"

text \<open>
  The copying loop of \<open>cat\<close> on the open file \<open>f\<close>, with the character variable. Each \<open>read\<close> is a
  moment of its own. The loop tests the result of \<open>read\<close> for zero only: after an error it
  writes the old character and goes on. One unit of fuel per read. (The variable has no
  value before the first read; the null character stands for it.)
\<close>

fun cat_loop :: "nat \<Rightarrow> sh_env \<Rightarrow> string \<Rightarrow> char \<Rightarrow> shell \<Rightarrow> shell res" where
  "cat_loop 0 env f c s = Inl OutOfFuel"
| "cat_loop (Suc n) env f c s =
     (case read_rc env (tick s) f of
        Eof \<Rightarrow> Inr (s\<lparr>tick := Suc (tick s)\<rparr>)
      | Got x \<Rightarrow> cat_loop n env f x (cout [x] (s\<lparr>tick := Suc (tick s)\<rparr>))
      | Failed \<Rightarrow> cat_loop n env f c (cout [c] (s\<lparr>tick := Suc (tick s)\<rparr>)))"

text \<open>
  The files in turn. They are never closed; that the descriptors run out is one of the ways in
  which a later \<open>open\<close> may fail.
\<close>

fun cat_files :: "sh_env \<Rightarrow> string list \<Rightarrow> shell \<Rightarrow> shell res" where
  "cat_files env [] s = Inr s"
| "cat_files env (f # fs) s =
     (let s1 = s\<lparr>tick := Suc (tick s)\<rparr> in
      if open_rd env (tick s) f
      then rbind (cat_loop (patience env) env f (CHR 0x00) s1) (cat_files env fs)
      else Inr (perror env ''smash error: open failed'' s1))"

definition Cat_execute :: "sh_env \<Rightarrow> Command \<Rightarrow> shell \<Rightarrow> shell res" where
  "Cat_execute env c s =
     cat_files env (drop 1 (cargs c))
       (if \<not> optional_arg c then cerr (''smash error: cat: not enough arguments'' @ newline) s else s)"

text \<open>
  \<open>ExternalCommand::execute\<close>. The shell enters the new process with the descriptors it inherits;
  what the process then writes is its own affair and not part of the model. In the parent, a background command gives its process number to
  the job with the largest number, which \<open>executeCommand\<close> has just added.
\<close>

definition External_execute :: "sh_env \<Rightarrow> Command \<Rightarrow> shell \<Rightarrow> shell res" where
  "External_execute env c s =
     (let token = no_amp (entered_cmd c); (pid, s1) = fork env s in
      if pid = -1 then Inr (perror env ''smash error: fork failed'' s1)
      else if pid = 0 then
        if exec_ok env then Inl (Replaced (''bash -c '' @ token))
        else Inl (Exited 0 (''smash error: execvp failed: '' @ strerror env @ newline))
      else if \<not> background_cmd c then
        rbind (waitpid env ((spawn token s1)\<lparr>for_pid := pid, for_cmd := curr_cmd s1\<rparr>)) (\<lambda>(_, s2).
          Inr (s2\<lparr>for_pid := -1\<rparr>))
      else
        with_list c
          (case getJobById (get_max_job_id (jobs s1)) (jobs s1) of
             None \<Rightarrow> Inl NullDeref
           | Some i \<Rightarrow>
               let l = non_built_in_cmd (jobs s1)
               in Inr ((spawn token s1)\<lparr>jobs := (jobs s1)\<lparr>non_built_in_cmd := l[i := (l ! i)\<lparr>p_id := pid\<rparr>]\<rparr>\<rparr>)))"

text \<open>
  \<open>RedirectionCommand::execute\<close>; \<open>exec\<close> executes the inner command. When the file cannot be
  opened, standard output stays closed for the inner command.
\<close>

definition Redirection_execute ::
    "(Command \<Rightarrow> shell \<Rightarrow> shell res) \<Rightarrow> sh_env \<Rightarrow> Command \<Rightarrow> shell \<Rightarrow> shell res" where
  "Redirection_execute exec env c s =
     (case redirection_parts (entered_cmd c) of (with_append, inner, outFile) \<Rightarrow>
        let fd = stdout_to s;
            s0 = s\<lparr>tick := Suc (tick s)\<rparr>;
            s1 = (if creatable env (tick s) outFile
                  then s0\<lparr>stdout_to := File outFile,
                          written := (if with_append then written s else (written s)(File outFile := []))\<rparr>
                  else perror env ''smash error: open failed'' (s0\<lparr>stdout_to := Closed\<rparr>))
        in rbind (CreateCommand env inner s1) (\<lambda>(comand, s2).
           rbind (exec comand s2) (\<lambda>s3. Inr (s3\<lparr>stdout_to := fd\<rparr>))))"

text \<open>
  \<open>PipeCommand::execute\<close>: the process that runs the first command, the one that runs the second
  command, and the shell. The text a process leaves in the pipe, or on its standard output, is
  kept with its exit. The second process goes on as a shell when its \<open>waitpid\<close> fails.
\<close>

definition pipe_first ::
    "(Command \<Rightarrow> shell \<Rightarrow> shell res) \<Rightarrow> sh_env \<Rightarrow> Command \<Rightarrow> shell \<Rightarrow> shell res" where
  "pipe_first exec env c s =
     (case pipe_parts (entered_cmd c) of (with_amperc, left_cmd, right_cmd) \<Rightarrow>
        rbind (CreateCommand env left_cmd s) (\<lambda>(cmd_left, s1).
          let s2 = (if \<not> with_amperc then s1\<lparr>stdout_to := Pipe_end\<rparr> else s1\<lparr>stderr_to := Pipe_end\<rparr>)
          in rbind (exec cmd_left s2) (\<lambda>s3. Inl (Exited 0 (written s3 Pipe_end)))))"

definition pipe_second ::
    "(Command \<Rightarrow> shell \<Rightarrow> shell res) \<Rightarrow> sh_env \<Rightarrow> Command \<Rightarrow> shell \<Rightarrow> shell res" where
  "pipe_second exec env c s =
     (case pipe_parts (entered_cmd c) of (with_amperc, left_cmd, right_cmd) \<Rightarrow>
        rbind (CreateCommand env right_cmd (s\<lparr>stdin_from := Pipe_end\<rparr>)) (\<lambda>(cmd_right, s1).
        rbind (exec cmd_right s1) (\<lambda>s2.
        rbind (waitpid env s2) (\<lambda>(rc, s3).
          if rc = -1 then Inr (perror env ''waitpid failed'' s3)
          else Inl (Exited 0 (written s3 (stdout_to s3)))))))"

definition Pipe_execute ::
    "(Command \<Rightarrow> shell \<Rightarrow> shell res) \<Rightarrow> sh_env \<Rightarrow> Command \<Rightarrow> shell \<Rightarrow> shell res" where
  "Pipe_execute exec env c s =
     (case fork env s of (pip_pid, s1) \<Rightarrow>
        if pip_pid = 0 then
          (case fork env s1 of (pid, s2) \<Rightarrow>
             if pid = 0 then pipe_first exec env c s2 else pipe_second exec env c s2)
        else
          rbind (waitpid env (if pip_pid = -1 then s1 else spawn (entered_cmd c) s1)) (\<lambda>(rc, s2).
            Inr (if rc = -1 then perror env ''waitpid failed'' s2 else s2)))"

text \<open>The virtual call \<open>execute\<close>. One unit of fuel per level of commands inside commands.\<close>

fun execute :: "nat \<Rightarrow> sh_env \<Rightarrow> Command \<Rightarrow> shell \<Rightarrow> shell res" where
  "execute 0 env c s = Inl OutOfFuel"
| "execute (Suc n) env c s =
     (case cls c of
        ExternalCommand \<Rightarrow> External_execute env c s
      | PipeCommand \<Rightarrow> Pipe_execute (execute n env) env c s
      | RedirectionCommand \<Rightarrow> Redirection_execute (execute n env) env c s
      | ChangeDirCommand \<Rightarrow> ChangeDir_execute env c s
      | GetCurrDirCommand \<Rightarrow> GetCurrDir_execute s
      | ShowPidCommand \<Rightarrow> ShowPid_execute env s
      | QuitCommand \<Rightarrow> Quit_execute env c s
      | JobsCommand \<Rightarrow> Jobs_execute env c s
      | KillCommand \<Rightarrow> Kill_execute env c s
      | ForegroundCommand \<Rightarrow> Foreground_execute env c s
      | BackgroundCommand \<Rightarrow> Background_execute env c s
      | CatCommand \<Rightarrow> Cat_execute env c s
      | ChpromptCommand \<Rightarrow> Inr s)"

text \<open>
  \<open>executeCommand\<close>. The inner commands of a line are shorter than the line, so that its length
  bounds the nesting.
\<close>

definition executeCommand :: "sh_env \<Rightarrow> string \<Rightarrow> shell \<Rightarrow> (int \<times> shell) res" where
  "executeCommand env cmd_line s =
     rbind (CreateCommand env cmd_line s) (\<lambda>(c, s1).
       let s2 = s1\<lparr>curr_cmd := Some (length (cmds s1)), cmds := cmds s1 @ [c]\<rparr> in
       rbind (if \<not> built_in_cmd c \<and> background_cmd c then addJob env (curr_cmd s2) False s2 else Inr s2)
         (\<lambda>s3.
       rbind (execute (Suc (length cmd_line)) env (c\<lparr>jlist := True\<rparr>) s3) (\<lambda>s4.
       let s5 = s4\<lparr>for_cmd := None, for_pid := -1\<rparr> in
       rbind (if built_in_cmd c then rbind (arg c 0) (\<lambda>a. Inr (no_amp a = ''quit'')) else Inr False)
         (\<lambda>quits.
            if quits then Inr (0, s5) else Inr (1, removeFinishedJobs env s5)))))"

text \<open>
  The main loop, with the lines of the input; after the last one \<open>getline\<close> fails and leaves an
  empty line. One unit of fuel per iteration.
\<close>

fun smash_main :: "nat \<Rightarrow> sh_env \<Rightarrow> string list \<Rightarrow> shell \<Rightarrow> (int \<times> shell) res" where
  "smash_main 0 env input s = Inl OutOfFuel"
| "smash_main (Suc n) env input s =
     rbind (block env (cout (newlen s @ ''> '') s)) (\<lambda>s1.
       let cmd_line = (case input of [] \<Rightarrow> [] | l # _ \<Rightarrow> l)
       in if cmd_line = [] then smash_main n env (drop 1 input) s1
          else rbind (executeCommand env cmd_line s1) (\<lambda>(r, s2).
            if r = 0 then Inr (1, s2) else smash_main n env (drop 1 input) s2))"

end
