(* ===== verification/Shell_Inv.thy ===== *)
theory Shell_Inv
  imports Shell_Commands
begin

text \<open>
  What holds in every state of the shell, whatever the lines, the answers of the system and the
  signals: the job list is well formed, and standard output is where it was before a command.
\<close>

section \<open>Standard output\<close>

text \<open>The operations on jobs and the handlers leave the descriptors alone.\<close>

lemma put_fds [simp]: "stderr_to (put ch t s) = stderr_to s" "stdin_from (put ch t s) = stdin_from s"
  by (simp_all add: put_def)

lemma cout_fds [simp]: "stdout_to (cout t s) = stdout_to s"
  by (simp add: cout_def)

lemma perror_sel [simp]: "jobs (perror env t s) = jobs s" "stdout_to (perror env t s) = stdout_to s"
  by (simp_all add: perror_def cerr_def)

lemma cerr_sel [simp]: "jobs (cerr t s) = jobs s" "stdout_to (cerr t s) = stdout_to s"
  by (simp_all add: cerr_def)

lemma kill_report_fds [simp]: "stdout_to (kill_report env p n s) = stdout_to s"
  by (simp add: kill_report_def kill_def)

lemma send_SIG_fds [simp]: "stdout_to (send_SIG_TO_JOB env n sig s) = stdout_to s"
  by (simp add: send_SIG_TO_JOB_def Let_def split: option.splits)

lemma removeFinishedJobs_fds [simp]: "stdout_to (removeFinishedJobs env s) = stdout_to s"
  by (simp add: removeFinishedJobs_def Let_def)

lemma addJob_fds: "addJob env c st s = Inr s' \<Longrightarrow> stdout_to s' = stdout_to s"
  by (auto simp: addJob_def Let_def result_simps split: if_splits)

lemma set_name_fds: "set_name p t s = Inr s' \<Longrightarrow> stdout_to s' = stdout_to s"
  by (auto simp: set_name_def result_simps)

lemma set_job_pid_fds: "set_job_pid n p t s = Inr s' \<Longrightarrow> stdout_to s' = stdout_to s"
  by (auto simp: set_job_pid_def Let_def result_simps split: option.splits dest!: set_name_fds)

lemma SetNewId_fds: "SetNewId env n s = Inr s' \<Longrightarrow> stdout_to s' = stdout_to s"
  by (auto simp: SetNewId_def Let_def split: option.splits)

lemma print_ids_fds: "print_ids env is s = Inr s' \<Longrightarrow> stdout_to s' = stdout_to s"
  by (induction env "is" s rule: print_ids.induct)
    (auto simp: Let_def result_simps print_entry_def split: option.splits if_splits)

lemma print_job_fds: "print_job n s = Inr s' \<Longrightarrow> stdout_to s' = stdout_to s"
  by (auto simp: print_job_def Let_def result_simps split: option.splits)

lemma print_killed_fds: "print_killed js s = Inr s' \<Longrightarrow> stdout_to s' = stdout_to s"
  by (induction js s rule: print_killed.induct) (auto simp: result_simps split: if_splits)

lemma kill_all_fds: "stdout_to (fold (kill_one env) ks s) = stdout_to s"
  by (induction ks arbitrary: s) (simp_all add: kill_one_def Let_def)

lemma killAllJobs_fds: "killAllJobs env b s = Inr s' \<Longrightarrow> stdout_to s' = stdout_to s"
  by (auto simp: killAllJobs_def result_simps kill_all_fds split: if_splits dest!: print_killed_fds)

section \<open>The invariant\<close>

definition sh_inv :: "chan \<Rightarrow> shell \<Rightarrow> bool" where
  "sh_inv fd s \<longleftrightarrow> stdout_to s = fd \<and> jobs_ok (jobs s)"

lemma sh_inv_same:
  "stdout_to s' = stdout_to s \<Longrightarrow> jobs s' = jobs s \<Longrightarrow> sh_inv fd s' = sh_inv fd s"
  by (simp add: sh_inv_def)

lemma sh_inv_simps [simp]:
  "sh_inv fd (cout t s) = sh_inv fd s" "sh_inv fd (cerr t s) = sh_inv fd s"
  "sh_inv fd (perror env t s) = sh_inv fd s" "sh_inv fd (kill_report env p n s) = sh_inv fd s"
  "sh_inv fd (s\<lparr>tick := k\<rparr>) = sh_inv fd s" "sh_inv fd (s\<lparr>for_pid := p\<rparr>) = sh_inv fd s"
  "sh_inv fd (s\<lparr>for_cmd := q\<rparr>) = sh_inv fd s" "sh_inv fd (s\<lparr>curr_cmd := q\<rparr>) = sh_inv fd s"
  "sh_inv fd (s\<lparr>cmds := cs\<rparr>) = sh_inv fd s" "sh_inv fd (s\<lparr>cwd := d\<rparr>) = sh_inv fd s"
  "sh_inv fd (s\<lparr>LASTD := d\<rparr>) = sh_inv fd s" "sh_inv fd (s\<lparr>newlen := d\<rparr>) = sh_inv fd s"
  "sh_inv fd (s\<lparr>written := w\<rparr>) = sh_inv fd s" "sh_inv fd (s\<lparr>stderr_to := x\<rparr>) = sh_inv fd s"
  "sh_inv fd (s\<lparr>stdin_from := x\<rparr>) = sh_inv fd s" "sh_inv fd (s\<lparr>spawned := y\<rparr>) = sh_inv fd s"
  "sh_inv fd (spawn t s) = sh_inv fd s"
  by (simp_all add: sh_inv_def spawn_def)

lemma sh_inv_redirect: "sh_inv fd s \<Longrightarrow> sh_inv fd' (s\<lparr>stdout_to := fd'\<rparr>)"
  by (simp add: sh_inv_def)

lemma sh_inv_jobs: "sh_inv fd s \<Longrightarrow> jobs_ok jl \<Longrightarrow> sh_inv fd (s\<lparr>jobs := jl\<rparr>)"
  by (simp add: sh_inv_def)

lemma sh_inv_ops:
  "addJob env c st s = Inr s' \<Longrightarrow> sh_inv fd s \<Longrightarrow> sh_inv fd s'"
  "set_job_pid n p t s = Inr s' \<Longrightarrow> sh_inv fd s \<Longrightarrow> sh_inv fd s'"
  "SetNewId env n s = Inr s' \<Longrightarrow> sh_inv fd s \<Longrightarrow> sh_inv fd s'"
  "print_job n s = Inr s' \<Longrightarrow> sh_inv fd s \<Longrightarrow> sh_inv fd s'"
  "killAllJobs env b s = Inr s' \<Longrightarrow> sh_inv fd s \<Longrightarrow> sh_inv fd s'"
  by (auto simp: sh_inv_def dest: addJob_fds set_job_pid_fds SetNewId_fds print_job_fds
      print_job_jobs killAllJobs_fds intro: jobs_ok_intros)

lemma sh_inv_printJobsList: "printJobsList env s = Inr s' \<Longrightarrow> sh_inv fd s \<Longrightarrow> sh_inv fd s'"
  using print_ids_fds [of env _ "removeFinishedJobs env s" s'] printJobsList_ok [of s env s']
  by (auto simp: sh_inv_def printJobsList_def)

lemma sh_inv_send: "sh_inv fd s \<Longrightarrow> sh_inv fd (send_SIG_TO_JOB env n sig s)"
  by (simp add: sh_inv_def send_SIG_TO_JOB_ok)

lemma sh_inv_handle: "handle env k s = Inr s' \<Longrightarrow> sh_inv fd s \<Longrightarrow> sh_inv fd s'"
proof (cases k)
  case CtrlZ
  moreover assume "handle env k s = Inr s'" "sh_inv fd s"
  ultimately show ?thesis
    by (auto simp: handle_def ctrlZHandler_def Let_def result_simps split: if_splits
        dest!: sh_inv_ops(1,2) intro!: sh_inv_jobs stop_listed_ok) (simp add: sh_inv_def)
next
  case CtrlC
  moreover assume "handle env k s = Inr s'" "sh_inv fd s"
  ultimately show ?thesis
    by (auto simp: handle_def sh_inv_def ctrlCHandler_def Let_def intro: mark_finished_ok)
qed

lemma sh_inv_block: "block env s = Inr s' \<Longrightarrow> sh_inv fd s \<Longrightarrow> sh_inv fd s'"
proof -
  have "deliver env ks t = Inr s' \<Longrightarrow> sh_inv fd t \<Longrightarrow> sh_inv fd s'" for ks t
    by (induction ks arbitrary: t) (auto simp: result_simps dest: sh_inv_handle)
  then show "block env s = Inr s' \<Longrightarrow> sh_inv fd s \<Longrightarrow> sh_inv fd s'" by (simp add: block_def)
qed

lemma sh_inv_waitpid: "waitpid env s = Inr (rc, s') \<Longrightarrow> sh_inv fd s \<Longrightarrow> sh_inv fd s'"
  by (auto simp: waitpid_def result_simps dest: sh_inv_block split: option.splits)

lemma sh_inv_chdir: "chdir env d s = (b, s') \<Longrightarrow> sh_inv fd s' = sh_inv fd s"
  by (auto simp: chdir_def split: option.splits)

lemma sh_inv_create_cd: "create_cd env line args s = (c, s') \<Longrightarrow> sh_inv fd s' = sh_inv fd s"
  by (cases "chdir env (args ! 1) s"; cases "chdir env (cwd s) (snd (chdir env (args ! 1) s))")
    (auto simp: create_cd_def Let_def split: if_splits prod.splits bool.splits dest!: sh_inv_chdir)

lemma sh_inv_CreateCommand: "CreateCommand env line s = Inr (c, s') \<Longrightarrow> sh_inv fd s' = sh_inv fd s"
  by (auto simp: CreateCommand_def create_chprompt_def Let_def result_simps split: if_splits
      dest!: sh_inv_create_cd)

section \<open>Commands keep it\<close>

lemma with_list_Inr [simp]: "with_list c r = Inr x \<longleftrightarrow> jlist c \<and> r = Inr x"
  by (simp add: with_list_def)

lemma sh_inv_ChangeDir: "ChangeDir_execute env c s = Inr s' \<Longrightarrow> sh_inv fd s \<Longrightarrow> sh_inv fd s'"
  by (cases "lastD c") (auto simp: ChangeDir_execute_def chdir_def result_simps
      split: if_splits prod.splits bool.splits option.splits)

lemma sh_inv_Kill: "Kill_execute env c s = Inr s' \<Longrightarrow> sh_inv fd s \<Longrightarrow> sh_inv fd s'"
  by (auto simp: Kill_execute_def result_simps split: if_splits option.splits intro!: sh_inv_send)

lemma sh_inv_Quit: "Quit_execute env c s = Inr s' \<Longrightarrow> sh_inv fd s \<Longrightarrow> sh_inv fd s'"
  by (auto simp: Quit_execute_def result_simps split: if_splits dest: sh_inv_ops)

lemma sh_inv_fg_after: "fg_after env n s = Inr s' \<Longrightarrow> sh_inv fd s \<Longrightarrow> sh_inv fd s'"
  by (auto simp: fg_after_def Let_def split: option.splits if_splits
      dest!: sh_inv_ops(3) [where fd = fd] intro!: sh_inv_jobs removeJobById_ok) (simp_all add: sh_inv_def removeJobById_ok)

lemma sh_inv_fg_run:
  assumes "fg_run env n c s = Inr s'" and "sh_inv fd s"
  shows "sh_inv fd s'"
proof -
  obtain i s1 where s1: "getJobById n (jobs s) = Some i" "print_job n s = Inr s1"
    using assms(1) by (auto simp: fg_run_def Let_def result_simps split: option.splits)
  have "sh_inv fd (send_SIG_TO_JOB env n SIGCONT s1)"
    using sh_inv_ops(4) [OF s1(2) assms(2)] by (rule sh_inv_send)
  with s1 assms(1) show ?thesis
    by (auto simp: fg_run_def Let_def result_simps dest!: sh_inv_waitpid [of _ _ _ _ fd] sh_inv_fg_after [of _ _ _ _ fd])
qed

lemma sh_inv_Foreground: "Foreground_execute env c s = Inr s' \<Longrightarrow> sh_inv fd s \<Longrightarrow> sh_inv fd s'"
  by (auto simp: Foreground_execute_def result_simps split: if_splits dest: sh_inv_fg_run)

lemma sh_inv_resume: "sh_inv fd s \<Longrightarrow> i < JOBS_MAX_AMOUNT \<Longrightarrow>
    sh_inv fd (s\<lparr>jobs := set_status i Background (jobs s)\<rparr>)"
  by (simp add: sh_inv_def set_status_ok)

lemma sh_inv_bound: "sh_inv fd s \<Longrightarrow> getJobById n (jobs s) = Some i \<Longrightarrow> i < JOBS_MAX_AMOUNT"
  by (auto simp: sh_inv_def dest: getJobById_bound)

lemma sh_inv_Background: "Background_execute env c s = Inr s' \<Longrightarrow> sh_inv fd s \<Longrightarrow> sh_inv fd s'"
  by (auto simp: Background_execute_def Let_def result_simps split: if_splits option.splits prod.splits
      dest!: sh_inv_ops(4) intro!: sh_inv_resume intro: sh_inv_send sh_inv_bound)

lemma sh_inv_cat_loop: "cat_loop n env f x s = Inr s' \<Longrightarrow> sh_inv fd s \<Longrightarrow> sh_inv fd s'"
  by (induction n env f x s rule: cat_loop.induct) (auto split: read_result.splits)

lemma sh_inv_cat_files: "cat_files env fs s = Inr s' \<Longrightarrow> sh_inv fd s \<Longrightarrow> sh_inv fd s'"
  by (induction fs arbitrary: s)
    (auto simp: result_simps Let_def split: if_splits dest!: sh_inv_cat_loop [where fd = fd])

lemma sh_inv_Cat: "Cat_execute env c s = Inr s' \<Longrightarrow> sh_inv fd s \<Longrightarrow> sh_inv fd s'"
  by (auto simp: Cat_execute_def dest: sh_inv_cat_files split: if_splits)

lemma sh_inv_External: "External_execute env c s = Inr s' \<Longrightarrow> sh_inv fd s \<Longrightarrow> sh_inv fd s'"
  by (auto simp: External_execute_def fork_def Let_def result_simps split: if_splits option.splits
      dest!: sh_inv_waitpid [of _ _ _ _ fd] intro!: sh_inv_jobs entry_update_ok)
    (auto simp: sh_inv_def spawn_def dest: getJobById_bound)

lemma sh_inv_Redirection:
  assumes "\<And>fd c s s'. exec c s = Inr s' \<Longrightarrow> sh_inv fd s \<Longrightarrow> sh_inv fd s'"
    and "Redirection_execute exec env c s = Inr s'" and "sh_inv fd s"
  shows "sh_inv fd s'"
proof -
  obtain ap inner outFile where parts: "redirection_parts (entered_cmd c) = (ap, inner, outFile)"
    by (cases "redirection_parts (entered_cmd c)") auto
  obtain c' s1 s2 s3 fd' where run: "CreateCommand env inner s1 = Inr (c', s2)" "exec c' s2 = Inr s3"
      "s' = s3\<lparr>stdout_to := stdout_to s\<rparr>" and s1: "sh_inv fd' s1"
  proof (cases "creatable env (tick s) outFile")
    case True
    then show thesis
      using assms(2) parts assms(3)
      by (auto simp: Redirection_execute_def Let_def result_simps sh_inv_def intro!: that [where fd' = "File outFile"])
  next
    case False
    then show thesis
      using assms(2) parts assms(3)
      by (auto simp: Redirection_execute_def Let_def result_simps sh_inv_def intro!: that [where fd' = Closed])
  qed
  have "sh_inv fd' s3" using assms(1) [OF run(2)] sh_inv_CreateCommand [OF run(1)] s1 by blast
  then show ?thesis using sh_inv_redirect [of fd' s3 fd] run(3) assms(3) by (simp add: sh_inv_def)
qed

lemma sh_inv_pipe_second:
  assumes "\<And>fd c s s'. exec c s = Inr s' \<Longrightarrow> sh_inv fd s \<Longrightarrow> sh_inv fd s'"
    and "pipe_second exec env c s = Inr s'" and "sh_inv fd s"
  shows "sh_inv fd s'"
  using assms(2,3)
  by (auto simp: pipe_second_def result_simps split: prod.splits if_splits
      dest!: sh_inv_CreateCommand [where fd = fd] assms(1) [where fd = fd] sh_inv_waitpid [where fd = fd])

lemma sh_inv_Pipe:
  assumes "\<And>fd c s s'. exec c s = Inr s' \<Longrightarrow> sh_inv fd s \<Longrightarrow> sh_inv fd s'"
    and "Pipe_execute exec env c s = Inr s'" and "sh_inv fd s"
  shows "sh_inv fd s'"
proof (cases "fork_rc env (tick s) = 0")
  case True
  then have "pipe_second exec env c (s\<lparr>tick := Suc (Suc (tick s))\<rparr>) = Inr s'"
    using assms(2) by (auto simp: Pipe_execute_def fork_def pipe_first_def result_simps Let_def
        split: if_splits prod.splits)
  from sh_inv_pipe_second [OF assms(1) this] assms(3) show ?thesis by simp
next
  case False
  then show ?thesis
    using assms(2,3) by (auto simp: Pipe_execute_def fork_def result_simps split: if_splits
        dest!: sh_inv_waitpid [where fd = fd])
qed

lemma sh_inv_execute: "execute n env c s = Inr s' \<Longrightarrow> sh_inv fd s \<Longrightarrow> sh_inv fd s'"
proof (induction n arbitrary: fd c s s')
  case (Suc n)
  note ih = Suc.IH
  show ?case
  proof (cases "cls c")
    case PipeCommand
    then show ?thesis using Suc.prems sh_inv_Pipe [of "execute n env", OF ih] by simp
  next
    case RedirectionCommand
    then show ?thesis using Suc.prems sh_inv_Redirection [of "execute n env", OF ih] by simp
  qed (use Suc.prems in \<open>auto simp: GetCurrDir_execute_def ShowPid_execute_def Jobs_execute_def
      intro: sh_inv_External sh_inv_ChangeDir sh_inv_Quit sh_inv_printJobsList sh_inv_Kill
        sh_inv_Foreground sh_inv_Background sh_inv_Cat\<close>)
qed simp

lemma sh_inv_executeCommand:
  assumes "executeCommand env line s = Inr (r, s')" and "sh_inv fd s"
  shows "sh_inv fd s'"
proof -
  obtain c s1 where c: "CreateCommand env line s = Inr (c, s1)"
    using assms(1) by (auto simp: executeCommand_def result_simps)
  let ?s2 = "s1\<lparr>curr_cmd := Some (length (cmds s1)), cmds := cmds s1 @ [c]\<rparr>"
  obtain s3 s4 where ex: "(if \<not> built_in_cmd c \<and> background_cmd c then addJob env (curr_cmd ?s2) False ?s2
        else Inr ?s2) = Inr s3" "execute (Suc (length line)) env (c\<lparr>jlist := True\<rparr>) s3 = Inr s4"
      and s': "s' = s4\<lparr>for_cmd := None, for_pid := -1\<rparr> \<or>
        s' = removeFinishedJobs env (s4\<lparr>for_cmd := None, for_pid := -1\<rparr>)"
    using assms(1) c
    by (auto simp: executeCommand_def Let_def result_simps simp del: execute.simps split: if_splits)
  have "sh_inv fd ?s2" using sh_inv_CreateCommand [OF c] assms(2) by simp
  then have "sh_inv fd s3" using ex(1) sh_inv_ops(1) by (auto split: if_splits)
  then have "sh_inv fd s4" using ex(2) sh_inv_execute by blast
  then show ?thesis using s' by (auto simp: sh_inv_def intro: jobs_ok_intros)
qed

section \<open>Sessions\<close>

text \<open>
  The states in which the shell asks for a command. The answers of the system may differ from
  step to step.
\<close>

inductive shell_reachable :: "shell \<Rightarrow> bool" where
  start: "shell_reachable (new_SmallShell dir)"
| command: "shell_reachable s \<Longrightarrow> executeCommand env line s = Inr (1, s') \<Longrightarrow> shell_reachable s'"
| key: "shell_reachable s \<Longrightarrow> handle env k s = Inr s' \<Longrightarrow> shell_reachable s'"

lemma executeCommand_foreground: "executeCommand env line s = Inr (r, s') \<Longrightarrow> for_pid s' = -1"
  by (auto simp: executeCommand_def Let_def result_simps removeFinishedJobs_def
      simp del: execute.simps split: if_splits)

lemma handle_at_prompt: "for_pid s = -1 \<Longrightarrow> handle env k s = Inr s' \<Longrightarrow> jobs s' = jobs s \<and> for_pid s' = -1"
  by (auto simp: handle_def ctrlZHandler_def ctrlCHandler_def Let_def split: signal.splits)

lemma reachable_sh_inv: "shell_reachable s \<Longrightarrow> sh_inv Terminal s \<and> for_pid s = -1"
proof (induction rule: shell_reachable.induct)
  case (start dir)
  then show ?case by (simp add: sh_inv_def new_SmallShell_def)
next
  case (command s env line s')
  then show ?case using sh_inv_executeCommand executeCommand_foreground by blast
next
  case (key s env k s')
  then show ?case using sh_inv_handle handle_at_prompt by blast
qed

text \<open>
  C3. In every session, whatever is typed, whatever the system answers and whichever signals
  arrive: the job list keeps its 150 entries, an empty entry has the number 0, two jobs never
  share a number, standard output leads to the terminal again, and no foreground process is
  recorded while the shell waits for input.
\<close>

theorem session_invariant:
  assumes "shell_reachable s"
  shows "length (non_built_in_cmd (jobs s)) = 150 \<and>
     (\<forall>i < 150. j_status (non_built_in_cmd (jobs s) ! i) = Empty \<longrightarrow> j_id (non_built_in_cmd (jobs s) ! i) = 0) \<and>
     (\<forall>i < 150. \<forall>j < 150. i \<noteq> j \<longrightarrow>
        j_id (non_built_in_cmd (jobs s) ! i) = j_id (non_built_in_cmd (jobs s) ! j) \<longrightarrow>
        j_id (non_built_in_cmd (jobs s) ! i) = 0) \<and>
     stdout_to s = Terminal \<and> for_pid s = -1"
  using reachable_sh_inv [OF assms]
  by (auto simp: sh_inv_def jobs_ok_def ids_ok_def JOBS_MAX_AMOUNT_def)

theorem session_invariant_witness:
  "\<exists>s. executeCommand calm_env ''pwd > f'' (new_SmallShell ''/home'') = Inr (1, s) \<and>
     length (non_built_in_cmd (jobs s)) = 150 \<and> stdout_to s = Terminal \<and> for_pid s = -1"
proof -
  let ?s = "new_SmallShell ''/home''"
  have "is_word ''pwd''" "is_word ''>''" "is_word ''f''" by (simp_all add: is_word_def isspace_def)
  then have words: "parseCommandLine ''pwd > f'' = Inr [''pwd'', ''>'', ''f'']"
      "parseCommandLine ''pwd'' = Inr [''pwd'']"
    using parseCommandLine_join [of "[''pwd'', ''>'', ''f'']"] parseCommandLine_join [of "[''pwd'']"] by simp_all
  have "CreateCommand calm_env ''pwd > f'' t = Inr (new_command RedirectionCommand ''pwd > f'', t)"
    "CreateCommand calm_env ''pwd'' t = Inr (create_pwd ''pwd'' [''pwd''], t)" for t
    by (simp_all add: CreateCommand_def words cstr_def erase_char_def Let_def)
  moreover have "redirection_parts ''pwd > f'' = (False, ''pwd'', ''f'')"
    by (simp add: redirection_parts_def split_at_def rtrim_def ltrim_def cut_background_def)
  ultimately have "\<exists>s'. executeCommand calm_env ''pwd > f'' ?s = Inr (1, s')"
    by (simp add: executeCommand_def Redirection_execute_def new_command_def create_pwd_def
        new_built_in_def GetCurrDir_execute_def Let_def)
  then obtain s' where s': "executeCommand calm_env ''pwd > f'' ?s = Inr (1, s')" by blast
  from session_invariant [OF shell_reachable.command [OF shell_reachable.start s']] s' show ?thesis by blast
qed

section \<open>Faults that do not happen\<close>

text \<open>
  A class of faults that none of the operations on jobs and strings has; the lemmas are proved
  once for any such class, and used for the commands that never return and for the member
  \<open>list\<close> that is read before it is set.
\<close>

definition avoids :: "(abort \<Rightarrow> bool) \<Rightarrow> 'a res \<Rightarrow> bool" where
  "avoids bad m \<longleftrightarrow> (case m of Inl e \<Rightarrow> \<not> bad e | Inr _ \<Rightarrow> True)"

lemma avoids_simps [simp]: "avoids bad (Inr x)" "avoids bad (Inl e) \<longleftrightarrow> \<not> bad e"
  by (simp_all add: avoids_def)

lemma avoids_rbind: "avoids bad m \<Longrightarrow> (\<And>x. m = Inr x \<Longrightarrow> avoids bad (f x)) \<Longrightarrow> avoids bad (rbind m f)"
  by (cases m) auto

text \<open>Every wait returns; every file ends, from any moment on, within the reads allowed.\<close>

definition waits_return :: "sh_env \<Rightarrow> bool" where
  "waits_return env \<longleftrightarrow> (\<forall>t. waitpid_rc env t \<noteq> None)"

definition reads_end :: "sh_env \<Rightarrow> bool" where
  "reads_end env \<longleftrightarrow> (\<forall>f t. \<exists>k < patience env. read_rc env (t + k) f = Eof)"

text \<open>A command that does not use its member \<open>list\<close>, or whose member was set.\<close>

definition listed :: "Command \<Rightarrow> bool" where
  "listed c \<longleftrightarrow> jlist c \<or>
     cls c \<notin> {JobsCommand, KillCommand, QuitCommand, ForegroundCommand, BackgroundCommand} \<and>
     \<not> (cls c = ExternalCommand \<and> background_cmd c)"

lemma cat_loop_reads:
  "\<exists>k < n. read_rc env (tick s + k) f = Eof \<Longrightarrow> \<exists>s'. cat_loop n env f c s = Inr s'"
proof (induction n env f c s rule: cat_loop.induct)
  case (2 n env f c s)
  show ?case
  proof (cases "read_rc env (tick s) f = Eof")
    case False
    then obtain k where "k < n" "read_rc env (Suc (tick s) + k) f = Eof"
      using 2(3) by (metis add_Suc_shift less_Suc_eq_0_disj add.right_neutral)
    with 2(1,2) False show ?thesis by (cases "read_rc env (tick s) f") auto
  qed simp
qed simp

locale avoiding =
  fixes bad :: "abort \<Rightarrow> bool"
  assumes harmless: "\<not> bad NullDeref" "\<not> bad BadPointer" "\<not> bad BufferOverflow"
      "\<not> bad (Uncaught t)" "\<not> bad (Exited i t)" "\<not> bad (Replaced t)"
begin

lemma avoids_get_cmd: "avoids bad (get_cmd s p)"
  by (simp add: get_cmd_def harmless split: option.splits)

lemma avoids_getNameCmd: "avoids bad (getNameCmd s p)"
  by (simp add: getNameCmd_def avoids_rbind avoids_get_cmd)

lemma avoids_addJob: "avoids bad (addJob env c st s)"
  unfolding addJob_def Let_def by (intro avoids_rbind avoids_get_cmd) (simp add: harmless)

lemma avoids_set_name: "avoids bad (set_name p t s)"
  by (simp add: set_name_def avoids_rbind avoids_get_cmd)

lemma avoids_set_job_pid: "avoids bad (set_job_pid n p t s)"
  by (auto simp: set_job_pid_def Let_def harmless intro!: avoids_rbind avoids_set_name split: option.splits)

lemma avoids_SetNewId: "avoids bad (SetNewId env n s)"
  by (simp add: SetNewId_def Let_def harmless split: option.splits)

lemma avoids_print_job: "avoids bad (print_job n s)"
  by (auto simp: print_job_def Let_def harmless intro!: avoids_rbind avoids_getNameCmd split: option.splits)

lemma avoids_print_ids: "avoids bad (print_ids env is s)"
  by (induction env "is" s rule: print_ids.induct)
    (auto simp: Let_def print_entry_def harmless intro!: avoids_rbind avoids_getNameCmd split: option.splits)

lemma avoids_print_killed: "avoids bad (print_killed js s)"
  by (induction js s rule: print_killed.induct) (auto intro!: avoids_rbind avoids_getNameCmd)

lemma avoids_killAllJobs: "avoids bad (killAllJobs env b s)"
  by (auto simp: killAllJobs_def intro!: avoids_rbind avoids_print_killed)

lemma avoids_handle: "avoids bad (handle env k s)"
  by (auto simp: handle_def ctrlZHandler_def Let_def split: signal.splits
      intro!: avoids_rbind avoids_addJob avoids_getNameCmd avoids_set_job_pid)

lemma avoids_waitpid:
  assumes "bad Blocked \<longrightarrow> waits_return env"
  shows "avoids bad (waitpid env s)"
proof (cases "waitpid_rc env (tick s)")
  case None
  then have "\<not> waits_return env" unfolding waits_return_def by blast
  with None assms show ?thesis by (simp add: waitpid_def)
next
  case (Some rc)
  have "avoids bad (deliver env ks t)" for ks t
    by (induction ks arbitrary: t) (auto intro!: avoids_rbind avoids_handle)
  with Some show ?thesis by (simp add: waitpid_def block_def avoids_rbind)
qed

lemma avoids_arg: "avoids bad (arg c i)"
  by (simp add: arg_def harmless)

lemma avoids_stoi: "avoids bad (stoi t)"
  by (simp add: stoi_def harmless split: option.splits)

lemma avoids_with_list: "avoids bad r \<Longrightarrow> (bad Uninitialised \<longrightarrow> jlist c) \<Longrightarrow> avoids bad (with_list c r)"
  by (auto simp: with_list_def)

lemmas avoids_intros =
  avoids_rbind avoids_getNameCmd avoids_addJob avoids_set_job_pid avoids_SetNewId avoids_print_job
  avoids_print_ids avoids_killAllJobs avoids_waitpid avoids_arg avoids_stoi avoids_with_list

lemma avoids_fg_after: "avoids bad (fg_after env n s)"
  by (auto simp: fg_after_def Let_def intro: avoids_intros split: option.splits)

lemma avoids_fg_run: "bad Blocked \<longrightarrow> waits_return env \<Longrightarrow> avoids bad (fg_run env n c s)"
  by (auto simp: fg_run_def Let_def harmless intro!: avoids_intros avoids_fg_after split: option.splits)

lemma avoids_ChangeDir: "avoids bad (ChangeDir_execute env c s)"
  by (auto simp: ChangeDir_execute_def intro!: avoids_intros split: option.splits prod.splits bool.splits)

lemma avoids_External:
  assumes "bad Blocked \<longrightarrow> waits_return env" and "bad Uninitialised \<longrightarrow> background_cmd c \<longrightarrow> jlist c"
  shows "avoids bad (External_execute env c s)"
  using assms by (auto simp: External_execute_def fork_def Let_def harmless intro!: avoids_intros
      split: option.splits)

lemma avoids_listed:
  assumes "bad Uninitialised \<longrightarrow> jlist c"
  shows "avoids bad (Kill_execute env c s)" "avoids bad (Quit_execute env c s)"
    "avoids bad (Background_execute env c s)" "avoids bad (Jobs_execute env c s)"
    "bad Blocked \<longrightarrow> waits_return env \<Longrightarrow> avoids bad (Foreground_execute env c s)"
  using assms
  by (auto simp: Kill_execute_def Quit_execute_def Foreground_execute_def Background_execute_def
      Jobs_execute_def printJobsList_def Let_def harmless intro!: avoids_intros avoids_fg_run
      split: option.splits prod.splits)

lemma avoids_Cat:
  assumes "bad OutOfFuel \<longrightarrow> reads_end env"
  shows "avoids bad (Cat_execute env c s)"
proof -
  have loop: "avoids bad (cat_loop (patience env) env f x t)" for f x t
  proof (cases "bad OutOfFuel")
    case True
    then have "\<exists>k < patience env. read_rc env (tick t + k) f = Eof" using assms by (simp add: reads_end_def)
    from cat_loop_reads [OF this, of x] show ?thesis by auto
  next
    case False
    have "avoids bad (cat_loop n env f x t)" for n
      by (induction n env f x t rule: cat_loop.induct) (auto simp: False split: read_result.splits)
    then show ?thesis .
  qed
  have "avoids bad (cat_files env fs t)" for fs t
    by (induction fs arbitrary: t) (auto simp: Let_def intro!: avoids_rbind loop)
  then show ?thesis by (simp add: Cat_execute_def)
qed

lemma avoids_CreateCommand: "avoids bad (CreateCommand env line s)"
  by (auto simp: CreateCommand_def parseCommandLine_def create_cat_def create_external_def
      isBackgroundComamnd_def Let_def harmless intro!: avoids_rbind)

end

text \<open>The inner commands of a line are shorter than the line.\<close>

lemma is_prefix_length: "is_prefix p s \<Longrightarrow> length p \<le> length s"
  by (induction p s rule: is_prefix.induct) auto

lemma find_str_bound: "find_str p s = Some i \<Longrightarrow> i + length p \<le> length s"
  by (induction p s arbitrary: i rule: find_str.induct)
    (auto split: if_splits dest: is_prefix_length)

lemma length_trims: "length (ltrim s) \<le> length s" "length (rtrim s) \<le> length s"
  using length_dropWhile_le [of "\<lambda>c. c = blank" "rev s"]
  by (simp_all add: ltrim_def rtrim_def length_dropWhile_le)

lemma length_cut: "length (cut_background s) \<le> length s"
  using length_dropWhile_le [of "\<lambda>c. c \<noteq> amp" "rev s"] by (auto simp: cut_background_def)

lemma split_at_shorter:
  "find_str b s \<noteq> None \<Longrightarrow> b \<noteq> [] \<Longrightarrow> split_at b s = (l, r) \<Longrightarrow> length l < length s \<and> length r < length s"
  using find_str_bound [of b s] by (cases "find_str b s"; cases b) (auto simp: split_at_def)

lemma redirection_shorter:
  assumes "find_str ''>'' s \<noteq> None" and "redirection_parts s = (ap, inner, outFile)"
  shows "length inner < length s"
proof -
  let ?b = "if find_str ''>>'' s \<noteq> None then ''>>'' else ''>''"
  obtain l r where lr: "split_at ?b s = (l, r)" by (cases "split_at ?b s") auto
  then have "length l < length s" using split_at_shorter [of ?b s l r] assms(1) by auto
  moreover have "length inner \<le> length l"
    using assms(2) lr length_trims(1) [of "rtrim l"] length_trims(2) [of l]
    by (auto simp: redirection_parts_def Let_def)
  ultimately show ?thesis by simp
qed

lemma pipe_shorter:
  assumes "find_str ''|'' s \<noteq> None" and "pipe_parts s = (am, left, right)"
  shows "length left < length s \<and> length right < length s"
proof -
  let ?b = "if find_str ''|&'' s \<noteq> None then ''|&'' else ''|''"
  obtain l r where lr: "split_at ?b s = (l, r)" by (cases "split_at ?b s") auto
  then have "length l < length s \<and> length r < length s" using split_at_shorter [of ?b s l r] assms(1) by auto
  moreover have "length left \<le> length l"
    using assms(2) lr length_trims(1) [of "rtrim l"] length_trims(2) [of l]
    by (auto simp: pipe_parts_def Let_def)
  moreover have "length right \<le> length r"
    using assms(2) lr length_trims(1) [of "rtrim r"] length_trims(2) [of r]
      length_trims(1) [of "rtrim (cut_background (ltrim (rtrim r)))"]
      length_trims(2) [of "cut_background (ltrim (rtrim r))"] length_cut [of "ltrim (rtrim r)"]
    by (auto simp: pipe_parts_def Let_def)
  ultimately show ?thesis by simp
qed

lemma words_chars: "w \<in> set (words s) \<Longrightarrow> set w \<subseteq> set s"
proof -
  have "w \<in> set (split_words v s) \<Longrightarrow> set w \<subseteq> set v \<union> set s" for v
    by (induction v s rule: split_words.induct) (auto split: if_splits)
  from this [of "[]"] show "w \<in> set (words s) \<Longrightarrow> set w \<subseteq> set s" by (simp add: words_def)
qed

lemma find_str_char: "find_str [c] s = None \<longleftrightarrow> c \<notin> set s"
  by (induction s) auto

text \<open>A redirection has its sign, a pipe its bar.\<close>

definition command_wf :: "Command \<Rightarrow> bool" where
  "command_wf c \<longleftrightarrow> (cls c = RedirectionCommand \<longrightarrow> find_str ''>'' (entered_cmd c) \<noteq> None) \<and>
     (cls c = PipeCommand \<longrightarrow> find_str ''|'' (entered_cmd c) \<noteq> None)"

lemma create_cd_cls: "create_cd env line args s = (c, s') \<Longrightarrow> cls c = ChangeDirCommand"
  by (auto simp: create_cd_def new_built_in_def new_command_def Let_def
      split: if_splits prod.splits bool.splits)

lemma showpid_plain:
  assumes "\<forall>w \<in> set args. set w \<subseteq> set line" and "find_str ''>'' line = None" and "find_str ''|'' line = None"
  shows "cls (create_showpid line args) = ShowPidCommand"
proof -
  have "find (\<lambda>w. w \<in> {''>'', ''>>'', ''|'', ''|&''}) args = None"
    unfolding find_None_iff using assms by (auto simp: find_str_char)
  then show ?thesis by (simp add: create_showpid_def new_built_in_def new_command_def)
qed

lemma parse_chars: "parseCommandLine line = Inr args \<Longrightarrow> \<forall>w \<in> set args. set w \<subseteq> set (cstr line)"
proof -
  have "set (ltrim t) \<subseteq> set t" "set (rtrim t) \<subseteq> set t" for t
    using set_dropWhileD [of _ _ "rev t"] by (auto simp: ltrim_def rtrim_def dest: set_dropWhileD)
  then have "set (trim t) \<subseteq> set t" for t unfolding trim_def by blast
  moreover have "set (cstr t) \<subseteq> set t" for t by (auto simp: cstr_def dest: set_takeWhileD)
  ultimately show "parseCommandLine line = Inr args \<Longrightarrow> \<forall>w \<in> set args. set w \<subseteq> set (cstr line)"
    using words_chars by (fastforce simp: parseCommandLine_def Let_def split: if_splits)
qed

lemma CreateCommand_plain_cls:
  assumes run: "CreateCommand env line s = Inr (c, s')" and "parseCommandLine line = Inr args"
    and bar: "\<not> list_ex (\<lambda>w. w = ''|'' \<or> w = ''|&'') args"
    and none: "find_str ''>'' (cstr line) = None" "find_str ''|'' (cstr line) = None"
  shows "cls c \<noteq> RedirectionCommand \<and> cls c \<noteq> PipeCommand"
proof -
  from none have "CHR ''>'' \<notin> set (cstr line)" "CHR ''|'' \<notin> set (cstr line)" by (simp_all add: find_str_char)
  then have "find_str ''>>'' (cstr line) = None" "find_str ''|&'' (cstr line) = None"
    by (auto simp: find_str_None strstr_iff)
  moreover have "cls (create_showpid (cstr line) args) = ShowPidCommand"
    using showpid_plain [OF parse_chars [OF assms(2)]] none by simp
  ultimately show ?thesis
    using assms
    by (auto simp: CreateCommand_def Let_def result_simps create_pwd_def create_chprompt_def
        create_jobs_def create_kill_def create_fg_def create_bg_def create_quit_def create_cat_def
        create_external_def new_built_in_def new_command_def
        dest!: create_cd_cls split: if_splits)
qed

lemma CreateCommand_wf:
  assumes "CreateCommand env line s = Inr (c, s')"
  shows "command_wf c \<and> ((cls c = RedirectionCommand \<or> cls c = PipeCommand) \<longrightarrow> entered_cmd c = cstr line)"
proof -
  obtain args where args: "parseCommandLine line = Inr args" "args \<noteq> []"
    using assms by (auto simp: CreateCommand_def result_simps split: if_splits)
  let ?l = "cstr line"
  note chars = parse_chars [OF args(1)]
  show ?thesis
  proof (cases "list_ex (\<lambda>w. w = ''|'' \<or> w = ''|&'') args")
    case True
    then have "CHR ''|'' \<in> set ?l" using chars by (fastforce simp: list_ex_iff)
    then have "find_str ''|'' ?l \<noteq> None" by (simp add: find_str_char)
    then show ?thesis
      using True args assms by (auto simp: CreateCommand_def Let_def new_command_def command_wf_def)
  next
    case no_bar: False
    show ?thesis
    proof (cases "find_str ''>'' ?l = None \<and> find_str ''|'' ?l = None")
      case True
      with CreateCommand_plain_cls [OF assms args(1) no_bar]
      have "cls c \<noteq> RedirectionCommand \<and> cls c \<noteq> PipeCommand" by simp
      then show ?thesis by (simp add: command_wf_def)
    next
      case False
      show ?thesis
      proof (cases "find_str ''>'' ?l = None")
        case True
        with False have "CHR ''>'' \<notin> set ?l" by (simp add: find_str_char)
        then have "find_str ''>>'' ?l = None" by (auto simp: find_str_None strstr_iff)
        then show ?thesis
          using assms args no_bar True False
          by (auto simp: CreateCommand_def Let_def new_command_def command_wf_def)
      next
        case gt: False
        then show ?thesis
          using assms args no_bar by (auto simp: CreateCommand_def Let_def new_command_def command_wf_def)
      qed
    qed
  qed
qed

lemma length_cstr: "length (cstr t) \<le> length t"
  by (simp add: cstr_def length_takeWhile_le)

lemma set_cstr: "set (cstr t) \<subseteq> set t"
  by (auto simp: cstr_def dest: set_takeWhileD)

text \<open>The inner commands have no other characters than the line.\<close>

lemma set_trims: "set (ltrim (rtrim t)) \<subseteq> set t"
  using set_dropWhileD [of _ "\<lambda>c. c = blank" "rev t"] by (auto simp: ltrim_def rtrim_def dest: set_dropWhileD)

lemma set_rtrim: "set (rtrim t) \<subseteq> set t"
  using set_dropWhileD [of _ "\<lambda>c. c = blank" "rev t"] by (auto simp: rtrim_def)

lemma set_split_at: "split_at b t = (l, r) \<Longrightarrow> set l \<subseteq> set t \<and> set r \<subseteq> set t"
  by (cases "find_str b t") (auto simp: split_at_def dest: in_set_takeD in_set_dropD)

lemma set_cut: "set (cut_background t) \<subseteq> set t"
proof -
  have "set (tl (dropWhile P u)) \<subseteq> set u" for P and u :: string
    by (metis set_dropWhileD list.set_sel(2) subsetI tl_Nil)
  from this [of _ "rev t"] show ?thesis by (simp add: cut_background_def)
qed

lemma inner_chars:
  "redirection_parts t = (ap, inner, outFile) \<Longrightarrow> set inner \<subseteq> set t"
  "pipe_parts t = (am, left, right) \<Longrightarrow> set left \<subseteq> set t \<and> set right \<subseteq> set t"
proof -
  assume "redirection_parts t = (ap, inner, outFile)"
  then show "set inner \<subseteq> set t"
    using set_trims set_split_at
    by (fastforce simp: redirection_parts_def Let_def split: prod.splits if_splits)
next
  let ?b = "if find_str ''|&'' t \<noteq> None then ''|&'' else ''|''"
  obtain l r where lr: "split_at ?b t = (l, r)" by (cases "split_at ?b t") auto
  let ?u = "ltrim (rtrim r)"
  assume "pipe_parts t = (am, left, right)"
  then have "left = ltrim (rtrim l)" "right = ?u \<or> right = ltrim (rtrim (cut_background ?u))"
    using lr by (auto simp: pipe_parts_def Let_def split: if_splits)
  then show "set left \<subseteq> set t \<and> set right \<subseteq> set t"
    using set_split_at [OF lr] set_trims [of l] set_trims [of r] set_cut [of ?u]
      set_trims [of "cut_background ?u"] by blast
qed

lemma background_sign:
  assumes "isBackgroundComamnd line = Inr True"
  shows "amp \<in> set line"
proof -
  have "rtrim (cstr line) \<noteq> []" "last (rtrim (cstr line)) = amp"
    using assms by (auto simp: isBackgroundComamnd_def Let_def split: if_splits)
  then have "amp \<in> set (rtrim (cstr line))" by (metis last_in_set)
  then show ?thesis using set_rtrim set_cstr by blast
qed

lemma CreateCommand_listed:
  assumes "CreateCommand env line s = Inr (c, s')" and "amp \<notin> set line"
  shows "listed c"
proof -
  have "amp \<notin> set (cstr line)" using set_cstr assms(2) by blast
  then have "listed d" if "create_external (cstr line) as = Inr d" for d as
    using that background_sign by (fastforce simp: create_external_def result_simps listed_def new_command_def)
  moreover have "cls (create_showpid l as) \<in> {RedirectionCommand, PipeCommand, ShowPidCommand}" for l as
    by (auto simp: create_showpid_def new_built_in_def new_command_def split: option.splits)
  then have "listed (create_showpid l as)" for l as
    unfolding listed_def by (metis command_class.distinct insertE singletonD)
  ultimately show ?thesis
    using assms(1)
    by (auto simp: CreateCommand_def Let_def result_simps create_pwd_def create_chprompt_def
        create_jobs_def create_kill_def create_fg_def create_bg_def create_quit_def create_cat_def
        new_built_in_def new_command_def listed_def dest!: create_cd_cls split: if_splits)
qed

text \<open>An execution with enough fuel for the text of the command.\<close>

definition sound_command :: "bool \<Rightarrow> nat \<Rightarrow> Command \<Rightarrow> bool" where
  "sound_command chk n c \<longleftrightarrow> command_wf c \<and> 0 < n \<and>
     (cls c = RedirectionCommand \<or> cls c = PipeCommand \<longrightarrow> length (entered_cmd c) < n) \<and>
     (chk \<longrightarrow> listed c \<and>
        (cls c = RedirectionCommand \<or> cls c = PipeCommand \<longrightarrow> amp \<notin> set (entered_cmd c)))"

lemma sound_inner:
  assumes "CreateCommand env t s = Inr (c, s')" and "length t < n" and "chk \<longrightarrow> amp \<notin> set t"
  shows "sound_command chk n c"
  using CreateCommand_wf [OF assms(1)] length_cstr [of t] set_cstr [of t] CreateCommand_listed [OF assms(1)] assms(2,3)
  by (auto simp: sound_command_def)

context avoiding
begin

lemma avoids_execute:
  assumes "bad Blocked \<longrightarrow> waits_return env" and "bad OutOfFuel \<longrightarrow> reads_end env"
  shows "sound_command (bad Uninitialised) n c \<Longrightarrow> avoids bad (execute n env c s)"
proof (induction n arbitrary: c s)
  case (Suc n)
  have inner: "avoids bad (execute n env c' s')"
    if "CreateCommand env t s'' = Inr (c', s''')" "length t < length (entered_cmd c)"
      "set t \<subseteq> set (entered_cmd c)" "cls c = RedirectionCommand \<or> cls c = PipeCommand" for t c' s' s'' s'''
    using Suc.prems that(2-4) by (intro Suc.IH sound_inner [OF that(1)]) (auto simp: sound_command_def)
  show ?case
  proof (cases "cls c")
    case PipeCommand
    obtain am l r where p: "pipe_parts (entered_cmd c) = (am, l, r)"
      by (cases "pipe_parts (entered_cmd c)") auto
    have "length l < length (entered_cmd c)" "length r < length (entered_cmd c)"
      using pipe_shorter [OF _ p] Suc.prems PipeCommand by (auto simp: command_wf_def sound_command_def)
    then show ?thesis
      using PipeCommand p inner_chars(2) [OF p] assms(1)
      by (auto simp: Pipe_execute_def pipe_first_def pipe_second_def fork_def Let_def harmless
          intro!: avoids_intros avoids_CreateCommand dest: inner)
  next
    case RedirectionCommand
    obtain ap l f where p: "redirection_parts (entered_cmd c) = (ap, l, f)"
      by (cases "redirection_parts (entered_cmd c)") auto
    have "length l < length (entered_cmd c)"
      using redirection_shorter [OF _ p] Suc.prems RedirectionCommand
      by (auto simp: command_wf_def sound_command_def)
    then show ?thesis
      using RedirectionCommand p inner_chars(1) [OF p]
      by (auto simp: Redirection_execute_def Let_def intro!: avoids_intros avoids_CreateCommand dest: inner)
  qed (use Suc.prems assms in \<open>auto simp: sound_command_def listed_def GetCurrDir_execute_def
      ShowPid_execute_def intro!: avoids_External avoids_ChangeDir avoids_listed avoids_Cat\<close>)
qed (simp add: sound_command_def)

lemma avoids_executeCommand:
  assumes "bad Blocked \<longrightarrow> waits_return env" and "bad OutOfFuel \<longrightarrow> reads_end env"
    and "bad Uninitialised \<longrightarrow> amp \<notin> set line \<or> CHR ''>'' \<notin> set line \<and> CHR ''|'' \<notin> set line"
  shows "avoids bad (executeCommand env line s)"
proof -
  have "sound_command (bad Uninitialised) (Suc (length line)) (c\<lparr>jlist := True\<rparr>)"
    if "CreateCommand env line s = Inr (c, s1)" for c s1
    using CreateCommand_wf [OF that] length_cstr [of line] set_cstr [of line] assms(3)
    by (auto simp: sound_command_def command_wf_def listed_def find_str_char)
  then have "avoids bad (execute (Suc (length line)) env (c\<lparr>jlist := True\<rparr>) s3)"
    if "CreateCommand env line s = Inr (c, s1)" for c s1 s3
    using avoids_execute [OF assms(1,2)] that by blast
  then show ?thesis
    by (auto simp: executeCommand_def Let_def simp del: execute.simps
        intro!: avoids_intros avoids_CreateCommand)
qed

end

interpretation returning: avoiding "\<lambda>e. e = OutOfFuel \<or> e = Blocked"
  by unfold_locales simp_all

interpretation initialised: avoiding "\<lambda>e. e = Uninitialised"
  by unfold_locales simp_all

section \<open>Every command returns\<close>

text \<open>
  C10. Every command returns or ends the process, whatever the line and the state: the nesting
  of commands in a line is bounded by its length. This holds where the system lets it: each
  blocking \<open>waitpid\<close> returns (no child runs for ever), and a file that \<open>cat\<close> reads comes to its
  end within a bounded number of reads, from any moment on. The second condition is not met by
  a directory (its reads fail) nor by \<open>cat f >> f\<close> for a non-empty \<open>f\<close>, where the loop reads
  what it has just written; \<open>cat_without_end\<close> shows that the shell then hangs.
\<close>

theorem executeCommand_returns:
  assumes "\<forall>t. waitpid_rc env t \<noteq> None"
    and "\<forall>f t. \<exists>k < patience env. read_rc env (t + k) f = Eof"
  shows "executeCommand env line s \<noteq> Inl OutOfFuel \<and> executeCommand env line s \<noteq> Inl Blocked"
  using returning.avoids_executeCommand [of env line s] assms
  by (auto simp: waits_return_def reads_end_def avoids_def)

theorem executeCommand_returns_witness:
  "executeCommand (calm_env\<lparr>patience := 3, read_rc := (\<lambda>t _. if t mod 3 = 0 then Eof else Got CHR ''x'')\<rparr>)
     ''cat a b > c'' (new_SmallShell ''/'') \<noteq> Inl OutOfFuel"
proof -
  let ?env = "calm_env\<lparr>patience := 3, read_rc := (\<lambda>t _. if t mod 3 = 0 then Eof else Got CHR ''x'')\<rparr>"
  have "\<exists>k < 3. (t + k) mod 3 = 0" for t :: nat by presburger
  then have "\<forall>f t. \<exists>k < patience ?env. read_rc ?env (t + k) f = Eof" by (simp, metis)
  from executeCommand_returns [OF _ this] show ?thesis by (simp add: calm_env_def)
qed

end
