(* ===== verification/Shell_Behaviour.thy ===== *)
theory Shell_Behaviour
  imports Shell_Inv
begin

text \<open>
  What the commands and the signal handlers do: stopping the foreground process, background
  commands, changing directories, killing all jobs, and the lines that bring the shell down.
\<close>

section \<open>Stopping the foreground process\<close>

lemma getJobById_nth:
  assumes "ids_ok (non_built_in_cmd jl)" and "k < length (non_built_in_cmd jl)"
    and "j_id (non_built_in_cmd jl ! k) = n" and "0 < n"
  shows "getJobById n jl = Some k"
proof -
  have "j_id (non_built_in_cmd jl ! j) \<noteq> n" if "j < k" for j
    using ids_okD [OF assms(1), of j k] that assms(2-4) by auto
  then show ?thesis using assms(2,3) by (simp add: getJobById_def find_index_Some)
qed

lemma get_max_is: "jobs_ok jl \<Longrightarrow> e \<in> set (non_built_in_cmd jl) \<Longrightarrow> j_status e \<noteq> Empty \<Longrightarrow>
    \<forall>x \<in> set (non_built_in_cmd jl). j_id x \<le> j_id e \<Longrightarrow> 0 \<le> j_id e \<Longrightarrow> get_max_job_id jl = j_id e"
  using get_max_job_id_bounds(2) [of e jl] get_max_job_id_bounds(3) [of jl] by (metis order_antisym)

lemma get_cmd_cong: "cmds t = cmds s \<Longrightarrow> get_cmd t p = get_cmd s p"
  by (cases p) (simp_all add: get_cmd_def)

lemma set_name_same:
  assumes "get_cmd s p = Inr co" and "t = entered_cmd co"
  shows "set_name p t s = Inr s"
  using assms by (cases p) (auto simp: set_name_def get_cmd_def split: if_splits)

lemma set_job_pid_effect:
  assumes "jobs_ok (jobs s)" and "getJobById n (jobs s) = Some k" and "0 < n"
    and "getJobById_SS n (jobs s) = Some m" and "get_cmd s c = Inr co"
    and "cmd (non_built_in_cmd (jobs s) ! k) = c" and "cmd (stoppedd (jobs s) ! m) = c"
    and "j_status (non_built_in_cmd (jobs s) ! k) \<noteq> Empty"
  shows "\<exists>jl. set_job_pid n p (entered_cmd co) s = Inr (s\<lparr>jobs := jl\<rparr>) \<and>
     job_table jl = (job_table (jobs s))(n \<mapsto> (non_built_in_cmd (jobs s) ! k)\<lparr>p_id := p\<rparr>)"
proof -
  let ?l = "non_built_in_cmd (jobs s)"
  let ?e = "(?l ! k)\<lparr>p_id := p\<rparr>"
  have k: "k < length ?l" "j_id (?l ! k) = n" using assms(2) by (auto simp: getJobById_def find_index_Some)
  have get: "get_cmd (s\<lparr>jobs := jl\<rparr>) c = Inr co" for jl
    using assms(5) get_cmd_cong [of "s\<lparr>jobs := jl\<rparr>" s c] by simp
  have ss: "getJobById_SS n ((jobs s)\<lparr>non_built_in_cmd := x\<rparr>) = Some m" for x
    using assms(4) by (simp add: getJobById_SS_def)
  have "set_job_pid n p (entered_cmd co) s = Inr (s\<lparr>jobs := (jobs s)\<lparr>non_built_in_cmd := ?l[k := ?e],
      stoppedd := (stoppedd (jobs s))[m := (stoppedd (jobs s) ! m)\<lparr>p_id := p\<rparr>]\<rparr>\<rparr>)"
    using assms(2,6,7) set_name_same [OF get refl] ss by (simp add: set_job_pid_def Let_def)
  moreover have "entry_of (?l[k := ?e]) = (entry_of ?l)(n \<mapsto> ?e)"
    using entry_of_same_id [of ?l k ?e] k assms(1,3,8) by (simp add: jobs_ok_def)
  ultimately show ?thesis by (auto simp: job_table_def)
qed

text \<open>A stopped job that is added can be found in both vectors under its number.\<close>

lemma addJob_stopped:
  assumes "jobs_ok (jobs s)" and "get_cmd s c = Inr co" and "\<not> built_in_cmd co"
    and "\<exists>x \<in> set (non_built_in_cmd (jobs s)). j_status x = Empty"
    and "\<forall>x \<in> set (stoppedd (jobs s)). j_id x \<le> get_max_job_id (jobs s)"
  obtains e k s' where "addJob env c True s = Inr s'" and "jobs_ok (jobs s')"
    and "s' = s\<lparr>jobs := jobs s'\<rparr>" and "non_built_in_cmd (jobs s') ! k = e"
    and "stoppedd (jobs s') = stoppedd (jobs s) @ [stopped_copy e]"
    and "j_id e = get_max_job_id (jobs s) + 1" and "cmd e = c" and "j_status e = Stopped"
    and "job_table (jobs s') = (job_table (jobs s))(j_id e \<mapsto> e)"
    and "get_max_job_id (jobs s') = j_id e" and "getJobById (j_id e) (jobs s') = Some k"
    and "getJobById_SS (j_id e) (jobs s') = Some (length (stoppedd (jobs s)))"
proof (rule addJob_effect [OF assms(1-3), of env True])
  let ?l = "non_built_in_cmd (jobs s)" and ?m = "get_max_job_id (jobs s)"
  let ?k = "get_empty_place_in_list ?l"
  fix e s'
  assume add: "addJob env c True s = Inr s'" and k: "?k < length ?l"
    and l2: "non_built_in_cmd (jobs s') = ?l[?k := e]"
    and st2: "stoppedd (jobs s') = stoppedd (jobs s) @ (if True then [stopped_copy e] else [])"
    and e: "j_id e = ?m + 1" "cmd e = c" "j_status e = (if True then Stopped else Background)"
    and s': "s' = s\<lparr>jobs := jobs s'\<rparr>"
  have ok: "ids_ok ?l" using assms(1) by (simp add: jobs_ok_def)
  have ok2: "jobs_ok (jobs s')" using addJob_ok [OF assms(1) add] .
  have pos: "0 \<le> ?m" using get_max_job_id_bounds(1) .
  have "entry_of (?l[?k := e]) = ((entry_of ?l)(j_id (?l ! ?k) := None))(j_id e \<mapsto> e)"
    using entry_of_update [OF ok k, of e] e fresh_id [OF assms(1)] pos by simp
  moreover have "j_id (?l ! ?k) = 0" using ids_ok_empty [OF ok k] empty_place_empty [OF assms(4)] .
  moreover have "entry_of ?l 0 = None" by (simp add: entry_of_def)
  ultimately have tab: "job_table (jobs s') = (job_table (jobs s))(j_id e \<mapsto> e)"
    using l2 by (simp add: job_table_def fun_upd_idem)
  have mem: "e \<in> set (non_built_in_cmd (jobs s'))" using k l2 by (simp add: set_update_memI)
  have "get_max_job_id (jobs s') = j_id e"
    using get_max_is [OF ok2 mem] e l2 max_above [OF ok] pos set_update_subset_insert [of ?l ?k e]
    by fastforce
  moreover have "getJobById (j_id e) (jobs s') = Some ?k"
    using k l2 e ok2 pos by (intro getJobById_nth) (simp_all add: jobs_ok_def)
  moreover have "j_id (stoppedd (jobs s) ! j) \<noteq> ?m + 1" if "j < length (stoppedd (jobs s))" for j
    using assms(5) nth_mem [OF that] by fastforce
  then have "getJobById_SS (j_id e) (jobs s') = Some (length (stoppedd (jobs s)))"
    using e st2 by (simp add: getJobById_SS_def find_index_Some stopped_copy_def nth_append)
  ultimately show thesis
    using that [OF add ok2 s', of ?k e] k l2 st2 e tab by simp
qed

text \<open>
  C20. Ctrl-Z while a process runs in the foreground that is not in the job list: the process is
  sent \<open>SIGSTOP\<close> and enters the list as a stopped job under the next number, with its process
  number; the other jobs stay, and the shell has no foreground process any more.
\<close>

theorem ctrlZ_adds_job:
  assumes "jobs_ok (jobs s)" and "for_pid s \<noteq> -1" and "\<not> is_job_pid_in (for_pid s) (jobs s)"
    and "get_cmd s (for_cmd s) = Inr co" and "\<not> built_in_cmd co"
    and "\<exists>x \<in> set (non_built_in_cmd (jobs s)). j_status x = Empty"
    and "\<forall>x \<in> set (stoppedd (jobs s)). j_id x \<le> get_max_job_id (jobs s)"
  shows "\<exists>s' e. ctrlZHandler env s = Inr s' \<and> j_id e = get_max_job_id (jobs s) + 1 \<and>
     j_status e = Stopped \<and> p_id e = for_pid s \<and> cmd e = for_cmd s \<and>
     job_table (jobs s') = (job_table (jobs s))(j_id e \<mapsto> e) \<and>
     sent s' = sent s @ [(for_pid s, SIGSTOP)] \<and> for_pid s' = -1"
proof -
  define s1 where "s1 = kill_report env (for_pid s) SIGSTOP (cout (''smash: got ctrl-Z'' @ newline) s)"
  have s1: "jobs s1 = jobs s" "cmds s1 = cmds s" "for_pid s1 = for_pid s" "for_cmd s1 = for_cmd s"
      "sent s1 = sent s @ [(for_pid s, SIGSTOP)]" by (simp_all add: s1_def)
  have get: "get_cmd t (for_cmd s) = Inr co" if "cmds t = cmds s" for t
    using assms(4) get_cmd_cong [OF that] by simp
  have pre: "jobs_ok (jobs s1)" "\<exists>x \<in> set (non_built_in_cmd (jobs s1)). j_status x = Empty"
      "\<forall>x \<in> set (stoppedd (jobs s1)). j_id x \<le> get_max_job_id (jobs s1)"
    using assms(1,6,7) s1(1) by simp_all
  obtain e k s2 where add: "addJob env (for_cmd s) True s1 = Inr s2" "jobs_ok (jobs s2)"
      and s2: "s2 = s1\<lparr>jobs := jobs s2\<rparr>" and e: "non_built_in_cmd (jobs s2) ! k = e"
        "stoppedd (jobs s2) = stoppedd (jobs s1) @ [stopped_copy e]"
        "j_id e = get_max_job_id (jobs s1) + 1" "cmd e = for_cmd s" "j_status e = Stopped"
        "job_table (jobs s2) = (job_table (jobs s1))(j_id e \<mapsto> e)" "get_max_job_id (jobs s2) = j_id e"
      and by_id: "getJobById (j_id e) (jobs s2) = Some k"
      and by_ss: "getJobById_SS (j_id e) (jobs s2) = Some (length (stoppedd (jobs s1)))"
    by (rule addJob_stopped [OF pre(1) get [OF s1(2)] assms(5) pre(2,3), of env]) (rule that; assumption)
  have same: "for_pid s2 = for_pid s" "for_cmd s2 = for_cmd s" "cmds s2 = cmds s"
      "sent s2 = sent s @ [(for_pid s, SIGSTOP)]" using s1 by (subst s2; simp)+
  obtain jl where pid: "set_job_pid (j_id e) (for_pid s) (entered_cmd co) s2 = Inr (s2\<lparr>jobs := jl\<rparr>)"
      and tab: "job_table jl = (job_table (jobs s2))(j_id e \<mapsto> e\<lparr>p_id := for_pid s\<rparr>)"
    using set_job_pid_effect [OF add(2) by_id _ by_ss get [OF same(3)], of "for_pid s"] e
      get_max_job_id_bounds(1) [of "jobs s1"]
    by (auto simp: stopped_copy_def nth_append)
  let ?t = "s2\<lparr>jobs := jl\<rparr>"
  have "ctrlZHandler env s = Inr ((cout (''smash: process '' @ show_int (for_pid ?t) @ '' was stopped'' @ newline) ?t)
      \<lparr>for_pid := -1\<rparr>)"
    using assms(2,3) add(1) [unfolded s1_def] pid e(7) same get [of s2]
    by (simp add: ctrlZHandler_def Let_def getNameCmd_def)
  then show ?thesis
    using e same s1 tab
    by (intro exI conjI [of "ctrlZHandler env s = _"] exI [of _ "e\<lparr>p_id := for_pid s\<rparr>"]) auto
qed

theorem ctrlZ_adds_job_witness:
  "\<exists>s' e. ctrlZHandler calm_env ((new_SmallShell ''/'')\<lparr>for_pid := 100, for_cmd := Some 0,
       cmds := [new_command ExternalCommand ''sleep 5'']\<rparr>) = Inr s' \<and>
     j_status e = Stopped \<and> p_id e = 100 \<and> job_table (jobs s') = [1 \<mapsto> e] \<and> sent s' = [(100, 19)]"
proof -
  let ?s = "(new_SmallShell ''/'')\<lparr>for_pid := 100, for_cmd := Some 0,
       cmds := [new_command ExternalCommand ''sleep 5'']\<rparr>"
  have "\<not> is_job_pid_in 100 new_JobsList"
    by (auto simp: is_job_pid_in_def list_ex_iff empty_entry_def)
  moreover have "x \<in> set (stoppedd new_JobsList) \<Longrightarrow> j_id x \<le> 0" for x
    by (auto simp: new_JobsList_def empty_entry_def)
  moreover have "get_cmd ?s (Some 0) = Inr (new_command ExternalCommand ''sleep 5'')"
    by (simp add: get_cmd_def)
  ultimately show ?thesis
    using ctrlZ_adds_job [of ?s "new_command ExternalCommand ''sleep 5''" calm_env]
    by (auto simp: new_SmallShell_def new_command_def empty_entry_def)
qed

section \<open>Killing all jobs\<close>

lemma getNameCmd_cong: "cmds t = cmds s \<Longrightarrow> getNameCmd t p = getNameCmd s p"
  using get_cmd_cong [of t s p] by (simp add: getNameCmd_def)

lemma print_killed_returns:
  "\<forall>e \<in> set js. live e \<longrightarrow> returns (getNameCmd s (cmd e)) \<Longrightarrow>
   \<exists>s'. print_killed js s = Inr s' \<and> jobs s' = jobs s \<and> sent s' = sent s"
proof (induction js arbitrary: s)
  case (Cons e js)
  show ?case
  proof (cases "live e")
    case True
    then obtain name where n: "getNameCmd s (cmd e) = Inr name"
      using Cons.prems by (cases "getNameCmd s (cmd e)") auto
    let ?s = "cout (show_int (p_id e) @ '': '' @ name @ newline) s"
    have "getNameCmd ?s p = getNameCmd s p" for p by (rule getNameCmd_cong) simp
    then have "\<exists>s'. print_killed js ?s = Inr s' \<and> jobs s' = jobs ?s \<and> sent s' = sent ?s"
      using Cons.prems by (intro Cons.IH) simp
    then show ?thesis using True n by simp
  qed (use Cons in simp)
qed simp

lemma kill_all_prefix:
  "k \<le> length (non_built_in_cmd (jobs s)) \<Longrightarrow>
   sent (fold (kill_one env) [0..<k] s) =
     sent s @ map (\<lambda>e. (p_id e, SIGKILL)) (filter live (take k (non_built_in_cmd (jobs s)))) \<and>
   non_built_in_cmd (jobs (fold (kill_one env) [0..<k] s)) =
     map (\<lambda>e. if live e then e\<lparr>j_status := Empty, j_id := 0, p_id := 0\<rparr> else e)
       (take k (non_built_in_cmd (jobs s))) @ drop k (non_built_in_cmd (jobs s))"
proof (induction k)
  case (Suc k)
  let ?l = "non_built_in_cmd (jobs s)"
  define t where "t = fold (kill_one env) [0..<k] s"
  define f where "f = (\<lambda>e. if live e then e\<lparr>j_status := Empty, j_id := 0, p_id := 0\<rparr> else e)"
  have ih: "sent t = sent s @ map (\<lambda>e. (p_id e, SIGKILL)) (filter live (take k ?l))"
      "non_built_in_cmd (jobs t) = map f (take k ?l) @ drop k ?l"
    using Suc unfolding t_def f_def by auto
  have k: "k < length ?l" using Suc.prems by simp
  then have at: "non_built_in_cmd (jobs t) ! k = ?l ! k" "drop k ?l = ?l ! k # drop (Suc k) ?l"
    by (simp_all add: ih(2) nth_append Cons_nth_drop_Suc)
  have step: "fold (kill_one env) [0..<Suc k] s = kill_one env k t" by (simp add: t_def)
  show ?case
    unfolding step f_def [symmetric] using k ih at
    by (auto simp: kill_one_def Let_def take_Suc_conv_app_nth list_update_append f_def)
qed simp

text \<open>
  C27. \<open>quit kill\<close> sends \<open>SIGKILL\<close> to the process of every job that is running or stopped, to each
  once and in the order of the list, and to nobody else; no job is left alive in the list.
\<close>

theorem killAllJobs_all:
  assumes "\<forall>e \<in> set (non_built_in_cmd (jobs s)). live e \<longrightarrow> returns (getNameCmd s (cmd e))"
  shows "\<exists>s'. killAllJobs env with_print s = Inr s' \<and>
     sent s' = sent s @ map (\<lambda>e. (p_id e, SIGKILL)) (filter live (non_built_in_cmd (jobs s))) \<and>
     (\<forall>e \<in> set (non_built_in_cmd (jobs s')). \<not> live e)"
proof -
  let ?p = "if with_print then print_killed (non_built_in_cmd (jobs s))
      (cout (''smash: sending SIGKILL signal to '' @
         show_nat (length (filter live (non_built_in_cmd (jobs s)))) @ '' jobs:'' @ newline) s) else Inr s"
  have names: "getNameCmd (cout t s) p = getNameCmd s p" for t p by (rule getNameCmd_cong) simp
  have "\<exists>t. ?p = Inr t \<and> jobs t = jobs s \<and> sent t = sent s"
    using print_killed_returns [of "non_built_in_cmd (jobs s)" "cout _ s"] assms names by simp
  then obtain t where t: "?p = Inr t" "jobs t = jobs s" "sent t = sent s" by blast
  have "killAllJobs env with_print s =
      Inr (fold (kill_one env) [0..<length (non_built_in_cmd (jobs s))] t)"
    unfolding killAllJobs_def using t by simp
  moreover have "\<not> live (e\<lparr>j_status := Empty, j_id := 0, p_id := 0\<rparr>)" for e by (simp add: live_def)
  ultimately show ?thesis
    using kill_all_prefix [of "length (non_built_in_cmd (jobs s))" t env] t(2,3) by auto
qed

theorem killAllJobs_all_witness:
  "\<exists>s'. killAllJobs calm_env True ((new_SmallShell ''/'')\<lparr>jobs := one_job,
       cmds := [new_command ExternalCommand ''sleep 5&'']\<rparr>) = Inr s' \<and> sent s' = [(100, 9)]"
proof -
  let ?s = "(new_SmallShell ''/'')\<lparr>jobs := one_job, cmds := [new_command ExternalCommand ''sleep 5&'']\<rparr>"
  let ?e = "\<lparr>j_status = Background, j_id = 1, p_id = 100, cmd = Some 0, jtime = 0\<rparr>"
  have l: "non_built_in_cmd one_job = ?e # replicate 149 empty_entry"
  proof -
    have "replicate 150 empty_entry = empty_entry # replicate 149 empty_entry"
      using replicate_Suc [of 149 empty_entry] by simp
    then show ?thesis by (simp add: one_job_def new_JobsList_def JOBS_MAX_AMOUNT_def)
  qed
  have "filter live (replicate n empty_entry) = []" for n by (simp add: live_def empty_entry_def)
  then have "filter live (non_built_in_cmd (jobs ?s)) = [?e]" by (simp add: l live_def)
  moreover have "\<forall>e \<in> set (non_built_in_cmd (jobs ?s)). live e \<longrightarrow> returns (getNameCmd ?s (cmd e))"
    by (auto simp: l getNameCmd_def get_cmd_def live_def empty_entry_def)
  ultimately show ?thesis
    using killAllJobs_all [of ?s calm_env True] by (auto simp: new_SmallShell_def)
qed

section \<open>Changing directories\<close>

text \<open>The shape of a line of two plain words.\<close>

lemma parse_two:
  assumes "is_word v" and "is_word w"
  shows "parseCommandLine (v @ blank # w) = Inr [v, w]" and "cstr (v @ blank # w) = v @ blank # w"
  using parseCommandLine_join [of "[v, w]"] cstr_id [OF join_clean [of "[v, w]"]] assms by simp_all

lemma find_str_absent: "c \<notin> set s \<Longrightarrow> find_str [c] s = None" "c \<notin> set s \<Longrightarrow> find_str [c, d] s = None"
  by (auto simp: find_str_None strstr_iff)

lemma CreateCommand_two:
  assumes "is_word v" and "is_word w"
    and "CHR ''>'' \<notin> set (v @ w)" and "CHR ''|'' \<notin> set (v @ w)"
  shows "CreateCommand env (v @ blank # w) s =
     (let line = v @ blank # w; args = [v, w]; firstWord = no_amp v in
      if firstWord = ''pwd'' then Inr (create_pwd line args, s)
      else if firstWord = ''cd'' then Inr (create_cd env line args s)
      else if firstWord = ''chprompt'' then Inr (create_chprompt line args s)
      else if firstWord = ''showpid'' then Inr (create_showpid line args, s)
      else if firstWord = ''jobs'' then Inr (create_jobs line args, s)
      else if firstWord = ''kill'' then Inr (create_kill line args s, s)
      else if firstWord = ''fg'' then Inr (create_fg line args s, s)
      else if firstWord = ''bg'' then Inr (create_bg line args s, s)
      else if firstWord = ''quit'' then Inr (create_quit line args, s)
      else if firstWord = ''cat'' then rbind (create_cat line args) (\<lambda>c. Inr (c, s))
      else rbind (create_external line args) (\<lambda>c. Inr (c, s)))"
proof -
  have "CHR ''>'' \<notin> set (v @ blank # w)" "CHR ''|'' \<notin> set (v @ blank # w)" using assms(3,4) by auto
  moreover from this have "\<not> list_ex (\<lambda>x. x = ''|'' \<or> x = ''|&'') [v, w]" by auto
  ultimately show ?thesis
    unfolding CreateCommand_def parse_two [OF assms(1,2)]
    by (simp add: find_str_absent Let_def del: find_str.simps)
qed

lemma no_amp_id: "amp \<notin> set s \<Longrightarrow> no_amp s = s"
  by (induction s) (auto simp: erase_char_def)

lemma cd_word: "is_word ''cd''" "is_word ''-''" "no_amp ''cd'' = ''cd''" "no_amp ''-'' = ''-''"
  by (simp_all add: is_word_def isspace_def erase_char_def)

lemma removeFinishedJobs_sel [simp]:
  "cwd (removeFinishedJobs env s) = cwd s" "LASTD (removeFinishedJobs env s) = LASTD s"
  "sent (removeFinishedJobs env s) = sent s" "cmds (removeFinishedJobs env s) = cmds s"
  by (simp_all add: removeFinishedJobs_def Let_def)

text \<open>A built-in command that is not \<open>quit\<close>: created, executed, finished jobs removed.\<close>

lemma executeCommand_built_in:
  assumes "CreateCommand env line s = Inr (c, s1)" and "built_in_cmd c" and "cargs c \<noteq> []"
    and "no_amp (hd (cargs c)) \<noteq> ''quit''"
    and "execute (Suc (length line)) env (c\<lparr>jlist := True\<rparr>)
           (s1\<lparr>curr_cmd := Some (length (cmds s1)), cmds := cmds s1 @ [c]\<rparr>) = Inr s2"
  shows "executeCommand env line s = Inr (1, removeFinishedJobs env (s2\<lparr>for_cmd := None, for_pid := -1\<rparr>))"
  using assms by (simp add: executeCommand_def arg_def hd_conv_nth Let_def del: execute.simps)

lemma cd_to:
  assumes "is_word d" and "CHR ''>'' \<notin> set d" and "CHR ''|'' \<notin> set d" and "amp \<notin> set d" and "d \<noteq> ''-''"
    and "chdir_to env (cwd s) d = Some e" and "chdir_to env e (cwd s) = Some (cwd s)"
  shows "\<exists>s1. executeCommand env (''cd '' @ d) s = Inr (1, s1) \<and> cwd s1 = e \<and> LASTD s1 = cwd s"
proof -
  let ?c = "(new_built_in ChangeDirCommand (''cd '' @ d))\<lparr>lastD := (if LASTD s \<noteq> [] then Some (LASTD s) else None),
      optional_arg := True, too_many_args := False, cargs := [''cd'', d]\<rparr>"
  have c: "CreateCommand env (''cd '' @ d) s = Inr (?c, s\<lparr>LASTD := cwd s\<rparr>)"
    using CreateCommand_two [OF cd_word(1) assms(1), of env s] assms cd_word(3)
    by (simp add: create_cd_def chdir_def Let_def)
  have "execute (Suc n) env (?c\<lparr>jlist := True\<rparr>)
      ((s\<lparr>LASTD := cwd s\<rparr>)\<lparr>curr_cmd := p, cmds := q\<rparr>) = Inr ((s\<lparr>LASTD := cwd s\<rparr>)\<lparr>curr_cmd := p, cmds := q, cwd := e\<rparr>)"
    for n p q
    using assms(4-6) by (simp add: new_built_in_def new_command_def ChangeDir_execute_def arg_def chdir_def no_amp_id)
  from executeCommand_built_in [OF c _ _ _ this] show ?thesis
    by (simp add: new_built_in_def erase_char_def)
qed

lemma cd_back:
  assumes "LASTD s \<noteq> []" and "chdir_to env (cwd s) (LASTD s) = Some e"
  shows "\<exists>s1. executeCommand env ''cd -'' s = Inr (1, s1) \<and> cwd s1 = e \<and> LASTD s1 = cwd s"
proof -
  let ?c = "(new_built_in ChangeDirCommand ''cd -'')\<lparr>lastD := Some (LASTD s),
      optional_arg := True, too_many_args := False, cargs := [''cd'', ''-'']\<rparr>"
  have c: "CreateCommand env ''cd -'' s = Inr (?c, s\<lparr>LASTD := cwd s\<rparr>)"
    using CreateCommand_two [OF cd_word(1,2), of env s] assms cd_word(3)
    by (simp add: create_cd_def Let_def)
  have "execute (Suc n) env (?c\<lparr>jlist := True\<rparr>)
      ((s\<lparr>LASTD := cwd s\<rparr>)\<lparr>curr_cmd := p, cmds := q\<rparr>) = Inr ((s\<lparr>LASTD := cwd s\<rparr>)\<lparr>curr_cmd := p, cmds := q, cwd := e\<rparr>)"
    for n p q
    using assms by (simp add: new_built_in_def new_command_def ChangeDir_execute_def arg_def chdir_def)
  from executeCommand_built_in [OF c _ _ _ this] show ?thesis
    by (simp add: new_built_in_def erase_char_def)
qed

text \<open>
  C26. \<open>cd\<close> to a directory and \<open>cd -\<close> back: the first changes the current directory and records
  the old one, the second returns to it and records the other, whatever the state of the
  shell.
\<close>

theorem cd_roundtrip:
  assumes "is_word d" and "CHR ''>'' \<notin> set d" and "CHR ''|'' \<notin> set d" and "amp \<notin> set d" and "d \<noteq> ''-''"
    and "chdir_to env (cwd s) d = Some e" and "chdir_to env e (cwd s) = Some (cwd s)" and "cwd s \<noteq> []"
  shows "\<exists>s1 s2. executeCommand env (''cd '' @ d) s = Inr (1, s1) \<and> cwd s1 = e \<and> LASTD s1 = cwd s \<and>
     executeCommand env ''cd -'' s1 = Inr (1, s2) \<and> cwd s2 = cwd s \<and> LASTD s2 = e"
  using cd_to [OF assms(1-7)] cd_back assms(7,8) by metis

theorem cd_roundtrip_witness:
  "\<exists>s1 s2. executeCommand calm_env ''cd /tmp'' (new_SmallShell ''/home'') = Inr (1, s1) \<and> cwd s1 = ''/tmp'' \<and>
     executeCommand calm_env ''cd -'' s1 = Inr (1, s2) \<and> cwd s2 = ''/home''"
  using cd_roundtrip [of "''/tmp''" calm_env "new_SmallShell ''/home''" "''/tmp''"]
  by (auto simp: is_word_def isspace_def calm_env_def new_SmallShell_def)

section \<open>Background commands\<close>

lemma External_background:
  assumes "jobs_ok (jobs s)" and "background_cmd c" and "jlist c" and "0 < fork_rc env (tick s)"
    and "get_max_job_id (jobs s) = n" and "0 < n" and "job_table (jobs s) n = Some e"
  shows "\<exists>jl ps. External_execute env c s = Inr (s\<lparr>tick := Suc (tick s), spawned := ps, jobs := jl\<rparr>) \<and> jobs_ok jl \<and>
     job_table jl = (job_table (jobs s))(n \<mapsto> e\<lparr>p_id := fork_rc env (tick s)\<rparr>)"
proof -
  let ?l = "non_built_in_cmd (jobs s)" and ?p = "fork_rc env (tick s)"
  have ok: "ids_ok ?l" using assms(1) by (simp add: jobs_ok_def)
  obtain k where k: "k < length ?l" "?l ! k = e" "j_id e = n"
    using assms(6,7) entry_of_Some [OF ok] by (auto simp: job_table_def)
  have get: "getJobById n (jobs s) = Some k" using getJobById_nth [OF ok] k assms(6) by simp
  have ne: "j_status e \<noteq> Empty" using ids_ok_empty [OF ok k(1)] k assms(6) by auto
  have "External_execute env c s = Inr (s\<lparr>tick := Suc (tick s),
      spawned := spawned s @ [(no_amp (entered_cmd c), stdout_to s, stderr_to s)],
      jobs := (jobs s)\<lparr>non_built_in_cmd := ?l[k := e\<lparr>p_id := ?p\<rparr>]\<rparr>\<rparr>)"
    using assms(2-5) get k by (simp add: External_execute_def fork_def with_list_def spawn_def Let_def)
  moreover have "entry_of (?l[k := e\<lparr>p_id := ?p\<rparr>]) = (entry_of ?l)(n \<mapsto> e\<lparr>p_id := ?p\<rparr>)"
    using entry_of_same_id [OF ok k(1), of "e\<lparr>p_id := ?p\<rparr>"] k assms(6) ne by simp
  moreover have "jobs_ok ((jobs s)\<lparr>non_built_in_cmd := ?l[k := e\<lparr>p_id := ?p\<rparr>]\<rparr>)"
    using getJobById_bound [OF assms(1) get] k assms(1) by (intro entry_update_ok) simp_all
  ultimately show ?thesis by (auto simp: job_table_def)
qed

lemma get_max_table:
  assumes "jobs_ok jl" and "job_table jl n = Some e" and "\<And>m. job_table jl m \<noteq> None \<Longrightarrow> m \<le> n"
  shows "get_max_job_id jl = n"
proof (rule antisym)
  have ok: "ids_ok (non_built_in_cmd jl)" using assms(1) by (simp add: jobs_ok_def)
  have e: "e \<in> set (non_built_in_cmd jl)" "j_id e = n" "0 < n"
    using entry_of_mem assms(2) by (auto simp: job_table_def)
  show "n \<le> get_max_job_id jl" using max_above [OF ok e(1)] e(2) by simp
  show "get_max_job_id jl \<le> n"
  proof (cases "get_max_job_id jl = 0")
    case False
    then obtain x where "x \<in> set (non_built_in_cmd jl)" "j_id x = get_max_job_id jl" "0 < j_id x"
      using get_max_job_id_bounds(1,3) [of jl] by force
    then have "job_table jl (get_max_job_id jl) \<noteq> None"
      using entry_of_nth [OF ok] unfolding job_table_def in_set_conv_nth by fastforce
    then show ?thesis by (rule assms(3))
  qed (use e in simp)
qed

text \<open>
  C21. A background command becomes a job: for a line that creates an external background command,
  and a successful \<open>fork\<close>, the table of jobs gains one entry, under the next number, with
  the process number that \<open>fork\<close> returned and the line as its name; the jobs already there
  stay, as none of them has ended.
\<close>

theorem background_job_listed:
  assumes "jobs_ok (jobs s)" and "CreateCommand env line s = Inr (c, s)"
    and "cls c = ExternalCommand" and "\<not> built_in_cmd c" and "background_cmd c"
    and "\<exists>x \<in> set (non_built_in_cmd (jobs s)). j_status x = Empty"
    and "0 < fork_rc env (tick s)" and "\<forall>p. waitpid_nohang env (Suc (tick s)) p = 0"
    and "\<forall>n e. job_table (jobs s) n = Some e \<longrightarrow> j_status e \<noteq> Finished"
  shows "\<exists>s' e. executeCommand env line s = Inr (1, s') \<and>
     job_table (jobs s') = (job_table (jobs s))(get_max_job_id (jobs s) + 1 \<mapsto> e) \<and>
     j_status e = Background \<and> p_id e = fork_rc env (tick s) \<and> getNameCmd s' (cmd e) = Inr (entered_cmd c)"
proof -
  let ?n = "get_max_job_id (jobs s) + 1" and ?p = "fork_rc env (tick s)"
  define s2 where "s2 = s\<lparr>curr_cmd := Some (length (cmds s)), cmds := cmds s @ [c]\<rparr>"
  have s2: "jobs s2 = jobs s" "tick s2 = tick s" "curr_cmd s2 = Some (length (cmds s))" by (simp_all add: s2_def)
  have "get_cmd s2 (curr_cmd s2) = Inr c" by (simp add: s2_def get_cmd_def)
  then obtain s3 e where s3: "addJob env (curr_cmd s2) False s2 = Inr s3" "jobs_ok (jobs s3)"
      and e: "j_id e = ?n" "cmd e = curr_cmd s2" "j_status e = Background"
        "\<forall>n. job_table (jobs s) n \<noteq> None \<longrightarrow> n < j_id e"
        "job_table (jobs s3) = (job_table (jobs s))(?n \<mapsto> e)"
    using addJob_table [of s2 "curr_cmd s2" c env False] assms(1,4,6) s2 by auto
  have same: "tick s3 = tick s" "cmds s3 = cmds s @ [c]"
    using s3(1) by (auto simp: addJob_def Let_def result_simps s2_def split: if_splits)
  have tab3: "job_table (jobs s3) ?n = Some e" using e(5) by simp
  have "get_max_job_id (jobs s3) = ?n"
    using get_max_table [OF s3(2) tab3] e by (force split: if_splits)
  then obtain jl ps where
      jl: "External_execute env (c\<lparr>jlist := True\<rparr>) s3 = Inr (s3\<lparr>tick := Suc (tick s), spawned := ps, jobs := jl\<rparr>)"
      "jobs_ok jl" "job_table jl = (job_table (jobs s3))(?n \<mapsto> e\<lparr>p_id := ?p\<rparr>)"
    using External_background [OF s3(2), of "c\<lparr>jlist := True\<rparr>" env ?n e] assms(5,7) same tab3
      get_max_job_id_bounds(1) [of "jobs s"] by auto
  let ?s5 = "s3\<lparr>tick := Suc (tick s), spawned := ps, jobs := jl, for_cmd := None, for_pid := -1\<rparr>"
  have run: "executeCommand env line s = Inr (1, removeFinishedJobs env ?s5)"
    using assms(2-5) s3(1) jl(1) by (simp add: executeCommand_def Let_def s2_def)
  have "job_table jl n = Some x \<Longrightarrow> j_status x \<noteq> Finished \<and> j_status x \<noteq> Empty" for n x
    using assms(1,9) e jl(3) entry_of_mem [of "non_built_in_cmd (jobs s)" n x]
    by (auto simp: job_table_def jobs_ok_def ids_ok_def split: if_splits)
  then have "job_table (jobs (removeFinishedJobs env ?s5)) n = job_table jl n" for n
    using removeFinishedJobs_table [of ?s5 env n] jl(2) assms(8)
    by (cases "job_table jl n"; cases "j_status (the (job_table jl n))") auto
  then have "job_table (jobs (removeFinishedJobs env ?s5)) = (job_table (jobs s))(?n \<mapsto> e\<lparr>p_id := ?p\<rparr>)"
    using jl(3) e(5) by auto
  moreover have "getNameCmd (removeFinishedJobs env ?s5) (cmd e) = Inr (entered_cmd c)"
    using e(2) s2(3) same(2) by (simp add: getNameCmd_def get_cmd_def)
  ultimately show ?thesis using run e(3) by (intro exI [of _ "removeFinishedJobs env ?s5"] exI [of _ "e\<lparr>p_id := ?p\<rparr>"]) simp
qed

theorem background_job_listed_witness:
  "\<exists>s' e. executeCommand calm_env ''sleep 5&'' (new_SmallShell ''/'') = Inr (1, s') \<and>
     job_table (jobs s') = [1 \<mapsto> e] \<and> p_id e = 100 \<and> getNameCmd s' (cmd e) = Inr ''sleep 5&''"
proof -
  let ?c = "(new_command ExternalCommand ''sleep 5&'')\<lparr>cargs := [''sleep'', ''5&''], optional_arg := True,
      background_cmd := True\<rparr>"
  have "is_word ''sleep''" "is_word ''5&''" by (simp_all add: is_word_def isspace_def)
  from CreateCommand_two [OF this] have "CreateCommand calm_env ''sleep 5&'' s = Inr (?c, s)" for s
    by (simp add: erase_char_def create_external_def isBackgroundComamnd_def cstr_def)
  from background_job_listed [of "new_SmallShell ''/''" calm_env, OF _ this] show ?thesis
    by (auto simp: new_SmallShell_def new_command_def calm_env_def empty_entry_def)
qed

section \<open>Lines that bring the shell down\<close>

text \<open>
  C40. Three lines end the shell in every state, each with an exception that nothing catches: a
  line of blanks (there is no first word, and a string cannot be made of a null pointer),
  \<open>fg &\<close> (the empty text counts as a number), and \<open>fg 3000000000\<close> (the number does not fit).
\<close>

theorem lines_that_crash:
  "executeCommand env (replicate n blank) s = Inl (Uncaught ''logic_error'') \<and>
   executeCommand env ''fg &'' s = Inl (Uncaught ''invalid_argument'') \<and>
   executeCommand env ''fg 3000000000'' s = Inl (Uncaught ''out_of_range'')"
proof -
  have "trim (replicate n blank) = []" by (simp add: trim_def ltrim_def rtrim_def)
  moreover have "cstr (replicate n blank) = replicate n blank" by (simp add: cstr_id)
  ultimately have "executeCommand env (replicate n blank) s = Inl (Uncaught ''logic_error'')"
    by (simp add: executeCommand_def CreateCommand_def parseCommandLine_def COMMAND_MAX_ARGS_def cstr_def)
  moreover have "is_word ''fg''" "is_word ''&''" "is_word ''3000000000''"
    by (simp_all add: is_word_def isspace_def)
  note CreateCommand_two [OF this(1,2), of env s] CreateCommand_two [OF this(1,3), of env s]
  then have "executeCommand env ''fg &'' s = Inl (Uncaught ''invalid_argument'')"
      "executeCommand env ''fg 3000000000'' s = Inl (Uncaught ''out_of_range'')"
    by (simp_all add: executeCommand_def erase_char_def create_fg_def new_built_in_def new_command_def
        isNumber_def isdigit_def Foreground_execute_def arg_def stoi_def leading_int_def isspace_def
        read_nat_def digit_val_def Let_def)
  ultimately show ?thesis by blast
qed

text \<open>
  \<open>kill -9 0\<close> is taken for a job number: an empty entry has the number 0, its process number
  is 0 at the start, and the shell sends \<open>SIGKILL\<close> to its own process group.
\<close>

theorem kill_zero_hits_shell:
  "\<exists>s'. executeCommand env ''kill -9 0'' (new_SmallShell dir) = Inr (1, s') \<and> sent s' = [(0, SIGKILL)]"
proof -
  have "is_word ''kill''" "is_word ''-9''" "is_word ''0''" by (simp_all add: is_word_def isspace_def)
  then have "parseCommandLine ''kill -9 0'' = Inr [''kill'', ''-9'', ''0'']"
    using parseCommandLine_join [of "[''kill'', ''-9'', ''0'']"] by simp
  moreover have "is_job_id_in 0 new_JobsList"
    by (auto simp: is_job_id_in_def list_ex_iff empty_entry_def)
  moreover have "getJobById 0 new_JobsList = Some 0" "non_built_in_cmd new_JobsList ! 0 = empty_entry"
    by (simp_all add: getJobById_def find_index_Some new_JobsList_def JOBS_MAX_AMOUNT_def empty_entry_def)
  ultimately show ?thesis
    by (simp add: executeCommand_def CreateCommand_def cstr_def erase_char_def create_kill_def
        new_built_in_def new_command_def isNumber_def isdigit_def is_built_job_in_shell_def strtol_def
        leading_int_def isspace_def read_nat_def digit_val_def long_to_int_def Kill_execute_def arg_def
        stoi_def with_list_def send_SIG_TO_JOB_def new_SmallShell_def empty_entry_def Let_def)
qed

text \<open>
  At the end of the input the main loop never stops: \<open>getline\<close> leaves an empty line, which is
  skipped.
\<close>

theorem end_of_input_spins:
  assumes "\<forall>t. keys env t = []"
  shows "smash_main n env [] s = Inl OutOfFuel"
  using assms by (induction n arbitrary: s) (auto simp: block_def)

theorem end_of_input_spins_witness:
  "smash_main 1000 calm_env [] (new_SmallShell ''/'') = Inl OutOfFuel"
  by (rule end_of_input_spins) (simp add: calm_env_def)

text \<open>
  \<open>cat\<close> of something that can be opened but never comes to an end does not return, however many
  reads are allowed: a directory, whose reads all fail, or the file that the output is
  appended to (\<open>cat f >> f\<close>), whose reads give back what the loop wrote before.
\<close>

theorem cat_without_end:
  assumes "\<forall>t. read_rc env t f \<noteq> Eof" and "open_rd env (tick s) f"
  shows "cat_files (env\<lparr>patience := n\<rparr>) (f # fs) s = Inl OutOfFuel"
proof -
  have "cat_loop m (env\<lparr>patience := n\<rparr>) f c t = Inl OutOfFuel" for m c t
    using assms(1) by (induction m arbitrary: c t) (auto split: read_result.splits)
  then show ?thesis using assms(2) by (simp add: Let_def)
qed

theorem cat_without_end_witness:
  "cat_files (calm_env\<lparr>read_rc := (\<lambda>_ _. Failed), patience := 1000\<rparr>) [''/''] (new_SmallShell ''/'') = Inl OutOfFuel"
proof -
  let ?env = "calm_env\<lparr>read_rc := (\<lambda>_ _. Failed)\<rparr>"
  have "\<forall>t. read_rc ?env t ''/'' \<noteq> Eof" "open_rd ?env (tick (new_SmallShell ''/'')) ''/''"
    by (simp_all add: calm_env_def)
  from cat_without_end [OF this, of 1000 "[]"] show ?thesis by simp
qed

section \<open>Pointers that are not set\<close>

text \<open>
  Two lines that use a pointer which was never set. The inner command of a redirection does not
  receive the job list: when it is a background command, it reads the uninitialised member
  \<open>list\<close> in the parent process. And \<open>fg 0\<close> takes an empty entry for a job, whose command
  is the null pointer.
\<close>

theorem redirected_background_wild:
  assumes "0 < fork_rc env (Suc (tick s))"
  shows "executeCommand env ''sleep 5& > f'' s = Inl Uninitialised"
proof -
  have "is_word ''sleep''" "is_word ''5&''" "is_word ''>''" "is_word ''f''" by (simp_all add: is_word_def isspace_def)
  then have words: "parseCommandLine ''sleep 5& > f'' = Inr [''sleep'', ''5&'', ''>'', ''f'']"
      "parseCommandLine ''sleep 5&'' = Inr [''sleep'', ''5&'']"
    using parseCommandLine_join [of "[''sleep'', ''5&'', ''>'', ''f'']"] parseCommandLine_join [of "[''sleep'', ''5&'']"]
    by simp_all
  have "CreateCommand env ''sleep 5& > f'' t = Inr (new_command RedirectionCommand ''sleep 5& > f'', t)" for t
    by (simp add: CreateCommand_def words cstr_def)
  moreover have "CreateCommand env ''sleep 5&'' t = Inr ((new_command ExternalCommand ''sleep 5&'')
      \<lparr>cargs := [''sleep'', ''5&''], optional_arg := True, background_cmd := True\<rparr>, t)" for t
    by (simp add: CreateCommand_def words cstr_def erase_char_def create_external_def isBackgroundComamnd_def
        rtrim_def Let_def)
  moreover have "redirection_parts ''sleep 5& > f'' = (False, ''sleep 5&'', ''f'')"
    by (simp add: redirection_parts_def split_at_def rtrim_def ltrim_def cut_background_def)
  ultimately show ?thesis
    using assms by (simp add: executeCommand_def Redirection_execute_def External_execute_def new_command_def
        fork_def with_list_def perror_def cerr_def put_def Let_def)
qed

theorem redirected_background_wild_witness:
  "executeCommand calm_env ''sleep 5& > f'' (new_SmallShell ''/'') = Inl Uninitialised"
  by (rule redirected_background_wild) (simp add: calm_env_def)

theorem fg_zero_null: "executeCommand env ''fg 0'' (new_SmallShell dir) = Inl NullDeref"
proof -
  have "is_word ''fg''" "is_word ''0''" by (simp_all add: is_word_def isspace_def)
  note CreateCommand_two [OF this, of env]
  moreover have "is_job_id_in 0 new_JobsList"
    by (auto simp: is_job_id_in_def list_ex_iff empty_entry_def)
  moreover have "getJobById 0 new_JobsList = Some 0" "non_built_in_cmd new_JobsList ! 0 = empty_entry"
    by (simp_all add: getJobById_def find_index_Some new_JobsList_def JOBS_MAX_AMOUNT_def empty_entry_def)
  ultimately show ?thesis
    by (simp add: executeCommand_def erase_char_def create_fg_def new_built_in_def new_command_def
        isNumber_def isdigit_def Foreground_execute_def fg_run_def arg_def stoi_def leading_int_def isspace_def
        read_nat_def digit_val_def strtol_def long_to_int_def is_built_job_in_shell_def with_list_def
        print_job_def getNameCmd_def get_cmd_def new_SmallShell_def empty_entry_def Let_def)
qed

end
