(* ===== verification/Shell_Jobs.thy ===== *)
theory Shell_Jobs
  imports Shell_Behaviour
begin

text \<open>
  Job control: what \<open>fg\<close> and \<open>bg\<close> do to the job they choose and to the other jobs, with the
  process ending or stopped again while the shell waits, and the vector of stopped jobs as a
  mirror of the table of jobs.
\<close>

section \<open>One job of the table\<close>

lemma job_position:
  assumes "jobs_ok jl" and "job_table jl n = Some e"
  obtains i where "getJobById n jl = Some i" and "i < length (non_built_in_cmd jl)"
    and "non_built_in_cmd jl ! i = e" and "0 < n" and "j_id e = n" and "j_status e \<noteq> Empty"
proof -
  have ok: "ids_ok (non_built_in_cmd jl)" using assms(1) by (simp add: jobs_ok_def)
  obtain i where i: "i < length (non_built_in_cmd jl)" "non_built_in_cmd jl ! i = e" "j_id e = n" "0 < n"
    using assms(2) entry_of_Some [OF ok] by (auto simp: job_table_def)
  then show thesis
    using that [of i] getJobById_nth [OF ok i(1)] ids_ok_empty [OF ok i(1)] by auto
qed

lemma job_unknown: "job_table jl n = None \<Longrightarrow> 0 < n \<Longrightarrow> getJobById n jl = None"
  by (cases "getJobById n jl")
    (auto simp: job_table_def entry_of_None getJobById_def find_index_Some)

lemma set_status_table:
  assumes "jobs_ok jl" and "getJobById n jl = Some i" and "job_table jl n = Some e" and "st \<noteq> Empty"
  shows "job_table (set_status i st jl) = (job_table jl)(n \<mapsto> e\<lparr>j_status := st\<rparr>)"
proof -
  have ok: "ids_ok (non_built_in_cmd jl)" using assms(1) by (simp add: jobs_ok_def)
  obtain k where "getJobById n jl = Some k" "k < length (non_built_in_cmd jl)"
      "non_built_in_cmd jl ! k = e" "0 < n" "j_id e = n"
    using job_position [OF assms(1,3)] by blast
  then show ?thesis
    using entry_of_same_id [OF ok, of i "e\<lparr>j_status := st\<rparr>"] assms(2,4)
    by (simp add: job_table_def set_status_def)
qed

lemma unstop_sel [simp]:
  "non_built_in_cmd (unstop n jl) = non_built_in_cmd jl" "arr (unstop n jl) = arr jl"
  "job_table (unstop n jl) = job_table jl" "getJobById m (unstop n jl) = getJobById m jl"
  by (simp_all add: unstop_def job_table_def getJobById_def)

text \<open>Continuing a job.\<close>

lemma kill_report_more [simp]:
  "stdout_to (kill_report env p n s) = stdout_to s" "tick (kill_report env p n s) = Suc (tick s)"
  "kill_rc env (tick s) p n \<noteq> -1 \<Longrightarrow> written (kill_report env p n s) = written s"
  by (simp_all add: kill_report_def kill_def perror_def cerr_def)

lemma SIGCONT_effect:
  assumes "jobs_ok (jobs s)" and "job_table (jobs s) n = Some e"
  obtains i where "getJobById n (jobs s) = Some i"
    and "send_SIG_TO_JOB env n SIGCONT s =
       kill_report env (p_id e) SIGCONT (s\<lparr>jobs := set_status i Background (unstop n (jobs s))\<rparr>)"
    and "jobs_ok (set_status i Background (unstop n (jobs s)))"
    and "job_table (set_status i Background (unstop n (jobs s))) =
       (job_table (jobs s))(n \<mapsto> e\<lparr>j_status := Background\<rparr>)"
proof -
  obtain i where i: "getJobById n (jobs s) = Some i" "i < length (non_built_in_cmd (jobs s))"
      "non_built_in_cmd (jobs s) ! i = e" "j_id e = n"
    using job_position [OF assms] by blast
  have "job_table (set_status i Background (unstop n (jobs s))) =
      (job_table (jobs s))(n \<mapsto> e\<lparr>j_status := Background\<rparr>)"
    using set_status_table [OF unstop_ok [OF assms(1)], where st = Background and e = e and i = i] i assms(2) by simp
  moreover have "i < JOBS_MAX_AMOUNT" using i(2) assms(1) by (simp add: jobs_ok_def)
  ultimately show thesis
    using that [of i] i set_status_ok [OF unstop_ok [OF assms(1)], where st = Background and i = i]
    by (simp add: send_SIG_TO_JOB_def)
qed

section \<open>Foreground\<close>

text \<open>The state in which \<open>fg\<close> waits for the process of the job, compared with the state before.\<close>

definition fg_wait_state :: "shell \<Rightarrow> int \<Rightarrow> JobEntry \<Rightarrow> string \<Rightarrow> shell \<Rightarrow> bool" where
  "fg_wait_state s n e name s3 \<longleftrightarrow>
     jobs_ok (jobs s3) \<and> job_table (jobs s3) = (job_table (jobs s))(n \<mapsto> e\<lparr>j_status := Background\<rparr>) \<and>
     map p_id (non_built_in_cmd (jobs s3)) = map p_id (non_built_in_cmd (jobs s)) \<and>
     tick s3 = Suc (tick s) \<and> sent s3 = sent s @ [(p_id e, SIGCONT)] \<and> for_pid s3 = p_id e \<and>
     stdout_to s3 = stdout_to s \<and>
     written s3 = written (cout (name @ '' : '' @ show_int (p_id e) @ newline) s)"

lemma fg_waits:
  assumes "jobs_ok (jobs s)" and "job_table (jobs s) n = Some e" and "get_cmd s (cmd e) = Inr co"
    and "kill_rc env (tick s) (p_id e) SIGCONT \<noteq> -1"
  obtains s3 where "fg_run env n c s = rbind (waitpid env s3) (\<lambda>(_, s4). fg_after env n s4)"
    and "fg_wait_state s n e (entered_cmd co) s3"
proof -
  define s1 where "s1 = cout (entered_cmd co @ '' : '' @ show_int (p_id e) @ newline) s"
  have s1: "jobs s1 = jobs s" "tick s1 = tick s" "sent s1 = sent s" "stdout_to s1 = stdout_to s"
      "written s1 = written (cout (entered_cmd co @ '' : '' @ show_int (p_id e) @ newline) s)"
    by (simp_all add: s1_def)
  obtain k where k: "getJobById n (jobs s) = Some k" "non_built_in_cmd (jobs s) ! k = e"
      "k < length (non_built_in_cmd (jobs s))"
    using job_position [OF assms(1,2)] by blast
  have print: "print_job n s = Inr s1"
    using k assms(3) by (simp add: print_job_def getNameCmd_def s1_def)
  obtain i where i: "send_SIG_TO_JOB env n SIGCONT s1 =
      kill_report env (p_id e) SIGCONT (s1\<lparr>jobs := set_status i Background (unstop n (jobs s))\<rparr>)"
      "jobs_ok (set_status i Background (unstop n (jobs s)))"
      "job_table (set_status i Background (unstop n (jobs s))) =
         (job_table (jobs s))(n \<mapsto> e\<lparr>j_status := Background\<rparr>)"
    using SIGCONT_effect [of s1 n e env] assms(1,2) s1(1) by auto
  have pids: "map p_id (l[i := (l ! i)\<lparr>j_status := st\<rparr>]) = map p_id l" for l i st
    by (cases "i < length l") (simp_all add: map_update list_update_beyond list_update_same_conv not_less)
  define s2 where "s2 = send_SIG_TO_JOB env n SIGCONT s1"
  define s3 where "s3 = s2\<lparr>for_pid := p_id e, cmds := cmds s2 @ [new_command ExternalCommand (entered_cmd c)],
      for_cmd := Some (length (cmds s2))\<rparr>"
  have "fg_run env n c s = rbind (waitpid env s3) (\<lambda>(_, s4). fg_after env n s4)"
    using k print by (simp add: fg_run_def Let_def s2_def s3_def)
  moreover have "map p_id (non_built_in_cmd (jobs s3)) = map p_id (non_built_in_cmd (jobs s))"
    by (simp add: s3_def s2_def i(1) set_status_def pids)
  ultimately show thesis
    using i(2,3) assms(4) s1 by (intro that [of s3]) (simp_all add: fg_wait_state_def s3_def s2_def i(1))
qed

lemma getJobById_removed: "0 < n \<Longrightarrow> getJobById n (removeJobById n jl) = None"
  by (rule job_unknown) (simp_all add: removeJobById_table)

lemma fg_after_running:
  assumes "jobs_ok (jobs s)" and "job_table (jobs s) n = Some e" and "j_status e \<noteq> Stopped"
  shows "fg_after env n s = Inr (s\<lparr>jobs := removeJobById n (jobs s)\<rparr>)"
proof -
  obtain i where "getJobById n (jobs s) = Some i" "non_built_in_cmd (jobs s) ! i = e" "0 < n"
    using job_position [OF assms(1,2)] by blast
  then show ?thesis using assms(3) by (simp add: fg_after_def getJobById_removed)
qed

text \<open>The line \<open>fg\<close>.\<close>

lemma CreateCommand_fg:
  assumes "\<not> is_Jobs_empty s"
  shows "CreateCommand env ''fg'' s =
     Inr ((new_built_in ForegroundCommand ''fg'')\<lparr>optional_arg := False, cargs := [''fg'']\<rparr>, s)"
proof -
  have "is_word ''fg''" by (simp add: is_word_def isspace_def)
  then have "parseCommandLine ''fg'' = Inr [''fg'']" using parseCommandLine_join [of "[''fg'']"] by simp
  then show ?thesis
    using assms by (simp add: CreateCommand_def cstr_def erase_char_def create_fg_def Let_def
        new_built_in_def new_command_def)
qed

lemma get_cmd_append: "get_cmd s p = Inr co \<Longrightarrow> get_cmd (s\<lparr>curr_cmd := q, cmds := cmds s @ cs\<rparr>) p = Inr co"
  by (auto simp: get_cmd_def nth_append split: option.splits if_splits)

lemma live_job: "jobs_ok (jobs s) \<Longrightarrow> job_table (jobs s) n = Some e \<Longrightarrow> live e \<Longrightarrow> \<not> is_Jobs_empty s"
  by (auto simp: is_Jobs_empty_def is_list_empty_def job_table_def filter_empty_conv dest: entry_of_mem)

text \<open>The line up to the wait, which may never return.\<close>

lemma fg_line:
  assumes "jobs_ok (jobs s)" and "job_table (jobs s) n = Some e" and "n = get_max_job_id (jobs s)" and "live e"
    and "get_cmd s (cmd e) = Inr co" and "kill_rc env (tick s) (p_id e) SIGCONT \<noteq> -1"
  obtains s3 where "fg_wait_state s n e (entered_cmd co) s3"
    and "executeCommand env ''fg'' s = rbind (rbind (waitpid env s3) (\<lambda>(_, s4). fg_after env n s4))
           (\<lambda>t. Inr (1, removeFinishedJobs env (t\<lparr>for_cmd := None, for_pid := -1\<rparr>)))"
proof -
  let ?c = "(new_built_in ForegroundCommand ''fg'')\<lparr>optional_arg := False, cargs := [''fg'']\<rparr>"
  let ?s = "s\<lparr>curr_cmd := Some (length (cmds s)), cmds := cmds s @ [?c]\<rparr>"
  have pre: "jobs_ok (jobs ?s)" "job_table (jobs ?s) n = Some e" "get_cmd ?s (cmd e) = Inr co"
      "kill_rc env (tick ?s) (p_id e) SIGCONT \<noteq> -1"
    using assms(1,2,6) get_cmd_append [OF assms(5)] by simp_all
  obtain s3 where s3: "fg_run env n (?c\<lparr>jlist := True\<rparr>) ?s = rbind (waitpid env s3) (\<lambda>(_, s4). fg_after env n s4)"
      "fg_wait_state ?s n e (entered_cmd co) s3"
    by (rule fg_waits [OF pre, of "?c\<lparr>jlist := True\<rparr>"]) (rule that; assumption)
  have "fg_wait_state s n e (entered_cmd co) s3"
    using s3(2) by (simp add: fg_wait_state_def cout_def put_def)
  moreover have "execute (Suc m) env (?c\<lparr>jlist := True\<rparr>) ?s = rbind (waitpid env s3) (\<lambda>(_, s4). fg_after env n s4)" for m
    using s3(1) assms(3) by (simp add: Foreground_execute_def with_list_def new_built_in_def new_command_def)
  then have "executeCommand env ''fg'' s = rbind (rbind (waitpid env s3) (\<lambda>(_, s4). fg_after env n s4))
      (\<lambda>t. Inr (1, removeFinishedJobs env (t\<lparr>for_cmd := None, for_pid := -1\<rparr>)))"
    using CreateCommand_fg [OF live_job [OF assms(1,2,4)]]
    by (simp add: executeCommand_def new_built_in_def new_command_def arg_def erase_char_def Let_def del: execute.simps)
  ultimately show thesis by (rule that)
qed

text \<open>The wait that does not return.\<close>

lemma fg_blocked:
  assumes "fg_wait_state s n e name s3" and "waitpid_rc env (Suc (tick s)) = None"
  shows "waitpid env s3 = Inl Blocked"
  using assms by (simp add: waitpid_def fg_wait_state_def)

text \<open>The jobs that stay when finished jobs are removed.\<close>

definition staying :: "sh_env \<Rightarrow> nat \<Rightarrow> (int \<rightharpoonup> JobEntry) \<Rightarrow> (int \<rightharpoonup> JobEntry)" where
  "staying env t tab n = (case tab n of None \<Rightarrow> None | Some e \<Rightarrow>
     if j_status e = Stopped \<or> j_status e = Background \<and> waitpid_nohang env t (p_id e) = 0 then Some e else None)"

lemma staying_table:
  "jobs_ok (jobs s) \<Longrightarrow> job_table (jobs (removeFinishedJobs env s)) = staying env (tick s) (job_table (jobs s))"
  using removeFinishedJobs_table [of s env] by (auto simp: staying_def fun_eq_iff split: option.splits)

text \<open>
  C22. \<open>fg\<close> takes the job with the largest number: it prints its name, continues its process, waits,
  and when the process ends removes the job; the others stay, unless they have ended too. If
  the process never ends, \<open>fg\<close> never returns.
\<close>

theorem fg_finishes:
  assumes "jobs_ok (jobs s)" and "job_table (jobs s) (get_max_job_id (jobs s)) = Some e" and "live e"
    and "get_cmd s (cmd e) = Inr co" and "kill_rc env (tick s) (p_id e) SIGCONT \<noteq> -1"
    and "keys env (Suc (tick s)) = []" and "stdout_to s \<noteq> Closed"
  shows "if waitpid_rc env (Suc (tick s)) = None then executeCommand env ''fg'' s = Inl Blocked
     else \<exists>s'. executeCommand env ''fg'' s = Inr (1, s') \<and>
     job_table (jobs s') = staying env (tick s + 2) ((job_table (jobs s))(get_max_job_id (jobs s) := None)) \<and>
     sent s' = sent s @ [(p_id e, SIGCONT)] \<and> for_pid s' = -1 \<and>
     written s' (stdout_to s) = written s (stdout_to s) @ entered_cmd co @ '' : '' @ show_int (p_id e) @ newline"
proof -
  let ?n = "get_max_job_id (jobs s)"
  obtain s3 where s3: "fg_wait_state s ?n e (entered_cmd co) s3"
    and run: "executeCommand env ''fg'' s = rbind (rbind (waitpid env s3) (\<lambda>(_, s4). fg_after env ?n s4))
           (\<lambda>t. Inr (1, removeFinishedJobs env (t\<lparr>for_cmd := None, for_pid := -1\<rparr>)))"
    by (rule fg_line [OF assms(1,2) refl assms(3-5)]) (rule that; assumption)
  show ?thesis
  proof (cases "waitpid_rc env (Suc (tick s))")
    case None
    with fg_blocked [OF s3] run show ?thesis by simp
  next
    case (Some rc)
    let ?t = "s3\<lparr>tick := tick s + 2, jobs := removeJobById ?n (jobs s3)\<rparr>"
    have "waitpid env s3 = Inr (rc, s3\<lparr>tick := tick s + 2\<rparr>)"
      using assms(6) s3 Some by (simp add: waitpid_def block_def fg_wait_state_def)
    moreover have "fg_after env ?n (s3\<lparr>tick := tick s + 2\<rparr>) = Inr ?t"
      using fg_after_running [of "s3\<lparr>tick := tick s + 2\<rparr>" ?n] s3 by (simp add: fg_wait_state_def)
    moreover have "jobs_ok (jobs ?t)" "job_table (jobs ?t) = (job_table (jobs s))(?n := None)"
      using s3 by (auto simp: fg_wait_state_def removeJobById_ok removeJobById_table)
    ultimately show ?thesis
      using assms(7) staying_table [of "?t\<lparr>for_cmd := None, for_pid := -1\<rparr>" env] run s3 Some
      by (simp add: fg_wait_state_def cout_def put_def removeFinishedJobs_def Let_def)
  qed
qed

text \<open>A background job that ends in the foreground.\<close>

lemma one_job_max: "get_max_job_id one_job = 1"
proof -
  let ?e = "\<lparr>j_status = Background, j_id = 1, p_id = 100, cmd = Some 0, jtime = 0\<rparr>"
  have "set (non_built_in_cmd one_job) \<subseteq> {?e, empty_entry}"
    using set_update_subset_insert [of "replicate JOBS_MAX_AMOUNT empty_entry" 0 ?e]
    by (auto simp: one_job_def new_JobsList_def)
  moreover have "?e \<in> set (non_built_in_cmd one_job)"
    using one_job_table entry_of_mem by (fastforce simp: job_table_def)
  ultimately show ?thesis using get_max_is [OF one_job_ok, of ?e] by (fastforce simp: empty_entry_def)
qed

lemma one_job_pid: "filter (\<lambda>x. p_id x = 100) (non_built_in_cmd one_job) =
    [\<lparr>j_status = Background, j_id = 1, p_id = 100, cmd = Some 0, jtime = 0\<rparr>]"
  using replicate_Suc [of 149 empty_entry]
  by (simp add: one_job_def new_JobsList_def JOBS_MAX_AMOUNT_def empty_entry_def del: replicate_Suc)

theorem fg_finishes_witness:
  "\<exists>s'. executeCommand calm_env ''fg'' ((new_SmallShell ''/'')\<lparr>jobs := one_job,
       cmds := [new_command ExternalCommand ''sleep 5&'']\<rparr>) = Inr (1, s') \<and>
     job_table (jobs s') 1 = None \<and> sent s' = [(100, 18)] \<and> written s' Terminal = ''sleep 5& : 100'' @ newline"
proof -
  let ?s = "(new_SmallShell ''/'')\<lparr>jobs := one_job, cmds := [new_command ExternalCommand ''sleep 5&'']\<rparr>"
  have "get_cmd ?s (Some 0) = Inr (new_command ExternalCommand ''sleep 5&'')" by (simp add: get_cmd_def)
  moreover have "show_int 100 = ''100''" by (simp add: show_int_def show_nat.simps digit_def char_of_def bit_0)
  ultimately show ?thesis
    using fg_finishes [of ?s _ "new_command ExternalCommand ''sleep 5&''" calm_env] one_job_table
    by (auto simp: one_job_max live_def calm_env_def new_SmallShell_def new_command_def staying_def)
qed

text \<open>The only entry with its process number.\<close>

lemma only_position:
  assumes "filter P l = [e]" and "i < length l" and "P (l ! i)" and "j < length l" and "P (l ! j)"
  shows "i = j"
proof -
  have "card {k. k < length l \<and> P (l ! k)} = 1"
    using assms(1) length_filter_conv_card [of P l] by simp
  then obtain k where "{k. k < length l \<and> P (l ! k)} = {k}" by (auto simp: card_Suc_eq)
  then have "i = k" "j = k" using assms(2-5) by blast+
  then show ?thesis by simp
qed

lemma stop_listed_table:
  assumes "jobs_ok jl" and "job_table jl n = Some e"
    and "\<And>i j. i < length (non_built_in_cmd jl) \<Longrightarrow> j < length (non_built_in_cmd jl) \<Longrightarrow>
       p_id (non_built_in_cmd jl ! i) = p_id e \<Longrightarrow> p_id (non_built_in_cmd jl ! j) = p_id e \<Longrightarrow> i = j"
  shows "job_table (stop_listed (p_id e) jl) = (job_table jl)(n \<mapsto> e\<lparr>j_status := Stopped\<rparr>)"
proof -
  obtain i where i: "getJobById n jl = Some i" "i < length (non_built_in_cmd jl)" "non_built_in_cmd jl ! i = e"
    using job_position [OF assms(1,2)] by blast
  moreover have "p_id (non_built_in_cmd jl ! j) \<noteq> p_id e" if "j < i" for j
    using assms(3) [of i j] i(2,3) that by auto
  ultimately have "find_index (\<lambda>job. p_id job = p_id e) (non_built_in_cmd jl) = Some i"
    by (simp add: find_index_Some)
  then show ?thesis
    using set_status_table [OF assms(1) i(1) assms(2), of Stopped]
    by (simp add: stop_listed_def job_table_def)
qed

lemma SetNewId_table:
  assumes "jobs_ok (jobs s)" and "job_table (jobs s) n = Some e"
  obtains jl where "SetNewId env n s = Inr (s\<lparr>jobs := jl\<rparr>)" and "jobs_ok jl"
    and "job_table jl = (job_table (jobs s))(n \<mapsto> e\<lparr>jtime := now env (tick s)\<rparr>)"
proof -
  let ?l = "non_built_in_cmd (jobs s)"
  obtain i where i: "getJobById n (jobs s) = Some i" "i < length ?l" "?l ! i = e" "0 < n" "j_id e = n"
      "j_status e \<noteq> Empty"
    using job_position [OF assms] by blast
  let ?t = "now env (tick s)"
  define jl where "jl = (jobs s)\<lparr>non_built_in_cmd := ?l[i := e\<lparr>jtime := ?t\<rparr>],
      stoppedd := map (\<lambda>jobb. if j_id jobb = n then jobb\<lparr>jtime := ?t\<rparr> else jobb) (stoppedd (jobs s))\<rparr>"
  have run: "SetNewId env n s = Inr (s\<lparr>jobs := jl\<rparr>)"
    using i by (simp add: SetNewId_def Let_def jl_def)
  moreover have "entry_of (?l[i := e\<lparr>jtime := ?t\<rparr>]) = (entry_of ?l)(n \<mapsto> e\<lparr>jtime := ?t\<rparr>)"
    using entry_of_same_id [of ?l i "e\<lparr>jtime := ?t\<rparr>"] i assms(1) by (simp add: jobs_ok_def)
  ultimately show thesis
    using SetNewId_ok [OF assms(1) run] by (intro that [of jl]) (simp_all add: job_table_def jl_def)
qed

text \<open>Ctrl-Z while the process of a listed job runs in the foreground.\<close>

lemma ctrlZ_listed:
  assumes "for_pid s \<noteq> -1" and "is_job_pid_in (for_pid s) (jobs s)"
  shows "\<exists>s'. ctrlZHandler env s = Inr s' \<and> tick s' = Suc (tick s) \<and>
     jobs s' = stop_listed (for_pid s) (jobs s) \<and> sent s' = sent s @ [(for_pid s, SIGSTOP)]"
  using assms by (simp add: ctrlZHandler_def Let_def)

lemma fg_after_stopped:
  assumes "jobs_ok (jobs s)" and "job_table (jobs s) n = Some e" and "j_status e = Stopped"
  shows "fg_after env n s = SetNewId env n s"
proof -
  obtain i where "getJobById n (jobs s) = Some i" "non_built_in_cmd (jobs s) ! i = e"
    using job_position [OF assms(1,2)] by blast
  then show ?thesis using assms(3) by (simp add: fg_after_def)
qed

lemma fg_wait_stopped:
  assumes s3: "fg_wait_state s n e name s3" and "keys env (Suc (tick s)) = [CtrlZ]" and "p_id e \<noteq> -1"
    and "filter (\<lambda>x. p_id x = p_id e) (non_built_in_cmd (jobs s)) = [e]"
    and rc: "waitpid_rc env (Suc (tick s)) = Some rc"
  shows "\<exists>t. rbind (waitpid env s3) (\<lambda>(_, s4). fg_after env n s4) = Inr t \<and> jobs_ok (jobs t) \<and>
     job_table (jobs t) =
       (job_table (jobs s))(n \<mapsto> e\<lparr>j_status := Stopped, jtime := now env (tick s + 3)\<rparr>) \<and>
     tick t = tick s + 3 \<and> sent t = sent s @ [(p_id e, SIGCONT), (p_id e, SIGSTOP)]"
proof -
  let ?l = "non_built_in_cmd (jobs s)"
  let ?b = "e\<lparr>j_status := Background\<rparr>" and ?l3 = "non_built_in_cmd (jobs s3)"
  have ok3: "jobs_ok (jobs s3)" and tab3: "job_table (jobs s3) n = Some ?b"
    using s3 by (simp_all add: fg_wait_state_def)
  have len: "length ?l3 = length ?l" and pid: "i < length ?l \<Longrightarrow> p_id (?l3 ! i) = p_id (?l ! i)" for i
    using s3 map_eq_imp_length_eq unfolding fg_wait_state_def by (blast, metis nth_map map_eq_imp_length_eq)
  then have only: "i < length ?l3 \<Longrightarrow> j < length ?l3 \<Longrightarrow> p_id (?l3 ! i) = p_id ?b \<Longrightarrow> p_id (?l3 ! j) = p_id ?b \<Longrightarrow> i = j"
    for i j using only_position [OF assms(4), of i j] by simp
  have "is_job_pid_in (p_id e) (jobs s3)"
    using tab3 entry_of_mem [of ?l3 n ?b] 
    by (auto simp: job_table_def is_job_pid_in_def list_ex_iff intro!: bexI [of _ ?b])
  then have "\<exists>s4. ctrlZHandler env (s3\<lparr>tick := Suc (tick s3)\<rparr>) = Inr s4 \<and> tick s4 = tick s + 3 \<and>
      jobs s4 = stop_listed (p_id ?b) (jobs s3) \<and> sent s4 = sent s @ [(p_id e, SIGCONT), (p_id e, SIGSTOP)]"
    using ctrlZ_listed [of "s3\<lparr>tick := Suc (tick s3)\<rparr>" env] s3 assms(3)
    by (simp add: fg_wait_state_def numeral_3_eq_3)
  then obtain s4 where s4: "ctrlZHandler env (s3\<lparr>tick := Suc (tick s3)\<rparr>) = Inr s4" "tick s4 = tick s + 3"
      "jobs s4 = stop_listed (p_id ?b) (jobs s3)" "sent s4 = sent s @ [(p_id e, SIGCONT), (p_id e, SIGSTOP)]"
    by blast
  have tab4: "job_table (jobs s4) = (job_table (jobs s))(n \<mapsto> e\<lparr>j_status := Stopped\<rparr>)"
    using stop_listed_table [OF ok3 tab3 only] s4(3) s3 by (simp add: fg_wait_state_def)
  have ok4: "jobs_ok (jobs s4)" using stop_listed_ok [OF ok3] s4(3) by simp
  have "waitpid env s3 = Inr (rc, s4)"
    using assms(2) s3 s4(1) rc by (simp add: waitpid_def block_def handle_def fg_wait_state_def)
  moreover obtain jl where "SetNewId env n s4 = Inr (s4\<lparr>jobs := jl\<rparr>)" "jobs_ok jl"
      "job_table jl = (job_table (jobs s))(n \<mapsto> e\<lparr>j_status := Stopped, jtime := now env (tick s + 3)\<rparr>)"
    using SetNewId_table [OF ok4, of n _ env] tab4 s4(2) by auto
  ultimately show ?thesis
    using fg_after_stopped [OF ok4] tab4 s4 by auto
qed

text \<open>
  C23. Ctrl-Z while \<open>fg\<close> waits: the process, which was just continued, is sent \<open>SIGSTOP\<close>, and the job
  stays in the list under its number, stopped, with the time of the stop (unless the wait does
  not return even then).
\<close>

theorem fg_stopped:
  assumes "jobs_ok (jobs s)" and "job_table (jobs s) (get_max_job_id (jobs s)) = Some e" and "live e"
    and "get_cmd s (cmd e) = Inr co" and "kill_rc env (tick s) (p_id e) SIGCONT \<noteq> -1"
    and "keys env (Suc (tick s)) = [CtrlZ]" and "p_id e \<noteq> -1"
    and "filter (\<lambda>x. p_id x = p_id e) (non_built_in_cmd (jobs s)) = [e]"
  shows "if waitpid_rc env (Suc (tick s)) = None then executeCommand env ''fg'' s = Inl Blocked
     else \<exists>s'. executeCommand env ''fg'' s = Inr (1, s') \<and>
     job_table (jobs s') = staying env (tick s + 3) ((job_table (jobs s))
       (get_max_job_id (jobs s) \<mapsto> e\<lparr>j_status := Stopped, jtime := now env (tick s + 3)\<rparr>)) \<and>
     sent s' = sent s @ [(p_id e, SIGCONT), (p_id e, SIGSTOP)] \<and> for_pid s' = -1"
proof -
  let ?n = "get_max_job_id (jobs s)"
  let ?e = "e\<lparr>j_status := Stopped, jtime := now env (tick s + 3)\<rparr>"
  obtain s3 where s3: "fg_wait_state s ?n e (entered_cmd co) s3"
    and run: "executeCommand env ''fg'' s = rbind (rbind (waitpid env s3) (\<lambda>(_, s4). fg_after env ?n s4))
           (\<lambda>t. Inr (1, removeFinishedJobs env (t\<lparr>for_cmd := None, for_pid := -1\<rparr>)))"
    by (rule fg_line [OF assms(1,2) refl assms(3-5)]) (rule that; assumption)
  show ?thesis
  proof (cases "waitpid_rc env (Suc (tick s))")
    case None
    with fg_blocked [OF s3] run show ?thesis by simp
  next
    case (Some rc)
    from fg_wait_stopped [OF s3 assms(6-8) Some] obtain t where
      t: "rbind (waitpid env s3) (\<lambda>(_, s4). fg_after env ?n s4) = Inr t" "jobs_ok (jobs t)"
        "job_table (jobs t) = (job_table (jobs s))(?n \<mapsto> ?e)" "tick t = tick s + 3"
        "sent t = sent s @ [(p_id e, SIGCONT), (p_id e, SIGSTOP)]" by blast
    with run Some show ?thesis
      using staying_table [of "t\<lparr>for_cmd := None, for_pid := -1\<rparr>" env]
      by (simp add: removeFinishedJobs_def Let_def)
  qed
qed

theorem fg_stopped_witness:
  "\<exists>s' e. executeCommand (calm_env\<lparr>keys := (\<lambda>t. if t = 1 then [CtrlZ] else [])\<rparr>) ''fg''
       ((new_SmallShell ''/'')\<lparr>jobs := one_job, cmds := [new_command ExternalCommand ''sleep 5&'']\<rparr>) = Inr (1, s') \<and>
     job_table (jobs s') 1 = Some e \<and> j_status e = Stopped \<and> sent s' = [(100, 18), (100, 19)]"
proof -
  let ?s = "(new_SmallShell ''/'')\<lparr>jobs := one_job, cmds := [new_command ExternalCommand ''sleep 5&'']\<rparr>"
  let ?env = "calm_env\<lparr>keys := (\<lambda>t. if t = 1 then [CtrlZ] else [])\<rparr>"
  let ?e = "\<lparr>j_status = Background, j_id = 1, p_id = 100, cmd = Some 0, jtime = 0\<rparr>"
  have "get_cmd ?s (Some 0) = Inr (new_command ExternalCommand ''sleep 5&'')" by (simp add: get_cmd_def)
  moreover have "filter (\<lambda>x. p_id x = 100) (non_built_in_cmd one_job) = [?e]" by (rule one_job_pid)
  ultimately show ?thesis
    using fg_stopped [of ?s ?e "new_command ExternalCommand ''sleep 5&''" ?env] one_job_table
    by (auto simp: one_job_max live_def calm_env_def new_SmallShell_def new_command_def staying_def)
qed

section \<open>The stopped jobs\<close>

text \<open>
  The vector \<open>stoppedd\<close> mirrors the table: a number has an entry there, not emptied, exactly when
  its job is stopped.
\<close>

definition stopped_ids :: "JobsList \<Rightarrow> int set" where
  "stopped_ids jl = {j_id x | x. x \<in> set (stoppedd jl) \<and> j_status x \<noteq> Empty \<and> 0 < j_id x}"

definition mirrored :: "JobsList \<Rightarrow> bool" where
  "mirrored jl \<longleftrightarrow> (\<forall>n. n \<in> stopped_ids jl \<longleftrightarrow> (\<exists>e. job_table jl n = Some e \<and> j_status e = Stopped))"

lemma new_JobsList_mirrored: "mirrored new_JobsList"
  by (auto simp: mirrored_def stopped_ids_def new_JobsList_def job_table_def entry_of_def empty_entry_def
      JOBS_MAX_AMOUNT_def find_Some_iff)

text \<open>\<open>getLastStoppedJob\<close> finds the largest number among them.\<close>

lemma last_stopped:
  assumes "mirrored jl" and "job_table jl n = Some e" and "j_status e = Stopped"
    and "\<And>m x. job_table jl m = Some x \<Longrightarrow> j_status x = Stopped \<Longrightarrow> m \<le> n"
  shows "\<exists>k. getLastStoppedJob jl = (n, Some k)"
proof -
  define mx where "mx = foldl (\<lambda>m jobb. if j_id jobb > m \<and> j_status jobb \<noteq> Empty then j_id jobb else m) 0 (stoppedd jl)"
  have eq: "mx = foldl (\<lambda>r e. if j_status e \<noteq> Empty then (if r > j_id e then r else j_id e) else r) 0 (stoppedd jl)"
    unfolding mx_def by (rule arg_cong [where f = "\<lambda>f. foldl f 0 (stoppedd jl)"]) (auto simp: fun_eq_iff)
  have mx: "\<forall>x \<in> set (stoppedd jl). j_status x \<noteq> Empty \<longrightarrow> j_id x \<le> mx"
      "mx = 0 \<or> (\<exists>x \<in> set (stoppedd jl). j_status x \<noteq> Empty \<and> j_id x = mx)" "0 \<le> mx"
    using max_fold [OF eq] by blast+
  have "n \<in> stopped_ids jl" using assms(1-3) by (auto simp: mirrored_def)
  then have n: "0 < n" "n \<le> mx" using mx(1) by (auto simp: stopped_ids_def)
  then obtain x where x: "x \<in> set (stoppedd jl)" "j_status x \<noteq> Empty" "j_id x = mx" using mx(2) by auto
  then have "mx \<in> stopped_ids jl" using n by (force simp: stopped_ids_def)
  then have "mx \<le> n" using assms(1,4) by (auto simp: mirrored_def)
  then have "mx = n" using n by simp
  moreover have "find_index (\<lambda>jobb. j_id jobb = mx) (stoppedd jl) \<noteq> None"
    using x by (auto simp: find_index_None in_set_conv_nth)
  ultimately show ?thesis using n(1) by (auto simp: getLastStoppedJob_def mx_def [symmetric] Let_def)
qed

section \<open>Background\<close>

lemma CreateCommand_bg:
  "CreateCommand env ''bg'' s =
     Inr ((new_built_in BackgroundCommand ''bg'')\<lparr>optional_arg := False, cargs := [''bg'']\<rparr>, s)"
proof -
  have "is_word ''bg''" by (simp add: is_word_def isspace_def)
  then have "parseCommandLine ''bg'' = Inr [''bg'']" using parseCommandLine_join [of "[''bg'']"] by simp
  then show ?thesis
    by (simp add: CreateCommand_def cstr_def erase_char_def create_bg_def Let_def new_built_in_def new_command_def)
qed

lemma bg_run:
  assumes "jobs_ok (jobs s)" and "job_table (jobs s) n = Some e" and "get_cmd s (cmd e) = Inr co"
    and "getLastStoppedJob (jobs s) = (n, Some k)" and "\<not> optional_arg c" and "\<not> INVALID_ARG c" and "jlist c"
  shows "\<exists>t. Background_execute env c s = Inr t \<and> jobs_ok (jobs t) \<and> tick t = Suc (tick s) \<and>
     job_table (jobs t) = (job_table (jobs s))(n \<mapsto> e\<lparr>j_status := Background\<rparr>) \<and>
     sent t = sent s @ [(p_id e, SIGCONT)]"
proof -
  define s1 where "s1 = cout (entered_cmd co @ '' : '' @ show_int (p_id e) @ newline) s"
  have s1: "jobs s1 = jobs s" "tick s1 = tick s" "sent s1 = sent s" by (simp_all add: s1_def)
  obtain j where j: "getJobById n (jobs s) = Some j" "non_built_in_cmd (jobs s) ! j = e"
    using job_position [OF assms(1,2)] by blast
  have print: "print_job n s = Inr s1"
    using j assms(3) by (simp add: print_job_def getNameCmd_def s1_def)
  obtain i where i: "send_SIG_TO_JOB env n SIGCONT s1 =
      kill_report env (p_id e) SIGCONT (s1\<lparr>jobs := set_status i Background (unstop n (jobs s))\<rparr>)"
      "jobs_ok (set_status i Background (unstop n (jobs s)))"
      "job_table (set_status i Background (unstop n (jobs s))) =
         (job_table (jobs s))(n \<mapsto> e\<lparr>j_status := Background\<rparr>)"
    using SIGCONT_effect [of s1 n e env] assms(1,2) s1(1) by auto
  define jl where "jl = set_status i Background (unstop n (jobs s))"
  have jl: "jobs_ok jl" "job_table jl n = Some (e\<lparr>j_status := Background\<rparr>)" using i by (simp_all add: jl_def)
  obtain k where k: "getJobById n jl = Some k" using job_position [OF jl] by blast
  have "jobs_ok (set_status k Background jl)"
    using set_status_ok [OF jl(1)] getJobById_bound [OF jl(1) k] by simp
  moreover have "job_table (set_status k Background jl) = (job_table (jobs s))(n \<mapsto> e\<lparr>j_status := Background\<rparr>)"
    using set_status_table [OF jl(1) k jl(2), of Background] i(3) by (simp add: jl_def)
  ultimately show ?thesis
    using assms(4-7) print i(1) k s1 by (simp add: Background_execute_def with_list_def Let_def jl_def)
qed

text \<open>
  C24. \<open>bg\<close> resumes the stopped job with the largest number: its process is continued and it stays in
  the list as a background job.
\<close>

theorem bg_resumes:
  assumes "jobs_ok (jobs s)" and "mirrored (jobs s)" and "job_table (jobs s) n = Some e" and "j_status e = Stopped"
    and "\<forall>m x. job_table (jobs s) m = Some x \<longrightarrow> j_status x = Stopped \<longrightarrow> m \<le> n"
    and "get_cmd s (cmd e) = Inr co"
  shows "\<exists>s'. executeCommand env ''bg'' s = Inr (1, s') \<and> sent s' = sent s @ [(p_id e, SIGCONT)] \<and>
     job_table (jobs s') = staying env (tick s + 1) ((job_table (jobs s))(n \<mapsto> e\<lparr>j_status := Background\<rparr>))"
proof -
  let ?c = "(new_built_in BackgroundCommand ''bg'')\<lparr>optional_arg := False, cargs := [''bg'']\<rparr>"
  let ?s = "s\<lparr>curr_cmd := Some (length (cmds s)), cmds := cmds s @ [?c]\<rparr>"
  obtain k where "getLastStoppedJob (jobs s) = (n, Some k)"
    using last_stopped [OF assms(2-4)] assms(5) by blast
  then obtain t where t: "Background_execute env (?c\<lparr>jlist := True\<rparr>) ?s = Inr t" "jobs_ok (jobs t)"
      "tick t = Suc (tick s)" "job_table (jobs t) = (job_table (jobs s))(n \<mapsto> e\<lparr>j_status := Background\<rparr>)"
      "sent t = sent s @ [(p_id e, SIGCONT)]"
    using bg_run [of ?s n e co k "?c\<lparr>jlist := True\<rparr>" env] assms(1,3) get_cmd_append [OF assms(6)]
    by (auto simp: new_built_in_def new_command_def)
  have "execute (Suc m) env (?c\<lparr>jlist := True\<rparr>) ?s = Inr t" for m
    using t(1) by (simp add: new_built_in_def new_command_def)
  from executeCommand_built_in [OF CreateCommand_bg _ _ _ this] have
    "executeCommand env ''bg'' s = Inr (1, removeFinishedJobs env (t\<lparr>for_cmd := None, for_pid := -1\<rparr>))"
    by (simp add: new_built_in_def erase_char_def)
  then show ?thesis
    using t staying_table [of "t\<lparr>for_cmd := None, for_pid := -1\<rparr>" env] by simp
qed

section \<open>The mirror is kept\<close>

lemma mirroredI:
  assumes "mirrored jl"
    and "\<And>n. 0 < n \<Longrightarrow> n \<in> stopped_ids jl' \<longleftrightarrow> (if n = m then P else n \<in> stopped_ids jl)"
    and "\<And>n. 0 < n \<Longrightarrow> (\<exists>e. job_table jl' n = Some e \<and> j_status e = Stopped) \<longleftrightarrow>
      (if n = m then P else \<exists>e. job_table jl n = Some e \<and> j_status e = Stopped)"
  shows "mirrored jl'"
proof -
  have "n \<in> stopped_ids jl' \<longleftrightarrow> (\<exists>e. job_table jl' n = Some e \<and> j_status e = Stopped)" for n
  proof (cases "0 < n")
    case True
    then show ?thesis using assms(1) assms(2,3) [OF True] by (simp add: mirrored_def)
  qed (auto simp: stopped_ids_def job_table_def dest: entry_of_mem)
  then show ?thesis by (simp add: mirrored_def)
qed

lemma find_update:
  "i < length l \<Longrightarrow> \<not> P (l ! i) \<Longrightarrow> \<not> P x \<Longrightarrow> find P (l[i := x]) = find P l"
  by (induction l arbitrary: i) (auto split: nat.splits)

text \<open>The status of the entry at a position, whatever its number.\<close>

lemma set_status_job_table:
  assumes "jobs_ok jl" and "i < length (non_built_in_cmd jl)" and "st \<noteq> Empty" and "0 < n"
  shows "job_table (set_status i st jl) n =
     (if n = j_id (non_built_in_cmd jl ! i) then Some ((non_built_in_cmd jl ! i)\<lparr>j_status := st\<rparr>)
      else job_table jl n)"
proof -
  let ?l = "non_built_in_cmd jl"
  have ok: "ids_ok ?l" using assms(1) by (simp add: jobs_ok_def)
  show ?thesis
  proof (cases "n = j_id (?l ! i)")
    case True
    then show ?thesis
      using entry_of_same_id [OF ok assms(2), of "(?l ! i)\<lparr>j_status := st\<rparr>"] assms(3,4)
      by (simp add: job_table_def set_status_def)
  next
    case False
    then show ?thesis
      using find_update [OF assms(2), of "\<lambda>x. j_id x = n" "(?l ! i)\<lparr>j_status := st\<rparr>"]
      by (simp add: job_table_def set_status_def entry_of_def)
  qed
qed

lemma stopped_ids_simps [simp]:
  "stopped_ids (set_status i st jl) = stopped_ids jl"
  "stopped_ids (unstop n jl) = stopped_ids jl - {n}"
  "stopped_ids (removeJobById n jl) = stopped_ids jl - {n}"
  by (auto simp: stopped_ids_def set_status_def unstop_def removeJobById_def image_iff split: if_splits)

lemma stopped_ids_append:
  assumes "stoppedd jl' = stoppedd jl @ [stopped_copy e]"
  shows "stopped_ids jl' = (if 0 < j_id e then insert (j_id e) (stopped_ids jl) else stopped_ids jl)"
proof -
  have "j_id (stopped_copy e) = j_id e" "j_status (stopped_copy e) = Stopped"
    by (simp_all add: stopped_copy_def)
  then show ?thesis unfolding stopped_ids_def assms by (auto, metis job_status.distinct(9))
qed

lemma mirrored_stop:
  assumes "jobs_ok jl" and "mirrored jl" and "i < length (non_built_in_cmd jl)"
  shows "mirrored ((set_status i Stopped jl)\<lparr>stoppedd := stoppedd jl @ [stopped_copy (non_built_in_cmd jl ! i)]\<rparr>)"
proof (rule mirroredI [OF assms(2), where m = "j_id (non_built_in_cmd jl ! i)" and P = True])
  fix n :: int
  assume n: "0 < n"
  have same: "stoppedd (set_status i Stopped jl) = stoppedd jl" by (simp add: set_status_def)
  show "n \<in> stopped_ids ((set_status i Stopped jl)\<lparr>stoppedd := stoppedd jl @ [stopped_copy (non_built_in_cmd jl ! i)]\<rparr>) \<longleftrightarrow>
      (if n = j_id (non_built_in_cmd jl ! i) then True else n \<in> stopped_ids jl)"
    by (subst stopped_ids_append [of _ "set_status i Stopped jl"]) (use n same in auto)
  show "(\<exists>e. job_table ((set_status i Stopped jl)\<lparr>stoppedd := stoppedd jl @ [stopped_copy (non_built_in_cmd jl ! i)]\<rparr>) n = Some e \<and>
      j_status e = Stopped) \<longleftrightarrow>
      (if n = j_id (non_built_in_cmd jl ! i) then True else \<exists>e. job_table jl n = Some e \<and> j_status e = Stopped)"
    using set_status_job_table [OF assms(1,3) _ n, of Stopped] by (simp add: job_table_def)
qed

lemma mirrored_resume:
  assumes "jobs_ok jl" and "mirrored jl" and "i < length (non_built_in_cmd jl)" and "st \<noteq> Empty" and "st \<noteq> Stopped"
  shows "mirrored (set_status i st (unstop (j_id (non_built_in_cmd jl ! i)) jl))"
  by (rule mirroredI [OF assms(2), where m = "j_id (non_built_in_cmd jl ! i)" and P = False])
    (use set_status_job_table [OF unstop_ok [OF assms(1)]] assms(3-5) in auto)

lemma mirrored_remove: "mirrored jl \<Longrightarrow> mirrored (removeJobById n jl)"
  by (rule mirroredI [where m = n and P = False]) (auto simp: removeJobById_table)

lemma mirrored_stop_listed: "jobs_ok jl \<Longrightarrow> mirrored jl \<Longrightarrow> mirrored (stop_listed p jl)"
  by (auto simp: stop_listed_def find_index_Some mirrored_stop split: option.splits)

lemma mirrored_send:
  assumes "jobs_ok (jobs s)" and "mirrored (jobs s)"
  shows "mirrored (jobs (send_SIG_TO_JOB env n sig s))"
proof (cases "getJobById n (jobs s)")
  case (Some i)
  then have i: "i < length (non_built_in_cmd (jobs s))" by (simp add: getJobById_def find_index_Some)
  show ?thesis
    using mirrored_stop [OF assms i] mirrored_resume [OF assms i, of Background]
      mirrored_resume [OF assms i, of Finished] assms(2) Some
    by (auto simp: send_SIG_TO_JOB_def Let_def)
qed (use assms in \<open>simp add: send_SIG_TO_JOB_def\<close>)

lemma mirrored_removeFinishedJobs:
  assumes "mirrored (jobs s)"
  shows "mirrored (jobs (removeFinishedJobs env s))"
proof -
  let ?jl = "(jobs s)\<lparr>non_built_in_cmd := map (reap (waitpid_nohang env (tick s))) (non_built_in_cmd (jobs s))\<rparr>"
  have "mirrored ?jl"
    by (rule mirroredI [OF assms, where m = 0 and P = True])
      (auto simp: stopped_ids_def job_table_def entry_of_map_reap reap_def split: if_splits)
  moreover have "mirrored jl \<Longrightarrow> mirrored (fold sweep ks jl)" for ks jl
    by (induction ks arbitrary: jl) (auto simp: sweep_def Let_def mirrored_remove)
  ultimately show ?thesis by (simp add: removeFinishedJobs_def Let_def)
qed

lemma mirrored_addJob:
  assumes "jobs_ok (jobs s)" and "mirrored (jobs s)" and "get_cmd s c = Inr co" and "\<not> built_in_cmd co"
    and "\<exists>x \<in> set (non_built_in_cmd (jobs s)). j_status x = Empty" and "addJob env c st s = Inr s'"
  shows "mirrored (jobs s')"
proof -
  obtain e where e: "j_status e = (if st then Stopped else Background)"
      "\<forall>n. job_table (jobs s) n \<noteq> None \<longrightarrow> n < j_id e" "j_id e = get_max_job_id (jobs s) + 1"
      "job_table (jobs s') = (job_table (jobs s))(j_id e \<mapsto> e)"
    using addJob_table [OF assms(1,3,4), of env st] assms(5,6) by auto
  obtain e' where e': "stoppedd (jobs s') = stoppedd (jobs s) @ (if st then [stopped_copy e'] else [])"
      "j_id e' = j_id e"
    by (rule addJob_effect [OF assms(1,3,4), of env st]) (use assms(6) e(3) that in auto)
  have "stopped_ids (jobs s') = (if st \<and> 0 < j_id e then insert (j_id e) (stopped_ids (jobs s)) else stopped_ids (jobs s))"
    using stopped_ids_append [of "jobs s'" "jobs s" e'] e' by (cases st) (simp_all add: stopped_ids_def)
  moreover have "j_id e \<notin> stopped_ids (jobs s)" using e(2) assms(2) by (force simp: mirrored_def)
  ultimately show ?thesis
    by (intro mirroredI [OF assms(2), where m = "j_id e" and P = st]) (auto simp: e(1,4))
qed

text \<open>Changes that leave the numbers and the states of both vectors alone.\<close>

lemma mirrored_cong:
  assumes "map (\<lambda>e. (j_id e, j_status e)) (non_built_in_cmd jl') = map (\<lambda>e. (j_id e, j_status e)) (non_built_in_cmd jl)"
    and "map (\<lambda>e. (j_id e, j_status e)) (stoppedd jl') = map (\<lambda>e. (j_id e, j_status e)) (stoppedd jl)"
    and "mirrored jl"
  shows "mirrored jl'"
proof -
  have sub: "stopped_ids j1 \<subseteq> stopped_ids j2"
    if "map (\<lambda>e. (j_id e, j_status e)) (stoppedd j1) = map (\<lambda>e. (j_id e, j_status e)) (stoppedd j2)" for j1 j2
  proof
    fix n assume "n \<in> stopped_ids j1"
    then obtain x where x: "x \<in> set (stoppedd j1)" "j_id x = n" "j_status x \<noteq> Empty" "0 < n"
      by (auto simp: stopped_ids_def)
    then have "(j_id x, j_status x) \<in> set (map (\<lambda>e. (j_id e, j_status e)) (stoppedd j2))"
      unfolding that [symmetric] by auto
    with x show "n \<in> stopped_ids j2" by (auto simp: stopped_ids_def)
  qed
  have fnd: "map_option (\<lambda>e. (j_id e, j_status e)) (find (\<lambda>x. j_id x = n) l) =
      find (\<lambda>p. fst p = n) (map (\<lambda>e. (j_id e, j_status e)) l)" for n l
    by (induction l) auto
  have "(\<exists>e. job_table j n = Some e \<and> j_status e = Stopped) \<longleftrightarrow> 0 < n \<and>
      find (\<lambda>p. fst p = n) (map (\<lambda>e. (j_id e, j_status e)) (non_built_in_cmd j)) = Some (n, Stopped)" for j n
    unfolding fnd [symmetric] by (auto simp: job_table_def entry_of_def find_Some_iff)
  then show ?thesis
    using assms sub [OF assms(2)] sub [OF assms(2) [symmetric]] unfolding mirrored_def by auto
qed

lemma map_pair_update:
  "f e = f (l ! i) \<Longrightarrow> map f (l[i := e]) = map f l"
  by (metis list_update_id map_update)

lemma mirrored_SetNewId: "mirrored (jobs s) \<Longrightarrow> SetNewId env n s = Inr s' \<Longrightarrow> mirrored (jobs s')"
  by (auto simp: SetNewId_def Let_def map_pair_update split: option.splits intro!: mirrored_cong [of _ "jobs s"])

lemma mirrored_set_job_pid:
  assumes "mirrored (jobs s)" and "set_job_pid n p t s = Inr s'"
  shows "mirrored (jobs s')"
  by (rule mirrored_cong [OF _ _ assms(1)])
    (use assms(2) in \<open>auto simp: set_job_pid_def Let_def result_simps map_pair_update split: option.splits
      dest!: set_name_jobs\<close>)

text \<open>Ctrl-C marks the entries of the foreground process as finished; none of them is stopped.\<close>

lemma mirrored_ctrlC:
  assumes "mirrored (jobs s)" and "\<forall>x \<in> set (non_built_in_cmd (jobs s)). p_id x = for_pid s \<longrightarrow> j_status x \<noteq> Stopped"
  shows "mirrored (jobs (ctrlCHandler env s))"
proof -
  let ?g = "\<lambda>job. if p_id job = for_pid s then job\<lparr>j_status := Finished\<rparr> else job"
  let ?l = "non_built_in_cmd (jobs s)"
  have find_map: "find (\<lambda>x. j_id x = n) (map ?g l) = map_option ?g (find (\<lambda>x. j_id x = n) l)" for n l
    by (induction l) auto
  have "j_status (?g x) = Stopped \<longleftrightarrow> j_status x = Stopped" if "find (\<lambda>x. j_id x = n) ?l = Some x" for n x
    using assms(2) that by (auto simp: find_Some_iff)
  then have "(\<exists>e. job_table ((jobs s)\<lparr>non_built_in_cmd := map ?g ?l\<rparr>) n = Some e \<and> j_status e = Stopped) \<longleftrightarrow>
      (\<exists>e. job_table (jobs s) n = Some e \<and> j_status e = Stopped)" for n
    by (cases "find (\<lambda>x. j_id x = n) ?l") (simp_all add: job_table_def entry_of_def find_map)
  then have "mirrored ((jobs s)\<lparr>non_built_in_cmd := map ?g ?l\<rparr>)"
    using assms(1) by (simp add: mirrored_def stopped_ids_def)
  then show ?thesis using assms(1) by (simp add: ctrlCHandler_def Let_def)
qed

text \<open>
  C25. The vector of stopped jobs, on which \<open>bg\<close> relies, stays a mirror of the job list under these
  operations: a signal sent by \<open>kill\<close>, \<open>fg\<close> or \<open>bg\<close> (\<open>send_SIG_TO_JOB\<close>), Ctrl-Z on a listed job
  (\<open>stop_listed\<close>), the removal of a job and of all finished jobs, a new time (\<open>SetNewId\<close>) or
  process number (\<open>set_job_pid\<close>) for a job, Ctrl-C on a process that no stopped job has, and the
  addition of a job, running or stopped, while there is an empty entry. Two operations are not
  among them, because they break the mirror: \<open>killAllJobs\<close>, which \<open>quit\<close> calls last, and
  \<open>addJob\<close> on a full list, which overwrites the first entry.
\<close>

theorem stopped_list_mirrors:
  assumes "jobs_ok (jobs s)" and "mirrored (jobs s)"
  shows "mirrored (jobs (send_SIG_TO_JOB env n sig s)) \<and> mirrored (stop_listed p (jobs s)) \<and>
     mirrored (removeJobById n (jobs s)) \<and> mirrored (jobs (removeFinishedJobs env s)) \<and>
     (\<forall>s'. SetNewId env n s = Inr s' \<longrightarrow> mirrored (jobs s')) \<and>
     (\<forall>t s'. set_job_pid n p t s = Inr s' \<longrightarrow> mirrored (jobs s')) \<and>
     ((\<forall>x \<in> set (non_built_in_cmd (jobs s)). p_id x = for_pid s \<longrightarrow> j_status x \<noteq> Stopped) \<longrightarrow>
        mirrored (jobs (ctrlCHandler env s))) \<and>
     (\<forall>c co st s'. get_cmd s c = Inr co \<and> \<not> built_in_cmd co \<and>
        (\<exists>x \<in> set (non_built_in_cmd (jobs s)). j_status x = Empty) \<and> addJob env c st s = Inr s' \<longrightarrow>
        mirrored (jobs s'))"
proof (intro conjI allI impI, goal_cases)
  case (8 c co st s')
  with mirrored_addJob [OF assms] show ?case by blast
qed (use assms in \<open>auto intro: mirrored_send mirrored_stop_listed mirrored_remove mirrored_removeFinishedJobs
    mirrored_SetNewId mirrored_set_job_pid mirrored_ctrlC\<close>)

text \<open>A job stopped by Ctrl-Z and resumed.\<close>

lemma one_job_mirrored: "mirrored one_job"
proof (rule mirroredI [OF new_JobsList_mirrored, where m = 0 and P = True])
  fix n :: int
  assume "0 < n"
  then show "n \<in> stopped_ids one_job \<longleftrightarrow> (if n = 0 then True else n \<in> stopped_ids new_JobsList)"
    by (simp add: stopped_ids_def one_job_def)
  have "job_table one_job n = Some e \<Longrightarrow> j_status e = Background" for e
    using set_update_subset_insert [of "replicate JOBS_MAX_AMOUNT empty_entry" 0] \<open>0 < n\<close>
    by (fastforce simp: job_table_def one_job_def new_JobsList_def empty_entry_def dest!: entry_of_mem)
  moreover have "job_table new_JobsList n = None"
    using \<open>0 < n\<close> by (simp add: job_table_def entry_of_def new_JobsList_def empty_entry_def find_None_iff)
  ultimately show "(\<exists>e. job_table one_job n = Some e \<and> j_status e = Stopped) \<longleftrightarrow> (if n = 0 then True
      else \<exists>e. job_table new_JobsList n = Some e \<and> j_status e = Stopped)" using \<open>0 < n\<close> by fastforce
qed

lemma one_job_stopped:
  "job_table (stop_listed 100 one_job) = (job_table one_job)
     (1 \<mapsto> \<lparr>j_status = Stopped, j_id = 1, p_id = 100, cmd = Some 0, jtime = 0\<rparr>)"
  using stop_listed_table [OF one_job_ok one_job_table] only_position [OF one_job_pid] by simp

theorem stopped_list_mirrors_witness:
  "mirrored (stop_listed 100 one_job) \<and> 1 \<in> stopped_ids (stop_listed 100 one_job) \<and>
   mirrored (jobs (send_SIG_TO_JOB calm_env 1 SIGCONT ((new_SmallShell ''/'')\<lparr>jobs := stop_listed 100 one_job\<rparr>))) \<and>
   1 \<notin> stopped_ids (jobs (send_SIG_TO_JOB calm_env 1 SIGCONT ((new_SmallShell ''/'')\<lparr>jobs := stop_listed 100 one_job\<rparr>)))"
proof -
  let ?s = "\<lambda>jl. (new_SmallShell ''/'')\<lparr>jobs := jl\<rparr>"
  have a: "mirrored (stop_listed 100 one_job)"
    using stopped_list_mirrors [of "?s one_job" calm_env 1 9 100] one_job_mirrored by simp
  have b: "mirrored (jobs (send_SIG_TO_JOB calm_env 1 SIGCONT (?s (stop_listed 100 one_job))))"
    using stopped_list_mirrors [of "?s (stop_listed 100 one_job)" calm_env 1 SIGCONT 100] a stop_listed_ok [OF one_job_ok]
    by simp
  let ?t = "?s (stop_listed 100 one_job)"
  let ?e = "\<lparr>j_status = Stopped, j_id = 1, p_id = 100, cmd = Some 0, jtime = 0\<rparr>"
  have ok: "jobs_ok (jobs ?t)" using stop_listed_ok [OF one_job_ok] by simp
  have tab: "job_table (jobs ?t) 1 = Some ?e" by (simp add: one_job_stopped)
  obtain i where i: "send_SIG_TO_JOB calm_env 1 SIGCONT ?t =
        kill_report calm_env (p_id ?e) SIGCONT (?t\<lparr>jobs := set_status i Background (unstop 1 (jobs ?t))\<rparr>)"
      "job_table (set_status i Background (unstop 1 (jobs ?t))) = (job_table (jobs ?t))(1 \<mapsto> ?e\<lparr>j_status := Background\<rparr>)"
    by (rule SIGCONT_effect [OF ok tab, of calm_env]) (rule that; assumption)
  have "job_table (jobs (send_SIG_TO_JOB calm_env 1 SIGCONT ?t)) 1 = Some (?e\<lparr>j_status := Background\<rparr>)"
    unfolding i(1) using i(2) by simp
  with b have "1 \<notin> stopped_ids (jobs (send_SIG_TO_JOB calm_env 1 SIGCONT ?t))" by (simp add: mirrored_def)
  moreover have "1 \<in> stopped_ids (stop_listed 100 one_job)" using a by (simp add: mirrored_def one_job_stopped)
  ultimately show ?thesis using a b by blast
qed

theorem bg_resumes_witness:
  "\<exists>s' e. executeCommand calm_env ''bg'' ((new_SmallShell ''/'')\<lparr>jobs := stop_listed 100 one_job,
       cmds := [new_command ExternalCommand ''sleep 5&'']\<rparr>) = Inr (1, s') \<and> sent s' = [(100, 18)] \<and>
     job_table (jobs s') 1 = Some e \<and> j_status e = Background"
proof -
  let ?e = "\<lparr>j_status = Background, j_id = 1, p_id = 100, cmd = Some 0, jtime = 0\<rparr>"
  let ?s = "(new_SmallShell ''/'')\<lparr>jobs := stop_listed 100 one_job, cmds := [new_command ExternalCommand ''sleep 5&'']\<rparr>"
  have tab: "job_table (stop_listed 100 one_job) = (job_table one_job)(1 \<mapsto> ?e\<lparr>j_status := Stopped\<rparr>)"
    by (simp add: one_job_stopped)
  have "m \<le> 1" if "job_table one_job m = Some x" for m x
    using that max_above [of one_job x] one_job_ok one_job_max entry_of_mem [of _ m x]
    by (simp add: job_table_def jobs_ok_def)
  then have last: "\<forall>m x. job_table (jobs ?s) m = Some x \<longrightarrow> j_status x = Stopped \<longrightarrow> m \<le> 1" by (simp add: tab)
  have "get_cmd ?s (cmd (?e\<lparr>j_status := Stopped\<rparr>)) = Inr (new_command ExternalCommand ''sleep 5&'')"
    by (simp add: get_cmd_def)
  from bg_resumes [OF _ _ _ _ last this, of calm_env] show ?thesis
    using stop_listed_ok [OF one_job_ok] mirrored_stop_listed [OF one_job_ok one_job_mirrored]
    by (auto simp: tab new_SmallShell_def staying_def calm_env_def)
qed

end
