(* ===== verification/Shell_Types.thy ===== *)
theory Shell_Types
  imports Shell_Inv "HOL-Library.Sublist"
begin

text \<open>
  Type soundness of the shell: what the pointers and the argument vectors of a session are, and
  that no line with few blanks follows a dangling pointer or leaves an array. A result is safe when it is not a fault of this kind
  and, if the operation returns, its value has the property asked for; one lemma per operation
  then gives progress and preservation together.
\<close>

section \<open>Well-typed states\<close>

definition valid_ptr :: "nat \<Rightarrow> ptr \<Rightarrow> bool" where
  "valid_ptr n p \<longleftrightarrow> (case p of None \<Rightarrow> True | Some a \<Rightarrow> a < n)"

definition list_typed :: "nat \<Rightarrow> JobEntry list \<Rightarrow> bool" where
  "list_typed n l \<longleftrightarrow> (\<forall>e \<in> set l. valid_ptr n (cmd e))"

definition jobs_typed :: "nat \<Rightarrow> JobsList \<Rightarrow> bool" where
  "jobs_typed n jl \<longleftrightarrow> list_typed n (arr jl) \<and> list_typed n (non_built_in_cmd jl) \<and> list_typed n (stoppedd jl)"

text \<open>Every shared pointer is null or leads to an object that exists.\<close>

definition shell_typed :: "shell \<Rightarrow> bool" where
  "shell_typed s \<longleftrightarrow> jobs_typed (length (cmds s)) (jobs s) \<and> jobs_ok (jobs s) \<and>
     valid_ptr (length (cmds s)) (curr_cmd s) \<and> valid_ptr (length (cmds s)) (for_cmd s)"

lemma valid_ptr_simps [simp]: "valid_ptr n None" "valid_ptr n (Some a) \<longleftrightarrow> a < n"
  by (simp_all add: valid_ptr_def)

lemma valid_ptr_mono: "valid_ptr n p \<Longrightarrow> n \<le> m \<Longrightarrow> valid_ptr m p"
  by (cases p) auto

lemma list_typed_simps [simp]:
  "list_typed n []" "list_typed n (e # l) \<longleftrightarrow> valid_ptr n (cmd e) \<and> list_typed n l"
  "list_typed n (l @ l') \<longleftrightarrow> list_typed n l \<and> list_typed n l'"
  "list_typed n (replicate k e) \<longleftrightarrow> k = 0 \<or> valid_ptr n (cmd e)"
  by (auto simp: list_typed_def)

lemma list_typed_nth: "list_typed n l \<Longrightarrow> i < length l \<Longrightarrow> valid_ptr n (cmd (l ! i))"
  by (simp add: list_typed_def)

lemma list_typed_update: "list_typed n l \<Longrightarrow> valid_ptr n (cmd e) \<Longrightarrow> list_typed n (l[i := e])"
  using set_update_subset_insert [of l i e] by (auto simp: list_typed_def)

text \<open>An update of an entry that keeps its pointer.\<close>

lemma list_typed_keep: "list_typed n l \<Longrightarrow> cmd e = cmd (l ! i) \<Longrightarrow> list_typed n (l[i := e])"
  by (cases "i < length l") (simp_all add: list_typed_update list_typed_nth list_update_beyond not_less)

lemma list_typed_map: "list_typed n l \<Longrightarrow> (\<And>e. cmd (f e) = cmd e) \<Longrightarrow> list_typed n (map f l)"
  by (simp add: list_typed_def)

lemma list_typed_mono: "list_typed n l \<Longrightarrow> n \<le> m \<Longrightarrow> list_typed m l"
  by (auto simp: list_typed_def intro: valid_ptr_mono)

lemma jobs_typed_mono: "jobs_typed n jl \<Longrightarrow> n \<le> m \<Longrightarrow> jobs_typed m jl"
  by (auto simp: jobs_typed_def intro: list_typed_mono)

lemma jobs_typed_nth:
  "jobs_typed n jl \<Longrightarrow> i < length (non_built_in_cmd jl) \<Longrightarrow> valid_ptr n (cmd (non_built_in_cmd jl ! i))"
  by (simp add: jobs_typed_def list_typed_nth)

text \<open>Changes of the job list.\<close>

lemma set_status_typed: "jobs_typed n jl \<Longrightarrow> jobs_typed n (set_status i st jl)"
  by (simp add: jobs_typed_def set_status_def list_typed_keep)

lemma unstop_typed: "jobs_typed n jl \<Longrightarrow> jobs_typed n (unstop i jl)"
  by (simp add: jobs_typed_def unstop_def list_typed_map)

lemma removeJobById_typed: "jobs_typed n jl \<Longrightarrow> jobs_typed n (removeJobById i jl)"
  by (simp add: jobs_typed_def removeJobById_def list_typed_map)

lemma sweeps_typed: "jobs_typed n jl \<Longrightarrow> jobs_typed n (fold sweep ks jl)"
  by (induction ks arbitrary: jl) (auto simp: sweep_def Let_def removeJobById_typed)

lemma stopped_copy_cmd [simp]: "cmd (stopped_copy e) = cmd e"
  by (simp add: stopped_copy_def)

lemma stop_listed_typed: "jobs_typed n jl \<Longrightarrow> jobs_typed n (stop_listed p jl)"
  using jobs_typed_nth [of n jl] set_status_typed [of n jl _ Stopped]
  by (auto simp: stop_listed_def find_index_Some jobs_typed_def split: option.splits)

lemma shell_typed_simps [simp]:
  "shell_typed (s\<lparr>written := w\<rparr>) = shell_typed s" "shell_typed (s\<lparr>tick := k\<rparr>) = shell_typed s"
  "shell_typed (s\<lparr>sent := q\<rparr>) = shell_typed s" "shell_typed (s\<lparr>for_pid := p\<rparr>) = shell_typed s"
  "shell_typed (s\<lparr>cwd := d\<rparr>) = shell_typed s" "shell_typed (s\<lparr>LASTD := d\<rparr>) = shell_typed s"
  "shell_typed (s\<lparr>newlen := d\<rparr>) = shell_typed s" "shell_typed (s\<lparr>stdout_to := x\<rparr>) = shell_typed s"
  "shell_typed (s\<lparr>stderr_to := x\<rparr>) = shell_typed s" "shell_typed (s\<lparr>stdin_from := x\<rparr>) = shell_typed s"
  "shell_typed (s\<lparr>spawned := y\<rparr>) = shell_typed s" "shell_typed (spawn z s) = shell_typed s"
  by (simp_all add: shell_typed_def spawn_def)

lemma shell_typed_effects [simp]:
  "shell_typed (cout t s) = shell_typed s" "shell_typed (cerr t s) = shell_typed s"
  "shell_typed (perror env t s) = shell_typed s" "shell_typed (kill_report env p n s) = shell_typed s"
  by (simp_all add: cout_def cerr_def put_def perror_def kill_report_def kill_def)

lemma shell_typed_jobs:
  "shell_typed s \<Longrightarrow> jobs_typed (length (cmds s)) jl \<Longrightarrow> jobs_ok jl \<Longrightarrow> shell_typed (s\<lparr>jobs := jl\<rparr>)"
  by (simp add: shell_typed_def)

text \<open>New objects leave the old pointers valid.\<close>

lemma shell_typed_new: "shell_typed s \<Longrightarrow> shell_typed (s\<lparr>cmds := cmds s @ [c]\<rparr>)"
  by (auto simp: shell_typed_def intro: jobs_typed_mono valid_ptr_mono)

section \<open>Safe results\<close>

text \<open>
  The faults are excluded where \<open>chk\<close> asks for it; without it, only the value is described.
\<close>

definition safe :: "bool \<Rightarrow> ('a \<Rightarrow> bool) \<Rightarrow> 'a res \<Rightarrow> bool" where
  "safe chk P m \<longleftrightarrow>
     (case m of Inl e \<Rightarrow> chk \<longrightarrow> e \<noteq> BadPointer \<and> e \<noteq> BufferOverflow | Inr x \<Rightarrow> P x)"

lemma safe_simps [simp]:
  "safe chk P (Inr x) = P x" "safe chk P (Inl e) \<longleftrightarrow> (chk \<longrightarrow> e \<noteq> BadPointer \<and> e \<noteq> BufferOverflow)"
  by (simp_all add: safe_def)

lemma safe_rbind: "safe chk P m \<Longrightarrow> (\<And>x. m = Inr x \<Longrightarrow> P x \<Longrightarrow> safe chk Q (f x)) \<Longrightarrow> safe chk Q (rbind m f)"
  by (cases m) auto

lemma safe_returned: "safe chk P m \<Longrightarrow> m = Inr x \<Longrightarrow> P x"
  by simp

abbreviation typed_result :: "bool \<Rightarrow> shell res \<Rightarrow> bool" where
  "typed_result chk \<equiv> safe chk shell_typed"

section \<open>The job list\<close>

lemma safe_get_cmd: "valid_ptr (length (cmds s)) p \<Longrightarrow> safe chk (\<lambda>_. p \<noteq> None) (get_cmd s p)"
  by (cases p) (simp_all add: get_cmd_def)

lemma safe_getNameCmd: "valid_ptr (length (cmds s)) p \<Longrightarrow> safe chk (\<lambda>_. True) (getNameCmd s p)"
  by (cases p) (simp_all add: getNameCmd_def get_cmd_def)

lemma safe_addJob:
  assumes "shell_typed s" and "valid_ptr (length (cmds s)) c"
  shows "typed_result chk (addJob env c st s)"
proof (cases "addJob env c st s")
  case (Inl e)
  have "arr (jobs s) \<noteq> []" "non_built_in_cmd (jobs s) \<noteq> []"
    using assms(1) by (auto simp: shell_typed_def jobs_ok_def JOBS_MAX_AMOUNT_def)
  then show ?thesis
    using Inl safe_get_cmd [OF assms(2)] empty_place_bound
    by (auto simp: addJob_def Let_def result_simps not_less [symmetric] split: if_splits)
next
  case (Inr s')
  have "jobs_ok (jobs s')" using addJob_ok [OF _ Inr] assms(1) by (simp add: shell_typed_def)
  moreover have "jobs_typed (length (cmds s)) (jobs s')" "cmds s' = cmds s" "curr_cmd s' = curr_cmd s"
      "for_cmd s' = for_cmd s"
    using Inr assms
    by (auto simp: addJob_def Let_def result_simps shell_typed_def jobs_typed_def
        intro!: list_typed_update split: if_splits)
  ultimately show ?thesis using Inr assms(1) by (simp add: shell_typed_def)
qed

lemma safe_set_name: "shell_typed s \<Longrightarrow> valid_ptr (length (cmds s)) p \<Longrightarrow> typed_result chk (set_name p t s)"
  unfolding set_name_def by (rule safe_rbind, rule safe_get_cmd) (simp_all add: shell_typed_def)

lemma kill_report_curr [simp]: "curr_cmd (kill_report env p n s) = curr_cmd s"
  by (simp add: kill_report_def kill_def perror_def cerr_def)

lemma send_SIG_TO_JOB_typed: "shell_typed s \<Longrightarrow> shell_typed (send_SIG_TO_JOB env n sig s)"
  using send_SIG_TO_JOB_ok [of s env n sig] getJobById_bound [of "jobs s" n]
  by (auto simp: send_SIG_TO_JOB_def Let_def shell_typed_def jobs_ok_def jobs_typed_def
      set_status_def unstop_def list_typed_nth intro!: list_typed_keep list_typed_map
      split: option.splits)

lemma entry_of_id: "shell_typed s \<Longrightarrow> getJobById n (jobs s) = Some i \<Longrightarrow>
    i < JOBS_MAX_AMOUNT \<and> valid_ptr (length (cmds s)) (cmd (non_built_in_cmd (jobs s) ! i))"
  using getJobById_bound [of "jobs s" n i]
  by (simp add: shell_typed_def jobs_ok_def jobs_typed_def list_typed_nth)

text \<open>A new process number for one entry.\<close>

lemma shell_typed_pid:
  assumes "shell_typed s" and "i < JOBS_MAX_AMOUNT"
  shows "shell_typed (s\<lparr>jobs := (jobs s)\<lparr>non_built_in_cmd :=
     (non_built_in_cmd (jobs s))[i := (non_built_in_cmd (jobs s) ! i)\<lparr>p_id := p\<rparr>]\<rparr>\<rparr>)"
  using assms entry_update_ok [of "jobs s" i "(non_built_in_cmd (jobs s) ! i)\<lparr>p_id := p\<rparr>"]
  by (intro shell_typed_jobs) (auto simp: shell_typed_def jobs_typed_def intro!: list_typed_keep)

lemma safe_set_job_pid:
  assumes "shell_typed s"
  shows "typed_result chk (set_job_pid n p t s)"
proof (cases "getJobById n (jobs s)")
  case (Some i)
  let ?l = "non_built_in_cmd (jobs s)"
  let ?s1 = "s\<lparr>jobs := (jobs s)\<lparr>non_built_in_cmd := ?l[i := (?l ! i)\<lparr>p_id := p\<rparr>]\<rparr>\<rparr>"
  note i = entry_of_id [OF assms Some]
  have "typed_result chk (set_name (cmd (?l ! i)) t ?s1)"
    using shell_typed_pid [OF assms] i by (intro safe_set_name) simp_all
  moreover have "typed_result chk (case getJobById_SS n (jobs s2) of None \<Rightarrow> Inl NullDeref
      | Some k \<Rightarrow> set_name (cmd (stoppedd (jobs s2) ! k)) t
          (s2\<lparr>jobs := (jobs s2)\<lparr>stoppedd := (stoppedd (jobs s2))[k := (stoppedd (jobs s2) ! k)\<lparr>p_id := p\<rparr>]\<rparr>\<rparr>))"
    if "shell_typed s2" for s2
    using that by (auto simp: getJobById_SS_def find_index_Some shell_typed_def jobs_typed_def
        list_typed_nth intro!: safe_set_name list_typed_keep split: option.splits)
  ultimately show ?thesis
    unfolding set_job_pid_def Let_def Some option.case by (rule safe_rbind)
qed (simp add: set_job_pid_def)

lemma safe_SetNewId: "shell_typed s \<Longrightarrow> typed_result chk (SetNewId env n s)"
  using SetNewId_ok [of s env n]
  by (auto simp: SetNewId_def Let_def shell_typed_def jobs_typed_def
      intro!: list_typed_keep list_typed_map split: option.splits)

lemma removeFinishedJobs_typed: "shell_typed s \<Longrightarrow> shell_typed (removeFinishedJobs env s)"
  using removeFinishedJobs_ok [of s env]
  by (auto simp: removeFinishedJobs_def Let_def shell_typed_def jobs_typed_def reap_def
      intro!: sweeps_typed [unfolded jobs_typed_def] list_typed_map)

lemma safe_print_job: "shell_typed s \<Longrightarrow> typed_result chk (print_job n s)"
  by (auto simp: print_job_def Let_def intro!: safe_rbind [OF safe_getNameCmd] dest: entry_of_id
      split: option.splits)

lemma safe_print_ids: "shell_typed s \<Longrightarrow> typed_result chk (print_ids env is s)"
  by (induction env "is" s rule: print_ids.induct)
    (auto simp: Let_def print_entry_def rbind_assoc intro!: safe_rbind [OF safe_getNameCmd]
      dest: entry_of_id split: option.splits)

lemma safe_print_killed:
  "shell_typed s \<Longrightarrow> list_typed (length (cmds s)) js \<Longrightarrow>
   safe chk (\<lambda>s'. shell_typed s' \<and> jobs s' = jobs s) (print_killed js s)"
  by (induction js s rule: print_killed.induct) (auto intro!: safe_rbind [OF safe_getNameCmd])

lemma kill_one_typed: "shell_typed s \<Longrightarrow> shell_typed (kill_one env k s)"
  using kill_one_ok [of s env k]
  by (auto simp: kill_one_def Let_def shell_typed_def jobs_typed_def intro!: list_typed_keep)

lemma safe_killAllJobs:
  assumes "shell_typed s"
  shows "typed_result chk (killAllJobs env b s)"
proof -
  have "shell_typed t \<Longrightarrow> shell_typed (fold (kill_one env) ks t)" for ks t
    by (induction ks arbitrary: t) (auto intro: kill_one_typed)
  moreover have "list_typed (length (cmds s)) (non_built_in_cmd (jobs s))"
    using assms by (simp add: shell_typed_def jobs_typed_def)
  ultimately show ?thesis
    using assms by (auto simp: killAllJobs_def intro!: safe_rbind [OF safe_print_killed])
qed

section \<open>Signals\<close>

lemma safe_ctrlZHandler:
  assumes "shell_typed s"
  shows "typed_result chk (ctrlZHandler env s)"
proof -
  let ?s1 = "kill_report env (for_pid s) SIGSTOP (cout (''smash: got ctrl-Z'' @ newline) s)"
  have s1: "shell_typed ?s1" using assms by simp
  have add: "typed_result chk (rbind (getNameCmd s2 (for_cmd s2))
      (\<lambda>name. set_job_pid (get_max_job_id (jobs s2)) (for_pid s2) name s2))" if "shell_typed s2" for s2
    using that by (intro safe_rbind [OF safe_getNameCmd] safe_set_job_pid) (auto simp: shell_typed_def)
  have "typed_result chk (rbind (addJob env (for_cmd ?s1) True ?s1) (\<lambda>s2. rbind (getNameCmd s2 (for_cmd s2))
      (\<lambda>name. set_job_pid (get_max_job_id (jobs s2)) (for_pid s2) name s2)))"
    by (rule safe_rbind [OF safe_addJob [OF s1] add]) (use s1 in \<open>simp add: shell_typed_def\<close>)
  moreover have "shell_typed (?s1\<lparr>jobs := stop_listed (for_pid ?s1) (jobs ?s1)\<rparr>)"
    using s1 by (intro shell_typed_jobs stop_listed_typed stop_listed_ok) (auto simp: shell_typed_def)
  ultimately show ?thesis
    using assms unfolding ctrlZHandler_def Let_def by (auto elim!: safe_rbind)
qed

lemma ctrlCHandler_typed:
  assumes "shell_typed s"
  shows "shell_typed (ctrlCHandler env s)"
proof -
  have "list_typed n l \<Longrightarrow> list_typed n (map (\<lambda>job. if p_id job = p then job\<lparr>j_status := Finished\<rparr> else job) l)"
    for n l p by (rule list_typed_map) auto
  then show ?thesis
    using assms ctrlCHandler_ok [of s env]
    by (auto simp: ctrlCHandler_def Let_def shell_typed_def jobs_typed_def cout_def)
qed

lemma safe_handle: "shell_typed s \<Longrightarrow> typed_result chk (handle env k s)"
  by (cases k) (simp_all add: handle_def safe_ctrlZHandler ctrlCHandler_typed)

lemma safe_block: "shell_typed s \<Longrightarrow> typed_result chk (block env s)"
proof -
  have "shell_typed t \<Longrightarrow> typed_result chk (deliver env ks t)" for ks t
    by (induction ks arbitrary: t) (auto intro: safe_rbind safe_handle)
  then show "shell_typed s \<Longrightarrow> typed_result chk (block env s)" by (simp add: block_def)
qed

lemma safe_waitpid: "shell_typed s \<Longrightarrow> safe chk (\<lambda>(_, s'). shell_typed s') (waitpid env s)"
  unfolding waitpid_def by (auto intro!: safe_rbind [OF safe_block] split: option.splits)

section \<open>Lines\<close>

text \<open>
  A line with few blanks: its words fit into the array of twenty entries. Every text the shell
  takes out of a line is a sublist of it.
\<close>

definition short_line :: "string \<Rightarrow> bool" where
  "short_line s \<longleftrightarrow> length (filter isspace s) < COMMAND_MAX_ARGS - 1"

lemma short_sublist: "short_line s \<Longrightarrow> sublist t s \<Longrightarrow> short_line t"
  using list_emb_length [OF subseq_filter [OF sublist_imp_subseq, of t s isspace]]
  by (simp add: short_line_def)

lemma sublist_texts:
  "sublist (cstr s) s" "sublist (ltrim s) s" "sublist (rtrim s) s" "sublist (cut_background s) s"
proof -
  show "sublist (rtrim s) s"
    by (simp add: rtrim_def sublist_rev_left)
  have "sublist (tl (dropWhile P t)) t" for P and t :: string
    by (rule sublist_order.order_trans [OF sublist_tl sublist_dropWhile])
  then show "sublist (cut_background s) s"
    by (simp add: cut_background_def sublist_rev_left)
qed (simp_all add: cstr_def ltrim_def)

lemma short_texts:
  "short_line s \<Longrightarrow> short_line (cstr s)" "short_line s \<Longrightarrow> short_line (ltrim s)"
  "short_line s \<Longrightarrow> short_line (rtrim s)" "short_line s \<Longrightarrow> short_line (cut_background s)"
  "short_line s \<Longrightarrow> short_line (take n s)" "short_line s \<Longrightarrow> short_line (drop n s)"
  using sublist_texts sublist_take sublist_drop short_sublist by blast+

lemma short_split: "short_line s \<Longrightarrow> split_at b s = (l, r) \<Longrightarrow> short_line l \<and> short_line r"
  by (cases "find_str b s") (auto simp: split_at_def short_texts)

lemma short_parts:
  "short_line s \<Longrightarrow> redirection_parts s = (b, l, r) \<Longrightarrow> short_line l"
  "short_line s \<Longrightarrow> pipe_parts s = (b, l, r) \<Longrightarrow> short_line l \<and> short_line r"
  by (auto simp: redirection_parts_def pipe_parts_def Let_def
      intro!: short_texts dest: short_split split: prod.splits if_splits)

lemma length_words: "length (words s) \<le> Suc (length (filter isspace s))"
proof -
  have "length (split_words w s) \<le> Suc (length (filter isspace s))" for w
    by (induction w s rule: split_words.induct) auto
  then show ?thesis by (simp add: words_def)
qed

lemma length_parseCat: "length (parseCat s) \<le> Suc (length (filter isspace s))"
proof -
  have pieces: "length (parseCat_loop t as) \<le> length as + Suc (length (filter (\<lambda>c. c = blank) t))" for t as
  proof (induction t as rule: parseCat_loop.induct)
    case (1 s args)
    show ?case
    proof (cases "blank \<in> set s")
      case True
      let ?t = "takeWhile (\<lambda>c. c \<noteq> blank) s"
      define r where "r = tl (dropWhile (\<lambda>c. c \<noteq> blank) s)"
      define as where "as = (if ?t \<noteq> [] then args @ [?t] else args)"
      have "Suc (length (filter (\<lambda>c. c = blank) r)) = length (filter (\<lambda>c. c = blank) s)"
        using True unfolding r_def by (induction s) auto
      moreover have "length (parseCat_loop s args) = length (parseCat_loop r as)"
        unfolding r_def as_def by (subst parseCat_loop.simps) (simp only: True if_True Let_def)
      moreover have "length as \<le> Suc (length args)" by (simp add: as_def)
      moreover have "length (parseCat_loop r as) \<le> length as + Suc (length (filter (\<lambda>c. c = blank) r))"
        unfolding r_def as_def by (rule 1 [OF True refl refl])
      ultimately show ?thesis by linarith
    next
      case False
      then show ?thesis by (subst parseCat_loop.simps) simp
    qed
  qed
  have blanks: "length (filter (\<lambda>c. c = blank) t) \<le> length (filter isspace t)" for t
    by (induction t) (auto simp: isspace_def)
  have "length (parseCat s) \<le> Suc (length (filter isspace (cstr s)))"
    using pieces [of "cstr s" "[]"] blanks [of "cstr s"] unfolding parseCat_def length_map list.size by linarith
  also have "\<dots> \<le> Suc (length (filter isspace s))"
    using list_emb_length [OF subseq_filter [OF sublist_imp_subseq, of "cstr s" s isspace]] sublist_texts(1) by auto
  finally show ?thesis .
qed


lemma safe_parse: "(chk \<Longrightarrow> short_line line) \<Longrightarrow> safe chk (\<lambda>_. True) (parseCommandLine line)"
proof -
  assume *: "chk \<Longrightarrow> short_line line"
  let ?t = "cstr (trim (cstr line))"
  have "length (words ?t) < COMMAND_MAX_ARGS" if chk
  proof -
    have "short_line ?t" using * [OF that] by (simp add: trim_def short_texts)
    then show ?thesis using length_words [of ?t] by (simp add: short_line_def COMMAND_MAX_ARGS_def)
  qed
  then show ?thesis by (cases chk) (simp_all add: parseCommandLine_def Let_def)
qed

section \<open>Commands\<close>

text \<open>
  The arguments that the methods of a class read without a test are there; the line of a
  redirection or a pipe, which is parsed again, is short.
\<close>

definition command_typed :: "bool \<Rightarrow> Command \<Rightarrow> bool" where
  "command_typed chk c \<longleftrightarrow>
     (built_in_cmd c \<longrightarrow> cargs c \<noteq> []) \<and>
     (cls c \<in> {ChangeDirCommand, QuitCommand, ForegroundCommand, BackgroundCommand} \<and> optional_arg c \<longrightarrow>
        1 < length (cargs c)) \<and>
     (cls c = KillCommand \<and> \<not> INVALID_ARG c \<longrightarrow> 2 < length (cargs c)) \<and>
     (chk \<and> cls c \<in> {PipeCommand, RedirectionCommand} \<longrightarrow> short_line (entered_cmd c))"

lemma command_typed_list [simp]: "command_typed chk (c\<lparr>jlist := b\<rparr>) = command_typed chk c"
  by (simp add: command_typed_def)

lemma safe_arg: "i < length (cargs c) \<Longrightarrow> safe chk (\<lambda>_. True) (arg c i)"
  by (simp add: arg_def)

lemma safe_stoi: "safe chk (\<lambda>_. True) (stoi t)"
  by (simp add: stoi_def split: option.splits)

lemma safe_with_list: "safe chk P r \<Longrightarrow> safe chk P (with_list c r)"
  by (simp add: with_list_def)

lemma create_cd_typed:
  assumes "create_cd env line args s = (c, s')" and "args \<noteq> []"
  shows "command_typed chk c \<and> shell_typed s' = shell_typed s"
proof
  show "command_typed chk c"
    using assms by (auto simp: create_cd_def command_typed_def new_built_in_def new_command_def Let_def
        split: if_splits prod.splits bool.splits)
  show "shell_typed s' = shell_typed s"
    using assms(1) by (auto simp: create_cd_def chdir_def Let_def
        split: if_splits prod.splits bool.splits option.splits)
qed

lemma parseCat_nonempty: "parseCat s \<noteq> []"
proof -
  have "parseCat_loop t as \<noteq> []" for t as
    by (induction t as rule: parseCat_loop.induct) (subst parseCat_loop.simps, simp add: Let_def del: parseCat_loop.simps)
  then show ?thesis by (simp add: parseCat_def del: parseCat_loop.simps)
qed

lemmas create_defs =
  create_pwd_def create_showpid_def create_jobs_def create_kill_def create_fg_def create_bg_def
  create_quit_def create_chprompt_def new_built_in_def new_command_def

lemma create_typed:
  assumes "args \<noteq> []" and "chk \<Longrightarrow> short_line line"
  shows "command_typed chk (create_pwd line args)" "command_typed chk (create_showpid line args)"
    "command_typed chk (create_jobs line args)" "command_typed chk (create_quit line args)"
    "command_typed chk (create_fg line args s)" "command_typed chk (create_bg line args s)"
    "command_typed chk (create_kill line args s)" "command_typed chk (fst (create_chprompt line args s))"
  using assms by (auto simp: create_defs command_typed_def Let_def split: option.splits)

lemma create_cat_typed: "(chk \<Longrightarrow> short_line line) \<Longrightarrow> safe chk (command_typed chk) (create_cat line args)"
  using length_parseCat [of line] parseCat_nonempty [of line]
  by (auto simp: create_cat_def new_built_in_def new_command_def command_typed_def short_line_def
      COMMAND_MAX_ARGS_def Let_def)

lemma background_test_safe:
  assumes "parseCommandLine line = Inr args" and "args \<noteq> []"
  shows "safe chk (\<lambda>_. True) (isBackgroundComamnd (cstr line))"
proof -
  have "rtrim (cstr line) \<noteq> []"
  proof
    assume "rtrim (cstr line) = []"
    then have "\<forall>c \<in> set (cstr line). c = blank" by (simp add: rtrim_def)
    then have "trim (cstr line) = []"
      by (auto simp: trim_def ltrim_def rtrim_def dest: set_dropWhileD)
    then show False using assms by (simp add: parseCommandLine_def cstr_def words_def split: if_splits)
  qed
  moreover have "cstr (cstr line) = cstr line" unfolding cstr_def by (rule takeWhile_idem)
  ultimately show ?thesis by (simp add: isBackgroundComamnd_def)
qed

lemma create_external_typed:
  "parseCommandLine line = Inr args \<Longrightarrow> args \<noteq> [] \<Longrightarrow> safe chk (command_typed chk) (create_external (cstr line) args)"
  unfolding create_external_def
  by (rule safe_rbind [OF background_test_safe]) (auto simp: command_typed_def new_command_def)

lemma CreateCommand_typed:
  assumes "chk \<Longrightarrow> short_line line" and "shell_typed s"
  shows "safe chk (\<lambda>(c, s'). command_typed chk c \<and> shell_typed s') (CreateCommand env line s)"
proof (cases "parseCommandLine line")
  case (Inl e)
  then show ?thesis using safe_parse [OF assms(1)] by (simp add: CreateCommand_def)
next
  case (Inr args)
  have line: "short_line (cstr line)" if chk using assms(1) [OF that] by (rule short_texts)
  show ?thesis
  proof (cases "args = []")
    case False
    note made = create_typed [OF False line] create_cat_typed [OF line]
      create_external_typed [OF Inr False]
    have cd: "case create_cd env (cstr line) args s of (c, s') \<Rightarrow> command_typed chk c \<and> shell_typed s'"
      using create_cd_typed [OF _ False] assms(2) by (auto split: prod.splits)
    have split_line: "command_typed chk ((new_command k (cstr line))\<lparr>optional_arg := b, cargs := as\<rparr>)"
        "command_typed chk (new_command k (cstr line))"
      if "k = PipeCommand \<or> k = RedirectionCommand" for k b as
      using line that by (auto simp: command_typed_def new_command_def)
    have prompt: "case create_chprompt (cstr line) args s of (c, s') \<Rightarrow> command_typed chk c \<and> shell_typed s'"
      using made(8) assms(2) by (simp add: create_chprompt_def Let_def)
    show ?thesis
      using made assms(2) cd prompt split_line
      by (simp add: CreateCommand_def Inr False Let_def)
        (auto intro: safe_rbind [OF made(9)] safe_rbind [OF made(10)])
  qed (simp add: CreateCommand_def Inr)
qed

section \<open>Executing commands\<close>

lemma safe_ChangeDir:
  assumes "shell_typed s" and "command_typed chk c" and "cls c = ChangeDirCommand"
  shows "typed_result chk (ChangeDir_execute env c s)"
proof (cases "optional_arg c")
  case True
  then have "1 < length (cargs c)" using assms(2,3) by (simp add: command_typed_def)
  then show ?thesis
    using assms(1) by (auto simp: ChangeDir_execute_def chdir_def intro!: safe_rbind [OF safe_arg]
        split: prod.splits bool.splits option.splits)
qed (use assms(1) in \<open>simp add: ChangeDir_execute_def\<close>)

lemma safe_Kill:
  assumes "shell_typed s" and "command_typed chk c" and "cls c = KillCommand"
  shows "typed_result chk (Kill_execute env c s)"
proof (cases "INVALID_ARG c")
  case False
  then have "1 < length (cargs c)" "2 < length (cargs c)" using assms(2,3) by (auto simp: command_typed_def)
  then show ?thesis
    using assms(1) False unfolding Kill_execute_def
    by (auto intro!: safe_rbind [OF safe_arg] safe_rbind [OF safe_stoi] safe_with_list
        send_SIG_TO_JOB_typed split: option.splits)
qed (use assms(1) in \<open>simp add: Kill_execute_def\<close>)

lemma safe_Quit:
  "shell_typed s \<Longrightarrow> command_typed chk c \<Longrightarrow> cls c = QuitCommand \<Longrightarrow> typed_result chk (Quit_execute env c s)"
  by (auto simp: Quit_execute_def command_typed_def intro!: safe_rbind [OF safe_arg] safe_with_list
      safe_killAllJobs)

lemma safe_fg_after:
  assumes "shell_typed s"
  shows "typed_result chk (fg_after env n s)"
proof -
  have "shell_typed (s\<lparr>jobs := removeJobById n (jobs s)\<rparr>)"
    using assms by (intro shell_typed_jobs removeJobById_typed removeJobById_ok) (auto simp: shell_typed_def)
  then show ?thesis
    using assms by (auto simp: fg_after_def Let_def intro: safe_SetNewId split: option.splits)
qed

lemma safe_fg_run:
  assumes "shell_typed s"
  shows "typed_result chk (fg_run env n c s)"
proof -
  have "typed_result chk (rbind (waitpid env (s2\<lparr>for_pid := p, cmds := cmds s2 @ [d],
      for_cmd := Some (length (cmds s2))\<rparr>)) (\<lambda>(_, s4). fg_after env n s4))" if "shell_typed s2" for s2 p d
    using shell_typed_new [OF that, of d]
    by (intro safe_rbind [OF safe_waitpid]) (auto simp: shell_typed_def intro: safe_fg_after)
  then show ?thesis
    unfolding fg_run_def Let_def
    by (auto intro!: safe_rbind [OF safe_print_job [OF assms]] send_SIG_TO_JOB_typed split: option.splits)
qed

lemma safe_Foreground:
  assumes "shell_typed s" and "command_typed chk c" and "cls c = ForegroundCommand"
  shows "typed_result chk (Foreground_execute env c s)"
  using assms safe_fg_run [OF assms(1)]
  by (auto simp: Foreground_execute_def command_typed_def intro!: safe_rbind [OF safe_arg]
      safe_rbind [OF safe_stoi] safe_with_list)

lemma shell_typed_status:
  "shell_typed s \<Longrightarrow> i < JOBS_MAX_AMOUNT \<Longrightarrow> st \<noteq> Empty \<Longrightarrow>
   shell_typed (s\<lparr>jobs := set_status i st (jobs s)\<rparr>)"
  by (intro shell_typed_jobs set_status_typed set_status_ok) (auto simp: shell_typed_def)

lemma safe_Background:
  assumes "shell_typed s" and "command_typed chk c" and "cls c = BackgroundCommand"
  shows "typed_result chk (Background_execute env c s)"
proof -
  have last: "typed_result chk (rbind (print_job n s) (\<lambda>s1.
      case getJobById n (jobs (send_SIG_TO_JOB env n SIGCONT s1)) of None \<Rightarrow> Inl NullDeref
      | Some i \<Rightarrow> Inr ((send_SIG_TO_JOB env n SIGCONT s1)
          \<lparr>jobs := set_status i Background (jobs (send_SIG_TO_JOB env n SIGCONT s1))\<rparr>)))" for n
    by (rule safe_rbind [OF safe_print_job [OF assms(1)]])
      (auto intro!: shell_typed_status send_SIG_TO_JOB_typed split: option.splits
        dest: entry_of_id [OF send_SIG_TO_JOB_typed])
  have listed: "typed_result chk (rbind (print_job n (send_SIG_TO_JOB env n SIGCONT s))
      (\<lambda>s1. Inr (s1\<lparr>jobs := set_status i Background (jobs s1)\<rparr>)))"
    if "getJobById n (jobs s) = Some i" for n i
    using entry_of_id [OF assms(1) that]
    by (intro safe_rbind [OF safe_print_job [OF send_SIG_TO_JOB_typed [OF assms(1)]]])
      (simp add: shell_typed_status)
  show ?thesis
    using assms last listed
    by (auto simp: Background_execute_def Let_def command_typed_def intro!: safe_rbind [OF safe_arg]
        safe_rbind [OF safe_stoi] safe_with_list split: prod.splits option.splits)
qed

lemma safe_Cat:
  assumes "shell_typed s"
  shows "typed_result chk (Cat_execute env c s)"
proof -
  have loop: "shell_typed t \<Longrightarrow> typed_result chk (cat_loop n env f x t)" for n f x t
    by (induction n env f x t rule: cat_loop.induct) (auto split: read_result.splits)
  have "shell_typed t \<Longrightarrow> typed_result chk (cat_files env fs t)" for fs t
    by (induction fs arbitrary: t) (auto simp: Let_def intro!: safe_rbind [OF loop] simp del: cat_loop.simps)
  then show ?thesis using assms by (simp add: Cat_execute_def)
qed

lemma safe_External:
  assumes "shell_typed s"
  shows "typed_result chk (External_execute env c s)"
proof -
  let ?s1 = "spawn (no_amp (entered_cmd c)) (snd (fork env s))"
  have s1: "shell_typed ?s1" using assms by (simp add: fork_def)
  have "typed_result chk (rbind (waitpid env (?s1\<lparr>for_pid := p, for_cmd := curr_cmd ?s1\<rparr>))
      (\<lambda>(_, s2). Inr (s2\<lparr>for_pid := -1\<rparr>)))" for p
    by (rule safe_rbind [OF safe_waitpid]) (use s1 in \<open>auto simp: shell_typed_def\<close>)
  moreover have "shell_typed (?s1\<lparr>jobs := (jobs ?s1)\<lparr>non_built_in_cmd :=
      (non_built_in_cmd (jobs ?s1))[i := (non_built_in_cmd (jobs ?s1) ! i)\<lparr>p_id := p\<rparr>]\<rparr>\<rparr>)"
    if "getJobById n (jobs ?s1) = Some i" for n i p
    using shell_typed_pid [OF s1] entry_of_id [OF s1 that] by simp
  ultimately show ?thesis
    using s1 unfolding External_execute_def fork_def Let_def
    by (auto intro!: safe_with_list split: option.splits)
qed

text \<open>The inner commands of a redirection and of a pipe, under a sound way to execute them.\<close>

definition typed_exec :: "bool \<Rightarrow> (Command \<Rightarrow> shell \<Rightarrow> shell res) \<Rightarrow> bool" where
  "typed_exec chk exec \<longleftrightarrow>
     (\<forall>c s. shell_typed s \<longrightarrow> command_typed chk c \<longrightarrow> typed_result chk (exec c s))"

lemma safe_inner:
  assumes "typed_exec chk exec"
    and "chk \<Longrightarrow> short_line line" and "shell_typed s"
    and "\<And>t. shell_typed t \<Longrightarrow> shell_typed (f t)" and "\<And>t. shell_typed t \<Longrightarrow> typed_result chk (k t)"
  shows "typed_result chk (rbind (CreateCommand env line s) (\<lambda>(c, s2). rbind (exec c (f s2)) k))"
  by (rule safe_rbind [OF CreateCommand_typed [OF assms(2,3)]])
    (use assms(1) in \<open>auto simp: typed_exec_def intro!: safe_rbind [where P = shell_typed] assms(4,5)\<close>)

lemma safe_Redirection:
  assumes "typed_exec chk exec"
    and "shell_typed s" and "command_typed chk c" and "cls c = RedirectionCommand"
  shows "typed_result chk (Redirection_execute exec env c s)"
proof -
  obtain ap inner outFile where p: "redirection_parts (entered_cmd c) = (ap, inner, outFile)"
    by (cases "redirection_parts (entered_cmd c)") auto
  have "chk \<Longrightarrow> short_line inner"
    using short_parts(1) [OF _ p] assms(3,4) by (simp add: command_typed_def)
  then show ?thesis
    using safe_inner [OF assms(1), where line = inner and f = "\<lambda>t. t" and k = "\<lambda>t. Inr (t\<lparr>stdout_to := stdout_to s\<rparr>)" and env = env] assms(2)
    by (simp add: Redirection_execute_def p Let_def)
qed

lemma safe_Pipe:
  assumes "typed_exec chk exec"
    and "shell_typed s" and "command_typed chk c" and "cls c = PipeCommand"
  shows "typed_result chk (Pipe_execute exec env c s)"
proof -
  obtain am l r where p: "pipe_parts (entered_cmd c) = (am, l, r)"
    by (cases "pipe_parts (entered_cmd c)") auto
  have short: "chk \<Longrightarrow> short_line l" "chk \<Longrightarrow> short_line r"
    using short_parts(2) [OF _ p] assms(3,4) by (auto simp: command_typed_def)
  have first: "typed_result chk (pipe_first exec env c t)" if "shell_typed t" for t
    using safe_inner [OF assms(1) short(1) that, where env = env and
        f = "\<lambda>t. if \<not> am then t\<lparr>stdout_to := Pipe_end\<rparr> else t\<lparr>stderr_to := Pipe_end\<rparr>" and
        k = "\<lambda>t. Inl (Exited 0 (written t Pipe_end))"]
    by (simp add: pipe_first_def p Let_def)
  have wait: "typed_result chk (rbind (waitpid env t) (\<lambda>(rc, s3).
      if rc = -1 then Inr (perror env ''waitpid failed'' s3) else f rc s3))"
    if "shell_typed t" "\<And>rc u. shell_typed u \<Longrightarrow> typed_result chk (f rc u)" for t f
    by (rule safe_rbind [OF safe_waitpid [OF that(1)]]) (auto simp: that(2))
  have second: "typed_result chk (pipe_second exec env c t)" if "shell_typed t" for t
    using safe_inner [OF assms(1) short(2), where s = "t\<lparr>stdin_from := Pipe_end\<rparr>" and f = "\<lambda>t. t" and env = env and
        k = "\<lambda>s2. rbind (waitpid env s2) (\<lambda>(rc, s3). if rc = -1 then Inr (perror env ''waitpid failed'' s3)
          else Inl (Exited 0 (written s3 (stdout_to s3))))"] that wait
    by (simp add: pipe_second_def p)
  show ?thesis
    using assms(2) first second wait [of _ "\<lambda>_ u. Inr u"]
    by (simp add: Pipe_execute_def fork_def if_distrib [of Inr])
qed

lemma safe_execute:
  "shell_typed s \<Longrightarrow> command_typed chk c \<Longrightarrow> typed_result chk (execute n env c s)"
proof (induction n arbitrary: c s)
  case (Suc n)
  then have inner: "typed_exec chk (execute n env)" by (simp add: typed_exec_def)
  show ?case
  proof (cases "cls c")
    case PipeCommand
    then show ?thesis using safe_Pipe [OF inner Suc.prems] by simp
  next
    case RedirectionCommand
    then show ?thesis using safe_Redirection [OF inner Suc.prems] by simp
  qed (use Suc.prems in \<open>simp_all add: safe_External safe_ChangeDir safe_Quit safe_Kill safe_Foreground
      safe_Background safe_Cat GetCurrDir_execute_def ShowPid_execute_def Jobs_execute_def printJobsList_def
      safe_with_list safe_print_ids removeFinishedJobs_typed\<close>)
qed simp

text \<open>What \<open>executeCommand\<close> does after the command.\<close>

abbreviation finish_command :: "sh_env \<Rightarrow> Command \<Rightarrow> shell \<Rightarrow> (int \<times> shell) res" where
  "finish_command env c s4 \<equiv> let s5 = s4\<lparr>for_cmd := None, for_pid := -1\<rparr> in
     rbind (if built_in_cmd c then rbind (arg c 0) (\<lambda>a. Inr (no_amp a = ''quit'')) else Inr False)
       (\<lambda>quits. if quits then Inr (0, s5) else Inr (1, removeFinishedJobs env s5))"

lemma safe_finish:
  assumes "shell_typed s" and "command_typed chk c"
  shows "safe chk (\<lambda>(_, s'). shell_typed s') (finish_command env c s)"
proof -
  have s5: "shell_typed (s\<lparr>for_cmd := None, for_pid := -1\<rparr>)" using assms(1) by (simp add: shell_typed_def)
  have "safe chk (\<lambda>_. True) (if built_in_cmd c then rbind (arg c 0) (\<lambda>a. Inr (no_amp a = ''quit'')) else Inr False)"
    using assms(2) by (auto simp: command_typed_def intro!: safe_rbind [OF safe_arg])
  then show ?thesis
    unfolding Let_def by (rule safe_rbind) (use s5 removeFinishedJobs_typed [OF s5] in simp)
qed

lemma safe_executeCommand:
  assumes "shell_typed s" and "chk \<Longrightarrow> short_line line"
  shows "safe chk (\<lambda>(_, s'). shell_typed s') (executeCommand env line s)"
  unfolding executeCommand_def
proof (rule safe_rbind)
  show "safe chk (\<lambda>(c, s1). command_typed chk c \<and> shell_typed s1) (CreateCommand env line s)"
    using assms by (intro CreateCommand_typed)
next
  fix x :: "Command \<times> shell"
  obtain c s1 where x: "x = (c, s1)" by (cases x)
  assume "case x of (c, s1) \<Rightarrow> command_typed chk c \<and> shell_typed s1"
  then have c: "command_typed chk c" "shell_typed s1" by (simp_all add: x)
  let ?s2 = "s1\<lparr>curr_cmd := Some (length (cmds s1)), cmds := cmds s1 @ [c]\<rparr>"
  have "shell_typed ?s2" using shell_typed_new [OF c(2), of c] by (simp add: shell_typed_def)
  then have add: "typed_result chk (if \<not> built_in_cmd c \<and> background_cmd c
      then addJob env (curr_cmd ?s2) False ?s2 else Inr ?s2)"
    by (auto intro: safe_addJob)
  have "safe chk (\<lambda>(_, s'). shell_typed s') (rbind (execute m env (c\<lparr>jlist := True\<rparr>) s3) (finish_command env c))"
    if "shell_typed s3" for s3 m
    by (rule safe_rbind [OF safe_execute [OF that] safe_finish]) (simp_all add: c(1))
  with add show "safe chk (\<lambda>(_, s'). shell_typed s') (case x of (c, s1) \<Rightarrow>
      let s2 = s1\<lparr>curr_cmd := Some (length (cmds s1)), cmds := cmds s1 @ [c]\<rparr> in
      rbind (if \<not> built_in_cmd c \<and> background_cmd c then addJob env (curr_cmd s2) False s2 else Inr s2)
        (\<lambda>s3. rbind (execute (Suc (length line)) env (c\<lparr>jlist := True\<rparr>) s3) (finish_command env c)))"
    unfolding x prod.case Let_def [of ?s2] by (rule safe_rbind)
qed

section \<open>Sessions\<close>

lemma reachable_typed: "shell_reachable s \<Longrightarrow> shell_typed s"
proof (induction rule: shell_reachable.induct)
  case (start dir)
  show ?case by (simp add: shell_typed_def new_SmallShell_def new_JobsList_def jobs_typed_def
        empty_entry_def new_JobsList_ok [unfolded new_JobsList_def empty_entry_def])
next
  case (command s env line s')
  then show ?case using safe_returned [OF safe_executeCommand [where chk = False]] by fastforce
next
  case (key s env k s')
  then show ?case using safe_returned [OF safe_handle] by blast
qed

text \<open>
  C4. In every session each shared pointer, of a job as of the shell, is null or leads to a
  command object that exists, and a line with fewer than nineteen blanks, whatever it says,
  neither follows a shared pointer to an object that is gone, nor reads an argument behind the
  end of the argument vector, nor writes behind the array of words. It uses the member
  \<open>list\<close> of a command only after it was set, if the line has no \<open>&\<close> or neither \<open>>\<close> nor \<open>|\<close>.
  Two kinds of lines are outside these bounds: a background command inside a redirection or a
  pipe does read the uninitialised \<open>list\<close> (\<open>redirected_background_wild\<close>), and null pointers, which
  are among the legal values, are followed by some lines (\<open>fg_zero_null\<close>).
\<close>

theorem session_memory_safe:
  assumes "shell_reachable s" and "length (filter isspace line) < 19"
  shows "(\<forall>e \<in> set (arr (jobs s)) \<union> set (non_built_in_cmd (jobs s)) \<union> set (stoppedd (jobs s)).
            \<forall>a. cmd e = Some a \<longrightarrow> a < length (cmds s)) \<and>
     (\<forall>a. curr_cmd s = Some a \<or> for_cmd s = Some a \<longrightarrow> a < length (cmds s)) \<and>
     executeCommand env line s \<noteq> Inl BadPointer \<and> executeCommand env line s \<noteq> Inl BufferOverflow \<and>
     (amp \<notin> set line \<or> CHR ''>'' \<notin> set line \<and> CHR ''|'' \<notin> set line \<longrightarrow>
        executeCommand env line s \<noteq> Inl Uninitialised)"
proof -
  have "safe True (\<lambda>(_, s'). shell_typed s') (executeCommand env line s)"
    using assms(2) by (intro safe_executeCommand reachable_typed [OF assms(1)])
      (simp add: short_line_def COMMAND_MAX_ARGS_def)
  then show ?thesis
    using reachable_typed [OF assms(1)] initialised.avoids_executeCommand [of env line s]
    by (auto simp: shell_typed_def jobs_typed_def list_typed_def safe_def valid_ptr_def avoids_def)
qed

theorem session_memory_safe_witness:
  "executeCommand calm_env ''kill -9 1 > out'' (new_SmallShell ''/'') \<notin> {Inl BadPointer, Inl BufferOverflow, Inl Uninitialised} \<and>
   executeCommand calm_env ''sleep 5&'' (new_SmallShell ''/'') \<notin> {Inl BadPointer, Inl BufferOverflow, Inl Uninitialised} \<and>
   executeCommand calm_env ''sleep 5& > f'' (new_SmallShell ''/'') \<notin> {Inl BadPointer, Inl BufferOverflow}"
  using session_memory_safe [OF shell_reachable.start [of "''/''"], of "''kill -9 1 > out''" calm_env]
    session_memory_safe [OF shell_reachable.start [of "''/''"], of "''sleep 5&''" calm_env]
    session_memory_safe [OF shell_reachable.start [of "''/''"], of "''sleep 5& > f''" calm_env]
  by (simp add: isspace_def)

end
