(* ===== verification/Shell_Output.thy ===== *)
theory Shell_Output
  imports Shell_Types
begin

text \<open>
  Where the output of a command goes. A property that depends on nothing but what the shell
  wrote, where the two output descriptors lead and which processes were started, and that every
  text written and every process started keeps, is kept by every command that does not redirect;
  this is proved once, for the interface \<open>output_view\<close>, and used for three properties.
\<close>

section \<open>Properties of the output\<close>

lemma safe_any: "safe False (\<lambda>_. True) m"
  by (cases m) simp_all

definition plain :: "Command \<Rightarrow> bool" where
  "plain c \<longleftrightarrow> cls c \<noteq> RedirectionCommand \<and> (cls c = PipeCommand \<longrightarrow> CHR ''>'' \<notin> set (entered_cmd c))"

lemma CreateCommand_plain:
  "CreateCommand env line s = Inr (c, s') \<Longrightarrow> CHR ''>'' \<notin> set line \<Longrightarrow> plain c"
  using CreateCommand_wf [of env line s c s'] set_mono_sublist [OF sublist_texts(1) [of line]]
  by (auto simp: plain_def command_wf_def find_str_char)

lemma pipe_right_plain: "CHR ''>'' \<notin> set t \<Longrightarrow> CHR ''>'' \<notin> set (snd (snd (pipe_parts t)))"
proof -
  define b where "b = (if find_str ''|&'' t \<noteq> None then ''|&'' else ''|'')"
  obtain l r where lr: "split_at b t = (l, r)" by (cases "split_at b t")
  let ?u = "ltrim (rtrim r)"
  have trims: "set (ltrim (rtrim v)) \<subseteq> set v" for v
    using set_mono_sublist [OF sublist_texts(2) [of "rtrim v"]] set_mono_sublist [OF sublist_texts(3) [of v]] by blast
  have "set r \<subseteq> set t" using lr by (cases "find_str b t") (auto simp: split_at_def dest: in_set_dropD)
  then have u: "set ?u \<subseteq> set t" using trims [of r] by blast
  moreover have "set (ltrim (rtrim (cut_background ?u))) \<subseteq> set t"
    using trims [of "cut_background ?u"] set_mono_sublist [OF sublist_texts(4) [of ?u]] u by blast
  moreover have "snd (snd (pipe_parts t)) = (if amp \<in> set ?u then ltrim (rtrim (cut_background ?u)) else ?u)"
    unfolding pipe_parts_def Let_def b_def [symmetric] lr by simp
  ultimately show "CHR ''>'' \<notin> set t \<Longrightarrow> CHR ''>'' \<notin> set (snd (snd (pipe_parts t)))"
    by (simp split: if_splits) blast+
qed

locale output_view =
  fixes I :: "shell \<Rightarrow> bool"
  assumes view: "written s' = written s \<Longrightarrow> stdout_to s' = stdout_to s \<Longrightarrow> stderr_to s' = stderr_to s \<Longrightarrow>
      spawned s' = spawned s \<Longrightarrow> I s' = I s"
    and keep_spawn: "I s \<Longrightarrow> I (spawn t s)"
    and keep_cout: "I s \<Longrightarrow> I (cout t s)"
    and keep_cerr: "I s \<Longrightarrow> I (cerr t s)"
begin

lemma view_fields [simp]:
  "I (s\<lparr>jobs := a\<rparr>) = I s" "I (s\<lparr>tick := b\<rparr>) = I s" "I (s\<lparr>sent := c\<rparr>) = I s" "I (s\<lparr>for_pid := d\<rparr>) = I s"
  "I (s\<lparr>for_cmd := e\<rparr>) = I s" "I (s\<lparr>curr_cmd := e\<rparr>) = I s" "I (s\<lparr>cmds := f\<rparr>) = I s" "I (s\<lparr>cwd := g\<rparr>) = I s"
  "I (s\<lparr>LASTD := g\<rparr>) = I s" "I (s\<lparr>newlen := g\<rparr>) = I s" "I (s\<lparr>stdin_from := h\<rparr>) = I s"
  by (rule view; simp)+

lemma keep_report: "I s \<Longrightarrow> I (perror env t s)" "I s \<Longrightarrow> I (kill_report env p n s)"
  by (auto simp: perror_def kill_report_def kill_def keep_cerr)

lemma keep_addJob: "I s \<Longrightarrow> safe False I (addJob env c st s)"
  unfolding addJob_def Let_def by (rule safe_rbind [OF safe_any]) simp

lemma keep_set_name: "I s \<Longrightarrow> safe False I (set_name p t s)"
  unfolding set_name_def by (rule safe_rbind [OF safe_any]) simp

lemma keep_set_job_pid: "I s \<Longrightarrow> safe False I (set_job_pid n p t s)"
  unfolding set_job_pid_def Let_def
  by (auto intro!: safe_rbind [OF keep_set_name] keep_set_name split: option.splits)

lemma keep_SetNewId: "I s \<Longrightarrow> safe False I (SetNewId env n s)"
  by (auto simp: SetNewId_def Let_def split: option.splits)

lemma keep_send: "I s \<Longrightarrow> I (send_SIG_TO_JOB env n sig s)"
  by (auto simp: send_SIG_TO_JOB_def Let_def keep_report split: option.splits)

lemma keep_removeFinishedJobs: "I (removeFinishedJobs env s) = I s"
  by (simp add: removeFinishedJobs_def Let_def)

lemma keep_print_job: "I s \<Longrightarrow> safe False I (print_job n s)"
  by (auto simp: print_job_def Let_def keep_cout intro!: safe_rbind [OF safe_any] split: option.splits)

lemma keep_print_ids: "I s \<Longrightarrow> safe False I (print_ids env is s)"
  by (induction env "is" s rule: print_ids.induct)
    (auto simp: Let_def print_entry_def rbind_assoc keep_cout intro!: safe_rbind [OF safe_any]
      split: option.splits)

lemma keep_print_killed: "I s \<Longrightarrow> safe False I (print_killed js s)"
  by (induction js s rule: print_killed.induct) (auto simp: keep_cout intro!: safe_rbind [OF safe_any])

lemma keep_killAllJobs: "I s \<Longrightarrow> safe False I (killAllJobs env b s)"
proof -
  have "I t \<Longrightarrow> I (fold (kill_one env) ks t)" for ks t
    by (induction ks arbitrary: t) (auto simp: kill_one_def Let_def keep_report)
  then show "I s \<Longrightarrow> safe False I (killAllJobs env b s)"
    by (auto simp: killAllJobs_def keep_cout intro!: safe_rbind [OF keep_print_killed])
qed

lemma keep_name: "(\<And>x. safe False I (f x)) \<Longrightarrow> safe False I (rbind (getNameCmd s p) f)"
  and keep_arg: "(\<And>x. safe False I (f x)) \<Longrightarrow> safe False I (rbind (arg c i) f)"
  and keep_stoi: "(\<And>x. safe False I (g x)) \<Longrightarrow> safe False I (rbind (stoi w) g)"
  by (rule safe_rbind [OF safe_any]; simp)+

lemma keep_handle: "I s \<Longrightarrow> safe False I (handle env k s)"
proof (cases k)
  case CtrlZ
  moreover assume "I s"
  ultimately show ?thesis
    unfolding handle_def ctrlZHandler_def Let_def
    by (auto simp: keep_cout keep_report intro!: safe_rbind [where P = I] keep_addJob keep_name keep_set_job_pid)
qed (simp add: handle_def ctrlCHandler_def Let_def keep_cout keep_report)

lemma keep_waitpid: "I s \<Longrightarrow> safe False (\<lambda>(_, s'). I s') (waitpid env s)"
proof -
  have "I t \<Longrightarrow> safe False I (deliver env ks t)" for ks t
    by (induction ks arbitrary: t) (auto intro: safe_rbind keep_handle)
  then show "I s \<Longrightarrow> safe False (\<lambda>(_, s'). I s') (waitpid env s)"
    unfolding waitpid_def block_def by (auto intro!: safe_rbind [where P = I] split: option.splits)
qed

text \<open>Creating and executing commands.\<close>

lemma keep_chdir: "I (snd (chdir env d s)) = I s"
  by (simp add: chdir_def split: option.splits)

lemma keep_CreateCommand: "I s \<Longrightarrow> safe False (\<lambda>(_, s'). I s') (CreateCommand env line s)"
proof -
  assume *: "I s"
  have "I (snd (create_cd env l args s))" for l args
    using * keep_chdir by (auto simp: create_cd_def Let_def chdir_def split: prod.splits bool.splits option.splits)
  then have cd: "case create_cd env l args s of (_, s') \<Rightarrow> I s'" for l args
    by (cases "create_cd env l args s") (metis case_prod_conv snd_conv)
  have "I (snd (create_chprompt l args s))" for l args using * by (simp add: create_chprompt_def Let_def)
  then have prompt: "case create_chprompt l args s of (_, s') \<Rightarrow> I s'" for l args
    by (cases "create_chprompt l args s") (metis case_prod_conv snd_conv)
  show ?thesis
    unfolding CreateCommand_def Let_def
    by (rule safe_rbind [OF safe_any]) (auto simp: * cd prompt intro!: safe_rbind [OF safe_any])
qed

lemma keep_ChangeDir: "I s \<Longrightarrow> safe False I (ChangeDir_execute env c s)"
  by (auto simp: ChangeDir_execute_def chdir_def keep_report keep_cerr intro!: safe_rbind [OF safe_any]
      split: prod.splits bool.splits option.splits)

lemma keep_Kill: "I s \<Longrightarrow> safe False I (Kill_execute env c s)"
  unfolding Kill_execute_def
  by (auto simp: keep_cerr keep_cout keep_send intro!: safe_rbind [OF safe_any] safe_with_list split: option.splits)

lemma keep_Quit: "I s \<Longrightarrow> safe False I (Quit_execute env c s)"
  by (auto simp: Quit_execute_def intro!: safe_rbind [OF safe_any] safe_with_list keep_killAllJobs)

lemma keep_fg_run: "I s \<Longrightarrow> safe False I (fg_run env n c s)"
proof -
  have "I t \<Longrightarrow> safe False I (fg_after env n t)" for t
    by (auto simp: fg_after_def Let_def intro: keep_SetNewId split: option.splits)
  then have wait: "I t \<Longrightarrow> safe False I (rbind (waitpid env (t\<lparr>for_pid := p, cmds := cs, for_cmd := q\<rparr>)) (\<lambda>(_, s4). fg_after env n s4))"
    for t p cs q by (intro safe_rbind [OF keep_waitpid]) auto
  then show "I s \<Longrightarrow> safe False I (fg_run env n c s)"
    unfolding fg_run_def Let_def
    by (auto intro!: safe_rbind [OF keep_print_job] wait keep_send split: option.splits)
qed

lemma keep_Foreground: "I s \<Longrightarrow> safe False I (Foreground_execute env c s)"
  by (auto simp: Foreground_execute_def keep_cerr intro!: safe_rbind [OF safe_any] safe_with_list keep_fg_run)

lemma keep_Background: "I s \<Longrightarrow> safe False I (Background_execute env c s)"
  unfolding Background_execute_def Let_def
  by (auto simp: keep_cerr keep_send intro!: safe_with_list keep_arg keep_stoi safe_rbind [OF keep_print_job]
      split: prod.splits option.splits)

lemma keep_Cat: "I s \<Longrightarrow> safe False I (Cat_execute env c s)"
proof -
  have loop: "I t \<Longrightarrow> safe False I (cat_loop n env f x t)" for n f x t
    by (induction n env f x t rule: cat_loop.induct) (auto simp: keep_cout split: read_result.splits)
  have "I t \<Longrightarrow> safe False I (cat_files env fs t)" for fs t
    by (induction fs arbitrary: t)
      (auto simp: keep_report Let_def intro!: safe_rbind [OF loop] simp del: cat_loop.simps)
  then show "I s \<Longrightarrow> safe False I (Cat_execute env c s)" by (simp add: Cat_execute_def keep_cerr)
qed

lemma keep_External: "I s \<Longrightarrow> safe False I (External_execute env c s)"
  unfolding External_execute_def fork_def Let_def
  by (auto simp: keep_report keep_spawn intro!: safe_with_list safe_rbind [OF keep_waitpid] split: option.splits)

lemma keep_Pipe:
  assumes "\<And>c' s' t. CreateCommand env (snd (snd (pipe_parts (entered_cmd c)))) t = Inr (c', s') \<Longrightarrow> I s' \<Longrightarrow>
      safe False I (exec c' s')"
    and "I s"
  shows "safe False I (Pipe_execute exec env c s)"
proof -
  have first: "safe False I (pipe_first exec env c t)" for t
    unfolding pipe_first_def by (auto intro!: safe_rbind [OF safe_any] split: prod.splits)
  have wait: "safe False I (rbind (waitpid env t) (\<lambda>(rc, s3). if rc = -1 then Inr (perror env ''waitpid failed'' s3) else f rc s3))"
    if "I t" "\<And>rc u. I u \<Longrightarrow> safe False I (f rc u)" for t f
    by (rule safe_rbind [OF keep_waitpid [OF that(1)]]) (auto simp: that(2) keep_report)
  have "safe False I (pipe_second exec env c t)" if "I t" for t
    using that assms(1) unfolding pipe_second_def
    by (auto intro!: safe_rbind [OF keep_CreateCommand] safe_rbind [where P = I] wait split: prod.splits)
  then show ?thesis
    using assms(2) first wait [of _ "\<lambda>_ u. Inr u"]
    by (simp add: Pipe_execute_def fork_def keep_spawn if_distrib [of Inr])
qed

text \<open>A command without a redirection, its inner commands included.\<close>

lemma keep_execute: "I s \<Longrightarrow> plain c \<Longrightarrow> safe False I (execute n env c s)"
proof (induction n arbitrary: c s)
  case (Suc n)
  show ?case
  proof (cases "cls c")
    case PipeCommand
    have "plain c'" if "CreateCommand env (snd (snd (pipe_parts (entered_cmd c)))) t = Inr (c', s')" for c' s' t
      using Suc.prems(2) PipeCommand by (intro CreateCommand_plain [OF that] pipe_right_plain)
        (simp add: plain_def)
    then show ?thesis using Suc PipeCommand by (auto intro!: keep_Pipe)
  next
    case RedirectionCommand
    then show ?thesis using Suc.prems(2) by (simp add: plain_def)
  qed (use Suc.prems in \<open>simp_all add: keep_External keep_ChangeDir keep_Quit keep_Kill keep_Foreground
      keep_Background keep_Cat keep_cout GetCurrDir_execute_def ShowPid_execute_def Jobs_execute_def printJobsList_def
      safe_with_list keep_print_ids keep_removeFinishedJobs\<close>)
qed simp

lemma keep_inner:
  assumes "CreateCommand env line t = Inr (c, u)" and "plain c" and "execute n env c u = Inr s'" and "I t"
  shows "I s'"
proof -
  have "I u" using safe_returned [OF keep_CreateCommand [OF assms(4)] assms(1)] by simp
  from safe_returned [OF keep_execute [OF this assms(2)] assms(3)] show ?thesis .
qed

end

section \<open>Three properties\<close>

text \<open>
  Nothing is written to a channel; a channel only grows; every process started since has the
  two channels as its standard output and standard error.
\<close>

definition hushed :: "chan \<Rightarrow> string \<Rightarrow> shell \<Rightarrow> bool" where
  "hushed ch w s \<longleftrightarrow> (ch = Closed \<or> stdout_to s \<noteq> ch \<and> stderr_to s \<noteq> ch) \<and> written s ch = w"

definition grown :: "chan \<Rightarrow> string \<Rightarrow> shell \<Rightarrow> bool" where
  "grown ch w s \<longleftrightarrow> (\<exists>t. written s ch = w @ t)"

definition feeding :: "chan \<Rightarrow> chan \<Rightarrow> (string \<times> chan \<times> chan) list \<Rightarrow> shell \<Rightarrow> bool" where
  "feeding out err ps s \<longleftrightarrow> stdout_to s = out \<and> stderr_to s = err \<and>
     (\<exists>qs. spawned s = ps @ qs \<and> (\<forall>p \<in> set qs. snd p = (out, err)))"

lemma spawned_sel [simp]:
  "spawned (cout t s) = spawned s" "spawned (cerr t s) = spawned s"
  "stdout_to (cerr t s) = stdout_to s" "stderr_to (cout t s) = stderr_to s" "stderr_to (cerr t s) = stderr_to s"
  by (simp_all add: cout_def cerr_def put_def)

lemma feeding_spawn:
  assumes "feeding out err ps s"
  shows "feeding out err ps (spawn t s)"
proof -
  obtain qs where qs: "spawned s = ps @ qs" "\<forall>p \<in> set qs. snd p = (out, err)"
      and ch: "stdout_to s = out" "stderr_to s = err"
    using assms by (auto simp: feeding_def)
  have "spawned (spawn t s) = ps @ (qs @ [(t, out, err)])" using qs(1) ch by (simp add: spawn_def)
  moreover have "\<forall>p \<in> set (qs @ [(t, out, err)]). snd p = (out, err)" using qs(2) by auto
  ultimately show ?thesis unfolding feeding_def spawn_sel using ch by blast
qed

interpretation feeding: output_view "feeding out err ps" for out err ps
  by unfold_locales (simp_all add: feeding_spawn, simp_all add: feeding_def)

interpretation hushed: output_view "hushed ch w" for ch w
  by unfold_locales (auto simp: hushed_def cout_def cerr_def put_def)

interpretation grown: output_view "grown ch w" for ch w
  by unfold_locales (auto simp: grown_def cout_def cerr_def put_def)

section \<open>Redirections\<close>

lemma create_cls [simp]:
  "cls (create_pwd l as) = GetCurrDirCommand" "cls (create_jobs l as) = JobsCommand"
  "cls (create_kill l as s) = KillCommand" "cls (create_fg l as s) = ForegroundCommand"
  "cls (create_bg l as s) = BackgroundCommand" "cls (create_quit l as) = QuitCommand"
  "create_chprompt l as s = (c, s') \<Longrightarrow> cls c = ChpromptCommand"
  "create_cat l as = Inr c \<Longrightarrow> cls c = CatCommand" "create_external l as = Inr c \<Longrightarrow> cls c = ExternalCommand"
  by (auto simp: create_defs create_cat_def create_external_def Let_def result_simps split: if_splits)

lemma CreateCommand_redirection:
  assumes "CreateCommand env line s = Inr (c, s1)" and "cls c = RedirectionCommand"
  shows "s1 = s \<and> \<not> built_in_cmd c \<and> \<not> background_cmd c"
proof -
  have "\<not> built_in_cmd (create_showpid l as) \<and> \<not> background_cmd (create_showpid l as)"
    if "cls (create_showpid l as) = RedirectionCommand" for l as
    using that by (auto simp: create_showpid_def new_built_in_def new_command_def split: option.splits if_splits)
  then show ?thesis
    using assms by (auto simp: CreateCommand_def Let_def result_simps new_command_def dest!: create_cd_cls
        split: if_splits)
qed

text \<open>The state in which the inner command runs.\<close>

definition redirected :: "sh_env \<Rightarrow> bool \<Rightarrow> string \<Rightarrow> shell \<Rightarrow> shell" where
  "redirected env ap f s = (let s0 = s\<lparr>tick := Suc (tick s)\<rparr> in
     if creatable env (tick s) f
     then s0\<lparr>stdout_to := File f, written := (if ap then written s else (written s)(File f := []))\<rparr>
     else perror env ''smash error: open failed'' (s0\<lparr>stdout_to := Closed\<rparr>))"

lemma Redirection_run:
  assumes "Redirection_execute exec env c s = Inr s'" and "redirection_parts (entered_cmd c) = (ap, inner, f)"
  obtains c' u s3 where "CreateCommand env inner (redirected env ap f s) = Inr (c', u)"
    and "exec c' u = Inr s3" and "s' = s3\<lparr>stdout_to := stdout_to s\<rparr>"
  using assms by (auto simp: Redirection_execute_def redirected_def Let_def result_simps)

lemma redirection_line:
  assumes "executeCommand env line s = Inr (r, s')" and "CreateCommand env line s = Inr (c, s1)"
    and "cls c = RedirectionCommand"
  obtains s4 p cs where
    "Redirection_execute (execute (length line) env) env (c\<lparr>jlist := True\<rparr>) (s\<lparr>curr_cmd := p, cmds := cs\<rparr>) = Inr s4"
    and "s' = removeFinishedJobs env (s4\<lparr>for_cmd := None, for_pid := -1\<rparr>)"
  using assms CreateCommand_redirection [OF assms(2,3)]
  by (auto simp: executeCommand_def Let_def result_simps)

text \<open>
  C11. The output of the shell during a redirection, for a line whose command before the sign
  contains no redirection of its own: what the shell itself prints while it executes this
  command (the text of the built-in commands and the messages of the signal handlers that run
  meanwhile) goes to the file or, for error messages, to standard error; every other channel has
  the same contents afterwards. Every process that the command starts receives the file as its
  standard output and the standard error of the shell. With \<open>>>\<close> the old contents of the file
  stay in front of the new text, with \<open>>\<close> they are gone; when the file cannot be opened, standard
  output is closed for the command. Afterwards standard output leads where it led before.
  (What the started processes write on their own, to the channels they received or to other
  files, is not part of the model.)
\<close>

theorem redirection_confined:
  assumes "executeCommand env line s = Inr (r, s')" and "CreateCommand env line s = Inr (c, s1)"
    and "cls c = RedirectionCommand" and "redirection_parts (entered_cmd c) = (ap, inner, f)"
    and "CHR ''>'' \<notin> set inner"
  shows "stdout_to s' = stdout_to s \<and>
     (\<forall>ch. ch \<noteq> File f \<and> ch \<noteq> stderr_to s \<longrightarrow> written s' ch = written s ch) \<and>
     (\<exists>qs. spawned s' = spawned s @ qs \<and>
        (\<forall>p \<in> set qs. snd p = (if creatable env (tick s) f then File f else Closed, stderr_to s))) \<and>
     (creatable env (tick s) f \<longrightarrow> (\<exists>t. written s' (File f) = (if ap then written s (File f) else []) @ t))"
proof -
  obtain s4 p cs where s4: "s' = removeFinishedJobs env (s4\<lparr>for_cmd := None, for_pid := -1\<rparr>)"
      "Redirection_execute (execute (length line) env) env (c\<lparr>jlist := True\<rparr>) (s\<lparr>curr_cmd := p, cmds := cs\<rparr>) = Inr s4"
    using redirection_line [OF assms(1-3)] by blast
  define t where "t = redirected env ap f (s\<lparr>curr_cmd := p, cmds := cs\<rparr>)"
  have parts: "redirection_parts (entered_cmd (c\<lparr>jlist := True\<rparr>)) = (ap, inner, f)" using assms(4) by simp
  obtain c' u s3 where run: "CreateCommand env inner t = Inr (c', u)" "execute (length line) env c' u = Inr s3"
      "s4 = s3\<lparr>stdout_to := stdout_to s\<rparr>"
    by (rule Redirection_run [OF s4(2) parts]) (use that in \<open>simp add: t_def\<close>)
  have c': "plain c'" using CreateCommand_plain [OF run(1) assms(5)] .
  have "written s3 ch = written s ch" if "ch \<noteq> File f" "ch \<noteq> stderr_to s" for ch
  proof -
    have "hushed ch (written s ch) t"
      using that by (auto simp: t_def redirected_def hushed_def perror_def cerr_def put_def Let_def)
    from hushed.keep_inner [OF run(1) c' run(2) this] show ?thesis by (simp add: hushed_def)
  qed
  moreover have "\<exists>v. written s3 (File f) = (if ap then written s (File f) else []) @ v"
    if "creatable env (tick s) f"
  proof -
    have "grown (File f) (if ap then written s (File f) else []) t"
      using that by (simp add: t_def redirected_def grown_def Let_def)
    from grown.keep_inner [OF run(1) c' run(2) this] show ?thesis by (simp add: grown_def)
  qed
  moreover have "feeding (if creatable env (tick s) f then File f else Closed) (stderr_to s) (spawned s) s3"
  proof (rule feeding.keep_inner [OF run(1) c' run(2)])
    show "feeding (if creatable env (tick s) f then File f else Closed) (stderr_to s) (spawned s) t"
      by (simp add: t_def redirected_def feeding_def perror_def Let_def)
  qed
  ultimately show ?thesis
    by (auto simp: s4(1) run(3) removeFinishedJobs_def feeding_def Let_def)
qed

theorem redirection_confined_witness:
  "\<exists>s'. executeCommand calm_env ''ls >> f'' (new_SmallShell ''/home'') = Inr (1, s') \<and>
     written s' Terminal = [] \<and> stdout_to s' = Terminal \<and>
     spawned s' = [(''ls'', File ''f'', Terminal_err)] \<and>
     (\<forall>p \<in> set (spawned s'). snd p = (File ''f'', Terminal_err))"
proof -
  let ?s = "new_SmallShell ''/home''"
  let ?c = "new_command RedirectionCommand ''ls >> f''"
  have calm: "fork_rc calm_env k = 100" "waitpid_rc calm_env k = Some 100" "keys calm_env k = []"
      "creatable calm_env k g" for k g by (simp_all add: calm_env_def)
  have start: "spawned ?s = []" "stderr_to ?s = Terminal_err" by (simp_all add: new_SmallShell_def)
  have "is_word ''ls''" "is_word ''>>''" "is_word ''f''" by (simp_all add: is_word_def isspace_def)
  then have words: "parseCommandLine ''ls >> f'' = Inr [''ls'', ''>>'', ''f'']"
      "parseCommandLine ''ls'' = Inr [''ls'']"
    using parseCommandLine_join [of "[''ls'', ''>>'', ''f'']"] parseCommandLine_join [of "[''ls'']"] by simp_all
  have c: "CreateCommand calm_env ''ls >> f'' t = Inr (?c, t)" for t
    by (simp add: CreateCommand_def words cstr_def)
  have inner: "CreateCommand calm_env ''ls'' t = Inr ((new_command ExternalCommand ''ls'')
      \<lparr>cargs := [''ls''], optional_arg := False, background_cmd := False\<rparr>, t)" for t
    by (simp add: CreateCommand_def words cstr_def erase_char_def create_external_def isBackgroundComamnd_def
        rtrim_def Let_def)
  have parts: "redirection_parts (entered_cmd ?c) = (True, ''ls'', ''f'')"
    by (simp add: new_command_def redirection_parts_def split_at_def rtrim_def ltrim_def cut_background_def)
  have "\<exists>s'. executeCommand calm_env ''ls >> f'' ?s = Inr (1, s') \<and> spawned s' = [(''ls'', File ''f'', Terminal_err)]"
    using parts by (simp add: executeCommand_def c inner Redirection_execute_def new_command_def Let_def
        External_execute_def fork_def waitpid_def block_def spawn_def erase_char_def calm start
        removeFinishedJobs_def)
  then obtain s' where s': "executeCommand calm_env ''ls >> f'' ?s = Inr (1, s')"
      "spawned s' = [(''ls'', File ''f'', Terminal_err)]" by blast
  from redirection_confined [OF s'(1) c _ parts] show ?thesis
    using s' calm by (auto simp: new_command_def new_SmallShell_def)
qed

end
