(* ===== verification/Spec2Isabelle.thy ===== *)
theory Spec2Isabelle
  imports Server_Inv Kernel_Sched Malloc_Client Shell_Jobs Shell_Output
begin

text \<open>
  A verification development of the four programs of the repository: a multi-threaded web server
  (\<^verbatim>\<open>src/Threads and synchronization\<close>), two memory allocators (\<^verbatim>\<open>src/Virtual memory\<close>), a shell
  (\<^verbatim>\<open>src/Linux Shell\<close>) and system calls on process weights (\<^verbatim>\<open>src/Linux Kernel\<close>).

  \<^bold>\<open>Conventions.\<close> Every C or C++ function is a definition of the same name (with a suffix where HOL
  has the name already). Code that can fail returns \<open>abort + 'a\<close> (type \<open>res\<close> of \<open>Prelude\<close>): null
  and dangling pointers, buffer overflow, misuse of a mutex, an exception that leaves the program,
  exit, replacement of the process image, a system call that never returns, and loops that do not
  end within their fuel are values of \<open>abort\<close>. Objects reached through pointers live in a store with explicit allocation and release.
  What the kernel answers is an argument: a stream of results for \<open>read\<close> and \<open>write\<close>, a record of
  functions for the other calls; no theorem assumes more of them than it states. Integers are
  \<open>int\<close> or \<open>nat\<close>, bit fields are words; wrap-around, truncating division and the formats of \<open>printf\<close> are
  written out where the code depends on them.

  \<^bold>\<open>The web server.\<close>
  \<^item> \<open>FIFO_Queue\<close>: \<^verbatim>\<open>FIFO_queue.c\<close>, a linked list of requests with the globals \<open>head\<close> and \<open>tail\<close>.
    The list refines a functional queue under every sequence of calls (locale \<open>fifo_contract\<close>,
    interpretation \<open>fq\<close>); \<open>random_drop\<close> removes a quarter of it, rounded up.
  \<^item> \<open>Unix_Wrappers\<close>: the error-checking wrappers and socket helpers of \<^verbatim>\<open>helper.c\<close>.
  \<^item> \<open>Rio\<close>: the robust I/O package of \<^verbatim>\<open>helper.c\<close>. The readers are exact for every way the kernel
    splits the stream; the buffered and the unbuffered one are instances of the locales
    \<open>short_reader\<close> and \<open>robust_reader\<close>. The loops end because the answers of the kernel are a
    finite list; after it the end of the file is read.
  \<^item> \<open>Request\<close>: \<^verbatim>\<open>request.c\<close>. Parsing of the URI, the answers byte for byte, the statistics of a
    thread. The only fuel is that of the header loop: one unit per line is enough.
  \<^item> \<open>Server\<close>, \<open>Server_Inv\<close>: \<^verbatim>\<open>server.c\<close> as a transition system. The master and the workers are
    program counters over the statements between two synchronisation points; \<open>srv_step\<close>
    interleaves them, and a worker may wake up spuriously. For the policy \<open>dt\<close> an invariant over
    all reachable states gives exact counters, mutual exclusion, first-in first-out service, that
    not all workers sleep while a request waits (one of them may), and no fault. For the other
    policies the theorems exhibit the races of
    \<open>handle_overload\<close>.

  \<^bold>\<open>The allocators.\<close>
  \<^item> \<open>Malloc_Heap\<close>: the memory between the first block and the break, block headers as objects at
    their addresses and payload bytes; \<open>heap_ok\<close> says that the doubly linked list tiles it. The
    locale \<open>block_allocator\<close> derives the safety of any batch of requests from the contract of one
    request.
  \<^item> \<open>Malloc1\<close>, \<open>Malloc2\<close>: \<^verbatim>\<open>malloc_1.cpp\<close> and \<^verbatim>\<open>malloc_2.cpp\<close>. \<open>smalloc\<close> and \<open>sfree\<close> refine
    operations on the list of blocks (first fit, splitting, merging, growth of the last block).
    The interpretations \<open>m1\<close> and \<open>m2\<close> discharge the contract. The fuel of the searches is the
    length of the list; theorems ask for at least that. A write of the program into a payload
    invalidates the headers it overlaps (\<open>clobber\<close>).
  \<^item> \<open>Malloc2_Realloc\<close>: the branches of the second \<open>srealloc\<close> (in place, into the next block, to a
    new block) and the statistics over the list of the break and the list of mappings.
  \<^item> \<open>Malloc_Client\<close>: programs that use an allocator. The locale \<open>client_allocator\<close> shows for any
    sequence of \<open>smalloc\<close>, \<open>scalloc\<close> and \<open>sfree\<close>, with bytes stored in between, that no live area
    is handed out again and that the heap agrees with an ideal memory;
    its interpretations \<open>c1\<close> and \<open>c2\<close> give it for both allocators. One unit of fuel per call is
    enough, since a call adds at most one block.

  \<^bold>\<open>The shell.\<close>
  \<^item> \<open>Shell_Text\<close>: trimming, words, redirections and pipes of a line, from \<^verbatim>\<open>Commands.cpp\<close>.
  \<^item> \<open>Jobs_List\<close>: class \<open>JobsList\<close> of \<^verbatim>\<open>Commands.h\<close> and the state of the shell. The vector of
    entries refines a table from job numbers to entries; the sweep over finished jobs is an
    instance of the locale \<open>swept_table\<close>.
  \<^item> \<open>Shell_Signals\<close>: \<^verbatim>\<open>signals.cpp\<close>; the handlers run while the shell is blocked in \<open>waitpid\<close>
    or waits for a line.
  \<^item> \<open>Shell_Commands\<close>: \<open>CreateCommand\<close>, every \<open>execute\<close>, \<open>executeCommand\<close> and the loop of
    \<^verbatim>\<open>smash.cpp\<close>. \<open>fork\<close> answers 0 in the child, so that both sides of every \<open>fork\<close> are covered.
    The fuel of \<open>execute\<close> is the nesting of commands, which the length of the line bounds; that of
    the loop of \<open>cat\<close> is the field \<open>patience\<close> of the environment. A blocking \<open>waitpid\<close> may never
    return (\<open>Blocked\<close>). The answers to \<open>open\<close> and \<open>read\<close> may change from call to call, so that files
    that grow while they are read are covered. A process that is started is recorded with the
    channels it inherits; what it does is not modelled.
  \<^item> \<open>Shell_Inv\<close>: an invariant of all sessions, and that every command returns when its waits
    return and its files end. The locale \<open>avoiding\<close> shows for a class of faults that no command has
    one of them; its interpretations are \<open>returning\<close> and \<open>initialised\<close>.
  \<^item> \<open>Shell_Types\<close>: type soundness. Every shared pointer is null or leads to an object, every argument
    that is read is there; with \<open>safe\<close>, one lemma per operation gives that no such fault occurs and that
    the operation keeps the types.
  \<^item> \<open>Shell_Output\<close>: where output goes. The locale \<open>output_view\<close> shows for any property of the
    channels and the started processes that plain commands keep it; its interpretations \<open>hushed\<close>,
    \<open>grown\<close> and \<open>feeding\<close> give that the shell writes to the file of a redirection only, appends to
    it, and hands it to the processes it starts.
  \<^item> \<open>Shell_Behaviour\<close>: Ctrl-Z, background commands, \<open>cd\<close>, \<open>quit kill\<close>, and the lines that end
    the shell.
  \<^item> \<open>Shell_Jobs\<close>: \<open>fg\<close>, with the process ending or stopped again, \<open>bg\<close>, and the vector of stopped
    jobs as a mirror of the job list.

  \<^bold>\<open>The kernel.\<close>
  \<^item> \<open>Kernel_Weights\<close>: \<^verbatim>\<open>newSyscalls_imp.c\<close> over the fields of \<open>task_struct\<close> it uses, with the
    intrusive child lists as pointers. The recursive sum equals the sum over the tree of processes
    and fits a \<open>long\<close>, the walk to the root finds the heaviest ancestor; fuel is one unit per task
    and per list element visited.
  \<^item> \<open>Kernel_Sched\<close>: the inline functions and macros of \<^verbatim>\<open>sched.h\<close> that compute on the fields of a
    task, on words of the width the fields have: states and their letters, process flags, atomic
    flags, identifiers. The letter of a state is read inside its table and is that of the most
    severe condition; atomic flags that have no clearing function are never lost.

  \<^bold>\<open>Errors in the code.\<close> Some theorems state what the code does where it does not do what it
  means to: \<open>overload_unprotected\<close>, \<open>overload_dh_null\<close>, \<open>overload_random_count\<close>,
  \<open>idle_worker_sleeps\<close>, \<open>random_drop_closes_pointers\<close>, \<open>requestServeDynamic_waits\<close>,
  \<open>requestReadhdrs_hangs\<close>, \<open>scalloc1_zeroed\<close>, \<open>second_mmap_crashes\<close>, \<open>srealloc_corrupts_end\<close>,
  \<open>srealloc_shrink_fragments\<close>, \<open>sfree_unmaps_break\<close>, \<open>removeBackgroundSign_keeps_blank\<close>,
  \<open>lines_that_crash\<close>, \<open>kill_zero_hits_shell\<close>, \<open>end_of_input_spins\<close>, \<open>cat_without_end\<close>,
  \<open>redirected_background_wild\<close>, \<open>fg_zero_null\<close>.

  \<^bold>\<open>Not modelled.\<close> The rest of the stock kernel headers (\<^verbatim>\<open>sched.h\<close>, \<^verbatim>\<open>init_task.h\<close>,
  \<^verbatim>\<open>syscalls.h\<close>): prototypes, structures of other parts of the kernel, and inline functions that
  only forward to code outside the repository; locking of the task list, which the system calls do
  not do; build files; what the programs print for debugging; process groups
  (\<open>setpgrp\<close>); signals that interrupt the shell in the middle of an operation; buffering of
  \<open>cout\<close> when standard output is not a terminal; the release of shared command objects, which no
  code observes; the output of the processes the shell starts; the number of open descriptors
  (that any \<open>open\<close> may fail covers their exhaustion); full pipes, on which a write would block.
\<close>

end
